(* ===== verification/Cowork_Prelude.thy ===== *)
theory Cowork_Prelude
  imports Main "HOL-Library.Sublist"
begin

text \<open>
  Shared vocabulary of the development: clock readings, Python exceptions as values, the
  state-and-exception computations the services are written in, and the list and association
  list operations that Python's built-in containers provide.

  Python evaluates a statement that raises after an earlier statement has already written to the
  store without undoing that write. A computation is therefore a function from a state to an
  outcome paired with the state at the moment it returned or raised; \<open>sbind\<close> stops at the first
  exception and keeps the state reached so far.
\<close>

named_theorems op_defs \<open>definitions of store and service operations\<close>
named_theorems monad_simps \<open>evaluation of state-and-exception computations\<close>

section \<open>Basic types\<close>

text \<open>A \<open>datetime\<close> is a number of microseconds on one UTC time line; a \<open>timedelta\<close> is a difference.\<close>

type_synonym time = int

abbreviation seconds :: "int \<Rightarrow> time" where
  "seconds n \<equiv> n * 1000000"

abbreviation minutes :: "int \<Rightarrow> time" where
  "minutes n \<equiv> seconds (60 * n)"

abbreviation days :: "int \<Rightarrow> time" where
  "days n \<equiv> minutes (1440 * n)"

text \<open>
  The exceptions the modelled code raises. The string is the message; \<open>InvalidRunTransition\<close> is the
  subclass of \<open>StateConflict\<close> that \<open>run_state.py\<close> declares, and \<open>ValidationError\<close> stands for the
  pydantic failure of a document that breaks its declared field constraints.
\<close>

datatype error =
    KeyError string
  | ValueError string
  | ValidationError string
  | StateConflict string
  | InvalidRunTransition string
  | RuntimeAuthenticationError string
  | StaleRuntimeEvent string
  | NoEligibleComputer string
  | RuntimeError string
  | AttributeError string
  | TypeError string
  | UnicodeDecodeError string

type_synonym 'a result = "error + 'a"

type_synonym ('s, 'a) comp = "'s \<Rightarrow> 'a result \<times> 's"

section \<open>State-and-exception computations\<close>

definition sreturn :: "'a \<Rightarrow> ('s, 'a) comp" where
  "sreturn x = (\<lambda>s. (Inr x, s))"

definition sraise :: "error \<Rightarrow> ('s, 'a) comp" where
  "sraise e = (\<lambda>s. (Inl e, s))"

definition sbind :: "('s, 'a) comp \<Rightarrow> ('a \<Rightarrow> ('s, 'b) comp) \<Rightarrow> ('s, 'b) comp" where
  "sbind m f = (\<lambda>s. case m s of (Inl e, s') \<Rightarrow> (Inl e, s') | (Inr x, s') \<Rightarrow> f x s')"

text \<open>\<open>slift r\<close> runs a pure fallible expression; \<open>sguard b e\<close> is \<open>if not b: raise e\<close>.\<close>

definition slift :: "'a result \<Rightarrow> ('s, 'a) comp" where
  "slift r = (\<lambda>s. (r, s))"

definition sguard :: "bool \<Rightarrow> error \<Rightarrow> ('s, unit) comp" where
  "sguard b e = (if b then sreturn () else sraise e)"

text \<open>Building a pydantic model validates it.\<close>

definition smake :: "string \<Rightarrow> ('d \<Rightarrow> bool) \<Rightarrow> 'd \<Rightarrow> ('s, 'd) comp" where
  "smake name valid d = (if valid d then sreturn d else sraise (ValidationError name))"

definition scatch :: "('s, 'a) comp \<Rightarrow> (error \<Rightarrow> ('s, 'a) comp) \<Rightarrow> ('s, 'a) comp" where
  "scatch m h = (\<lambda>s. case m s of (Inl e, s') \<Rightarrow> h e s' | (Inr x, s') \<Rightarrow> (Inr x, s'))"

text \<open>\<open>try: x = m() except KeyError: x = None\<close>.\<close>

definition stry_key :: "('s, 'a) comp \<Rightarrow> ('s, 'a option) comp" where
  "stry_key m = (\<lambda>s. case m s of
     (Inl (KeyError _), s') \<Rightarrow> (Inr None, s')
   | (Inl e, s') \<Rightarrow> (Inl e, s')
   | (Inr x, s') \<Rightarrow> (Inr (Some x), s'))"

fun smapM :: "('a \<Rightarrow> ('s, 'b) comp) \<Rightarrow> 'a list \<Rightarrow> ('s, 'b list) comp" where
  "smapM f [] = sreturn []"
| "smapM f (x # xs) = sbind (f x) (\<lambda>y. sbind (smapM f xs) (\<lambda>ys. sreturn (y # ys)))"

lemma sreturn_apply [simp, monad_simps]: "sreturn x s = (Inr x, s)"
  by (simp add: sreturn_def)

lemma sraise_apply [simp, monad_simps]: "sraise e s = (Inl e, s)"
  by (simp add: sraise_def)

lemma slift_apply [simp, monad_simps]: "slift r s = (r, s)"
  by (simp add: slift_def)

lemma sbind_Inl [simp, monad_simps]: "m s = (Inl e, s') \<Longrightarrow> sbind m f s = (Inl e, s')"
  by (simp add: sbind_def)

lemma sbind_Inr [simp, monad_simps]: "m s = (Inr x, s') \<Longrightarrow> sbind m f s = f x s'"
  by (simp add: sbind_def)

lemma sguard_apply [simp, monad_simps]:
  "sguard b e s = (if b then Inr () else Inl e, s)"
  by (simp add: sguard_def)

lemma sbind_guard [simp, monad_simps]:
  "sbind (sguard b e) f s = (if b then f () s else (Inl e, s))"
  by (simp add: sbind_def)

lemma smake_apply [simp, monad_simps]:
  "smake name valid d s = (if valid d then Inr d else Inl (ValidationError name), s)"
  by (simp add: smake_def)

lemma scatch_Inl [simp, monad_simps]: "m s = (Inl e, s') \<Longrightarrow> scatch m h s = h e s'"
  by (simp add: scatch_def)

lemma scatch_Inr [simp, monad_simps]: "m s = (Inr x, s') \<Longrightarrow> scatch m h s = (Inr x, s')"
  by (simp add: scatch_def)

lemma stry_key_simps [simp, monad_simps]:
  "m s = (Inl (KeyError k), s') \<Longrightarrow> stry_key m s = (Inr None, s')"
  "m s = (Inl (ValueError k), s') \<Longrightarrow> stry_key m s = (Inl (ValueError k), s')"
  "m s = (Inl (ValidationError k), s') \<Longrightarrow> stry_key m s = (Inl (ValidationError k), s')"
  "m s = (Inr x, s') \<Longrightarrow> stry_key m s = (Inr (Some x), s')"
  by (simp_all add: stry_key_def)

text \<open>The success case of a sequence splits into the success of both parts.\<close>

lemma sbind_Inr_elim:
  assumes "sbind m f s = (Inr y, t)"
  obtains x u where "m s = (Inr x, u)" and "f x u = (Inr y, t)"
  using assms by (auto simp: sbind_def split: prod.splits sum.splits)

lemma slift_Inr_elim:
  assumes "slift r s = (Inr y, t)"
  obtains "r = Inr y" and "t = s"
  using assms by simp

text \<open>An invariant kept by both parts is kept by the sequence, whether or not it raises.\<close>

definition keeps :: "('s \<Rightarrow> bool) \<Rightarrow> ('s, 'a) comp \<Rightarrow> bool" where
  "keeps P m \<longleftrightarrow> (\<forall>s. P s \<longrightarrow> P (snd (m s)))"

lemma keepsI: "(\<And>s. P s \<Longrightarrow> P (snd (m s))) \<Longrightarrow> keeps P m"
  by (simp add: keeps_def)

lemma keepsD: "keeps P m \<Longrightarrow> P s \<Longrightarrow> P (snd (m s))"
  by (simp add: keeps_def)

lemma keeps_pair: "keeps P m \<Longrightarrow> P s \<Longrightarrow> m s = (r, t) \<Longrightarrow> P t"
  by (auto dest: keepsD)

lemma keeps_sreturn [simp, intro]: "keeps P (sreturn x)"
  by (simp add: keeps_def)

lemma keeps_sraise [simp, intro]: "keeps P (sraise e)"
  by (simp add: keeps_def)

lemma keeps_slift [simp, intro]: "keeps P (slift r)"
  by (simp add: keeps_def)

lemma keeps_smake [simp, intro]: "keeps P (smake n v d)"
  by (simp add: keeps_def)

lemma keeps_sguard [simp, intro]: "keeps P (sguard b e)"
  by (simp add: keeps_def)

lemma keeps_sbind [intro]:
  assumes "keeps P m" and "\<And>x. keeps P (f x)"
  shows "keeps P (sbind m f)"
  using assms by (fastforce simp: keeps_def sbind_def split: prod.splits sum.splits)

lemma keeps_scatch [intro]:
  assumes "keeps P m" and "\<And>e. keeps P (h e)"
  shows "keeps P (scatch m h)"
  using assms by (fastforce simp: keeps_def scatch_def split: prod.splits sum.splits)

lemma keeps_stry_key [intro]: "keeps P m \<Longrightarrow> keeps P (stry_key m)"
  by (fastforce simp: keeps_def stry_key_def split: prod.splits sum.splits error.splits)

lemma keeps_case_option [intro]:
  "keeps P m \<Longrightarrow> (\<And>x. keeps P (f x)) \<Longrightarrow> keeps P (case opt of None \<Rightarrow> m | Some x \<Rightarrow> f x)"
  by (cases opt) simp_all

lemma keeps_case_prod [intro]: "(\<And>x y. keeps P (f x y)) \<Longrightarrow> keeps P (case p of (x, y) \<Rightarrow> f x y)"
  by (cases p) simp

lemma keeps_if [intro]: "keeps P m \<Longrightarrow> keeps P m' \<Longrightarrow> keeps P (if b then m else m')"
  by simp

lemma keeps_smapM [intro]: "(\<And>x. keeps P (f x)) \<Longrightarrow> keeps P (smapM f xs)"
  by (induction xs) (auto intro!: keeps_sbind)

section \<open>Python containers\<close>

text \<open>\<open>dict.fromkeys(xs)\<close> keeps the first occurrence of each element, in order.\<close>

fun fromkeys :: "'a list \<Rightarrow> 'a list" where
  "fromkeys [] = []"
| "fromkeys (x # xs) = x # filter (\<lambda>y. y \<noteq> x) (fromkeys xs)"

lemma set_fromkeys [simp]: "set (fromkeys xs) = set xs"
  by (induction xs) auto

lemma distinct_fromkeys [simp]: "distinct (fromkeys xs)"
  by (induction xs) auto

lemma fromkeys_distinct: "distinct xs \<Longrightarrow> fromkeys xs = xs"
proof (induction xs)
  case (Cons x xs)
  then have "filter (\<lambda>y. y \<noteq> x) xs = xs" by (auto intro!: filter_True)
  with Cons show ?case by simp
qed simp

text \<open>\<open>next((x for x in xs if p(x)), None)\<close> is \<open>find p xs\<close>. \<open>min(xs, key=k)\<close> is the first element
  with the least key, and \<open>sorted(xs, key=k, reverse=True)\<close> sorts by falling key keeping ties in
  order.\<close>

lemma find_SomeD: "find P xs = Some x \<Longrightarrow> x \<in> set xs \<and> P x"
  by (induction xs) (auto split: if_splits)

fun min_by :: "('a \<Rightarrow> 'k::linorder) \<Rightarrow> 'a list \<Rightarrow> 'a option" where
  "min_by k [] = None"
| "min_by k (x # xs) =
     (case min_by k xs of None \<Rightarrow> Some x | Some y \<Rightarrow> if k y < k x then Some y else Some x)"

lemma min_by_None [simp]: "min_by k xs = None \<longleftrightarrow> xs = []"
  by (cases xs) (auto split: option.splits)

lemma min_by_least:
  "min_by k xs = Some y \<Longrightarrow> y \<in> set xs \<and> (\<forall>x \<in> set xs. k y \<le> k x)"
proof (induction xs arbitrary: y)
  case (Cons x xs)
  show ?case
  proof (cases "min_by k xs")
    case None
    then have "xs = []" by simp
    with Cons.prems show ?thesis by simp
  next
    case (Some z)
    have z: "z \<in> set xs" "\<forall>w \<in> set xs. k z \<le> k w" using Cons.IH [OF Some] by auto
    show ?thesis
    proof (cases "k z < k x")
      case True
      then show ?thesis using Cons.prems Some z by auto
    next
      case False
      then have "y = x" using Cons.prems Some by simp
      moreover have "\<forall>w \<in> set xs. k x \<le> k w" using z False by force
      ultimately show ?thesis by simp
    qed
  qed
qed simp

definition sorted_desc :: "('a \<Rightarrow> int) \<Rightarrow> 'a list \<Rightarrow> 'a list" where
  "sorted_desc k xs = sort_key (\<lambda>x. - k x) xs"

lemma set_sorted_desc [simp]: "set (sorted_desc k xs) = set xs"
  by (simp add: sorted_desc_def)

lemma length_sorted_desc [simp]: "length (sorted_desc k xs) = length xs"
  by (simp add: sorted_desc_def)

lemma distinct_sorted_desc [simp]: "distinct (sorted_desc k xs) = distinct xs"
  by (simp add: sorted_desc_def)

lemma sorted_desc_Nil [simp]: "sorted_desc k [] = []"
  by (simp add: sorted_desc_def)

lemma sorted_desc_single [simp]: "sorted_desc k [x] = [x]"
  by (simp add: sorted_desc_def)

section \<open>Association lists\<close>

text \<open>
  A Python \<open>dict\<close> (and a directory of files) as an association list: assignment replaces the
  entry in place or appends a new one, deletion removes it.
\<close>

fun al_put :: "'k \<Rightarrow> 'v \<Rightarrow> ('k \<times> 'v) list \<Rightarrow> ('k \<times> 'v) list" where
  "al_put k v [] = [(k, v)]"
| "al_put k v (p # ps) = (if fst p = k then (k, v) # ps else p # al_put k v ps)"

definition al_del :: "'k \<Rightarrow> ('k \<times> 'v) list \<Rightarrow> ('k \<times> 'v) list" where
  "al_del k ps = filter (\<lambda>p. fst p \<noteq> k) ps"

lemma map_of_al_put [simp]: "map_of (al_put k v ps) = (map_of ps)(k \<mapsto> v)"
  by (induction ps) auto

lemma map_of_al_del [simp]: "map_of (al_del k ps) = (map_of ps)(k := None)"
proof (induction ps)
  case (Cons p ps)
  then show ?case by (cases p) (auto simp: al_del_def fun_eq_iff)
qed (simp add: al_del_def)

lemma fst_set_al_put [simp]: "fst ` set (al_put k v ps) = insert k (fst ` set ps)"
  by (induction ps) auto

lemma distinct_al_put [simp]: "distinct (map fst ps) \<Longrightarrow> distinct (map fst (al_put k v ps))"
  by (induction ps) (auto simp: image_iff)

lemma distinct_al_del [simp]: "distinct (map fst ps) \<Longrightarrow> distinct (map fst (al_del k ps))"
  by (induction ps) (auto simp: al_del_def image_iff)

lemma set_al_put_distinct:
  assumes "distinct (map fst ps)"
  shows "set (al_put k v ps) = insert (k, v) {p \<in> set ps. fst p \<noteq> k}"
  using assms by (induction ps) (auto simp: image_iff)

lemma map_of_mem: "distinct (map fst ps) \<Longrightarrow> (k, v) \<in> set ps \<longleftrightarrow> map_of ps k = Some v"
  by auto

end
