(* ===== verification/Interleavings.thy ===== *)
theory Interleavings
  imports Main
begin

text \<open>
  The interface of the components that run as interleaved steps: a step function on a state and the run of a list of
  steps. What every step keeps, every run keeps; the components interpret the locales on their own steps.
\<close>

locale machine =
  fixes step :: "'e \<Rightarrow> 's \<Rightarrow> 's"
    and run :: "'e list \<Rightarrow> 's \<Rightarrow> 's"
  assumes run_Nil: "run [] s = s"
    and run_Cons: "run (e # es) s = run es (step e s)"
begin

lemma run_split: "run (es @ fs) s = run fs (run es s)"
  by (induction es arbitrary: s) (simp_all add: run_Nil run_Cons)

lemma run_keeps:
  assumes "\<And>e s. P s \<Longrightarrow> P (step e s)"
  shows "P s \<Longrightarrow> P (run es s)"
  by (induction es arbitrary: s) (simp_all add: run_Nil run_Cons assms)

lemma run_moves:
  assumes "\<And>s. R s s" "\<And>s t u. R s t \<Longrightarrow> R t u \<Longrightarrow> R s u" "\<And>e s. R s (step e s)"
  shows "R s (run es s)"
proof (induction es arbitrary: s)
  case Nil
  show ?case unfolding run_Nil by (rule assms(1))
next
  case (Cons e es)
  show ?case unfolding run_Cons by (rule assms(2) [OF assms(3) Cons])
qed

end

text \<open>Some steps are possible only in some states: a list of steps is allowed when each is where it happens.\<close>

locale guarded_machine = machine step run
  for step :: "'e \<Rightarrow> 's \<Rightarrow> 's" and run :: "'e list \<Rightarrow> 's \<Rightarrow> 's" +
  fixes allowed :: "'e \<Rightarrow> 's \<Rightarrow> bool"
    and all_allowed :: "'e list \<Rightarrow> 's \<Rightarrow> bool"
  assumes allowed_Cons: "all_allowed (e # es) s \<longleftrightarrow> allowed e s \<and> all_allowed es (step e s)"
begin

lemma allowed_keeps:
  assumes "\<And>e s. P s \<Longrightarrow> allowed e s \<Longrightarrow> P (step e s)"
  shows "P s \<Longrightarrow> all_allowed es s \<Longrightarrow> P (run es s)"
  by (induction es arbitrary: s) (simp_all add: run_Nil run_Cons allowed_Cons assms)

end

end
