(* ===== verification/Approval_Broker.thy ===== *)
theory Approval_Broker
  imports Cowork_Prelude Interleavings
begin

text \<open>
  The two brokers between a coding engine that asks and the user who answers:
  \<open>ApprovalBroker\<close> of \<^verbatim>\<open>src/cowork/coding/approvals.py\<close>. Requests, decisions and cancellations run on
  threads; a thread's work up to its next release of the lock, or up to the end of a call of \<open>on_open\<close>
  or \<open>on_close\<close>, is one step, so every interleaving of the threads is a list of steps.

  The callbacks are given by the service that owns the broker: a step says whether its callback succeeded.
  The description of a request (\<open>_describe\<close>) only feeds the card, and \<open>command_rule\<close> is given by its result:
  the fingerprint it would remember, and whether the session's remembered fingerprints match.
\<close>

section \<open>State\<close>

datatype approval_decision = Approve_Once | Approve_Session | Deny

record approval_waiter =
  aw_session :: string
  aw_grant :: "string option"
  aw_decision :: "approval_decision option"
  aw_closed :: bool
  aw_event :: bool

text \<open>A thread inside a call: in \<open>on_open\<close>, blocked on the event, in \<open>on_close\<close> of \<open>request\<close>, in \<open>on_close\<close> of
  \<open>resolve\<close>, and in the loop of \<open>cancel_session\<close> over the waiters it closed.\<close>

datatype approval_thread =
    Opening string
  | Blocked string
  | Closing string approval_decision
  | Persisting string approval_decision
  | Releasing "string list"

text \<open>\<open>ab_waiting\<close> are the keys of \<open>_waiters\<close>; a waiter taken out of it lives on in the threads that hold it.
  \<open>ab_recorded\<close> are the successful calls of \<open>on_close\<close>, \<open>ab_answers\<close> the decisions given to the engine and
  \<open>ab_remembered\<close> the requests accepted by a remembered rule.\<close>

record approval_broker =
  ab_waiters :: "(string \<times> approval_waiter) list"
  ab_waiting :: "string list"
  ab_threads :: "(nat \<times> approval_thread) list"
  ab_recorded :: "(string \<times> approval_decision \<times> string option) list"
  ab_answers :: "(string \<times> bool) list"
  ab_remembered :: "string list"

definition empty_broker :: approval_broker where
  "empty_broker = \<lparr>ab_waiters = [], ab_waiting = [], ab_threads = [], ab_recorded = [], ab_answers = [],
     ab_remembered = []\<rparr>"

section \<open>Steps\<close>

definition accepting :: "approval_decision \<Rightarrow> bool" where
  "accepting d \<longleftrightarrow> d \<in> {Approve_Once, Approve_Session}"

definition set_waiter :: "string \<Rightarrow> approval_waiter \<Rightarrow> approval_broker \<Rightarrow> approval_broker" where
  "set_waiter p w b = b\<lparr>ab_waiters := al_put p w (ab_waiters b)\<rparr>"

definition set_thread :: "nat \<Rightarrow> approval_thread option \<Rightarrow> approval_broker \<Rightarrow> approval_broker" where
  "set_thread i th b = b\<lparr>ab_threads := (case th of None \<Rightarrow> al_del i (ab_threads b)
     | Some x \<Rightarrow> al_put i x (ab_threads b))\<rparr>"

definition answer :: "string \<Rightarrow> bool \<Rightarrow> approval_broker \<Rightarrow> approval_broker" where
  "answer p yes b = b\<lparr>ab_answers := ab_answers b @ [(p, yes)]\<rparr>"

definition record_close :: "string \<Rightarrow> approval_decision \<Rightarrow> string option \<Rightarrow> approval_broker \<Rightarrow> approval_broker" where
  "record_close p d g b = b\<lparr>ab_recorded := ab_recorded b @ [(p, d, g)]\<rparr>"

text \<open>Is a card of the session open?\<close>

definition open_for :: "string \<Rightarrow> approval_broker \<Rightarrow> bool" where
  "open_for sid b = list_ex (\<lambda>p. case map_of (ab_waiters b) p of None \<Rightarrow> False
     | Some w \<Rightarrow> aw_session w = sid \<and> \<not> aw_closed w) (ab_waiting b)"

text \<open>\<open>request\<close> up to \<open>on_open\<close>.\<close>

definition approval_request ::
  "nat \<Rightarrow> string \<Rightarrow> string \<Rightarrow> bool \<Rightarrow> string option \<Rightarrow> bool \<Rightarrow> approval_broker \<Rightarrow> approval_broker" where
  "approval_request i sid p read_only rule matched b =
     (if read_only then answer p False b
      else if open_for sid b then answer p False b
      else if rule \<noteq> None \<and> matched then answer p True (b\<lparr>ab_remembered := ab_remembered b @ [p]\<rparr>)
      else set_thread i (Some (Opening p))
        ((set_waiter p \<lparr>aw_session = sid, aw_grant = rule, aw_decision = None, aw_closed = False, aw_event = False\<rparr> b)
           \<lparr>ab_waiting := ab_waiting b @ [p]\<rparr>))"

definition remove_waiting :: "string \<Rightarrow> approval_broker \<Rightarrow> approval_broker" where
  "remove_waiting p b = b\<lparr>ab_waiting := filter (\<lambda>q. q \<noteq> p) (ab_waiting b)\<rparr>"

definition approval_opened :: "nat \<Rightarrow> string \<Rightarrow> bool \<Rightarrow> approval_broker \<Rightarrow> approval_broker" where
  "approval_opened i p ok b =
     (if ok then set_thread i (Some (Blocked p)) b else set_thread i None (remove_waiting p b))"

text \<open>\<open>request\<close> after the wait: the event was set, or the hour is over.\<close>

definition approval_wake :: "nat \<Rightarrow> string \<Rightarrow> approval_waiter \<Rightarrow> approval_broker \<Rightarrow> approval_broker" where
  "approval_wake i p w b =
     (let d = (case aw_decision w of None \<Rightarrow> Deny | Some d \<Rightarrow> d);
          b' = set_waiter p (w\<lparr>aw_closed := True\<rparr>) (remove_waiting p b)
      in if \<not> aw_closed w then set_thread i (Some (Closing p d)) b'
         else answer p (accepting d) (set_thread i None b'))"

definition approval_closed :: "nat \<Rightarrow> string \<Rightarrow> approval_decision \<Rightarrow> bool \<Rightarrow> approval_broker \<Rightarrow> approval_broker" where
  "approval_closed i p d ok b =
     (if ok then answer p (accepting d) (record_close p d None (set_thread i None b))
      else set_thread i None b)"

definition approval_resolve ::
  "nat \<Rightarrow> string \<Rightarrow> string \<Rightarrow> approval_decision \<Rightarrow> approval_broker \<Rightarrow> error + approval_broker" where
  "approval_resolve j sid p d b =
     (case if p \<in> set (ab_waiting b) then map_of (ab_waiters b) p else None of
        None \<Rightarrow> Inl (KeyError ''approval is no longer pending'')
      | Some w \<Rightarrow> if aw_session w \<noteq> sid \<or> aw_closed w then Inl (KeyError ''approval is no longer pending'')
          else Inr (set_thread j (Some (Persisting p d))
                 (set_waiter p (w\<lparr>aw_decision := Some d, aw_closed := True\<rparr>) b)))"

definition approval_persisted ::
  "nat \<Rightarrow> string \<Rightarrow> approval_decision \<Rightarrow> approval_waiter \<Rightarrow> bool \<Rightarrow> approval_broker \<Rightarrow> approval_broker" where
  "approval_persisted j p d w ok b =
     (if ok then set_waiter p (w\<lparr>aw_event := True\<rparr>)
        (record_close p d (if d = Approve_Session then aw_grant w else None) (set_thread j None b))
      else set_waiter p (w\<lparr>aw_decision := Some Deny, aw_event := True\<rparr>) (set_thread j None b))"

text \<open>\<open>cancel_session\<close>: close every open waiter of the session under the lock, then release each.\<close>

definition cancel_waiter :: "string \<Rightarrow> string \<Rightarrow> approval_broker \<Rightarrow> approval_broker" where
  "cancel_waiter sid p b = (case map_of (ab_waiters b) p of None \<Rightarrow> b
     | Some w \<Rightarrow> if aw_session w = sid \<and> \<not> aw_closed w
         then set_waiter p (w\<lparr>aw_decision := Some Deny, aw_closed := True\<rparr>) b else b)"

definition open_ids :: "string \<Rightarrow> approval_broker \<Rightarrow> string list" where
  "open_ids sid b = filter (\<lambda>p. case map_of (ab_waiters b) p of None \<Rightarrow> False
     | Some w \<Rightarrow> aw_session w = sid \<and> \<not> aw_closed w) (ab_waiting b)"

definition approval_cancel :: "nat \<Rightarrow> string \<Rightarrow> approval_broker \<Rightarrow> approval_broker" where
  "approval_cancel k sid b =
     set_thread k (Some (Releasing (open_ids sid b))) (fold (cancel_waiter sid) (open_ids sid b) b)"

definition approval_released :: "nat \<Rightarrow> string list \<Rightarrow> bool \<Rightarrow> approval_broker \<Rightarrow> approval_broker" where
  "approval_released k ps ok b = (case ps of [] \<Rightarrow> set_thread k None b
     | p # rest \<Rightarrow> (case map_of (ab_waiters b) p of None \<Rightarrow> b
         | Some w \<Rightarrow> set_thread k (Some (Releasing rest)) (set_waiter p (w\<lparr>aw_event := True\<rparr>)
             (if ok then record_close p Deny None b else b))))"

datatype approval_event =
    Request nat string string bool "string option" bool
  | Opened nat bool
  | Wake nat
  | Timeout nat
  | Closed nat bool
  | Resolve nat string string approval_decision
  | Persisted nat bool
  | Cancel_Session nat string
  | Released nat bool

text \<open>A step of a thread that is not at that point of its call does nothing.\<close>

fun approval_step :: "approval_event \<Rightarrow> approval_broker \<Rightarrow> approval_broker" where
  "approval_step (Request i sid p read_only rule matched) b = approval_request i sid p read_only rule matched b"
| "approval_step (Opened i ok) b = (case map_of (ab_threads b) i of
     Some (Opening p) \<Rightarrow> approval_opened i p ok b | _ \<Rightarrow> b)"
| "approval_step (Wake i) b = (case map_of (ab_threads b) i of
     Some (Blocked p) \<Rightarrow> (case map_of (ab_waiters b) p of None \<Rightarrow> b
       | Some w \<Rightarrow> if aw_event w then approval_wake i p w b else b)
   | _ \<Rightarrow> b)"
| "approval_step (Timeout i) b = (case map_of (ab_threads b) i of
     Some (Blocked p) \<Rightarrow> (case map_of (ab_waiters b) p of None \<Rightarrow> b | Some w \<Rightarrow> approval_wake i p w b)
   | _ \<Rightarrow> b)"
| "approval_step (Closed i ok) b = (case map_of (ab_threads b) i of
     Some (Closing p d) \<Rightarrow> approval_closed i p d ok b | _ \<Rightarrow> b)"
| "approval_step (Resolve j sid p d) b = (case approval_resolve j sid p d b of Inl _ \<Rightarrow> b | Inr b' \<Rightarrow> b')"
| "approval_step (Persisted j ok) b = (case map_of (ab_threads b) j of
     Some (Persisting p d) \<Rightarrow> (case map_of (ab_waiters b) p of None \<Rightarrow> b
       | Some w \<Rightarrow> approval_persisted j p d w ok b)
   | _ \<Rightarrow> b)"
| "approval_step (Cancel_Session k sid) b = approval_cancel k sid b"
| "approval_step (Released k ok) b = (case map_of (ab_threads b) k of
     Some (Releasing ps) \<Rightarrow> approval_released k ps ok b | _ \<Rightarrow> b)"

fun approval_run :: "approval_event list \<Rightarrow> approval_broker \<Rightarrow> approval_broker" where
  "approval_run [] b = b"
| "approval_run (e # es) b = approval_run es (approval_step e b)"

text \<open>A call has its own thread and a request its own fresh id.\<close>

fun approval_fresh :: "approval_event \<Rightarrow> approval_broker \<Rightarrow> bool" where
  "approval_fresh (Request i sid p read_only rule matched) b \<longleftrightarrow>
     map_of (ab_threads b) i = None \<and> map_of (ab_waiters b) p = None \<and> p \<notin> fst ` set (ab_answers b)"
| "approval_fresh (Resolve j sid p d) b \<longleftrightarrow> map_of (ab_threads b) j = None"
| "approval_fresh (Cancel_Session k sid) b \<longleftrightarrow> map_of (ab_threads b) k = None"
| "approval_fresh _ b \<longleftrightarrow> True"

text \<open>The hour does not end while a decision is being recorded.\<close>

fun timely :: "approval_event \<Rightarrow> approval_broker \<Rightarrow> bool" where
  "timely (Timeout i) b \<longleftrightarrow> (case map_of (ab_threads b) i of
     Some (Blocked p) \<Rightarrow> (case map_of (ab_waiters b) p of None \<Rightarrow> True | Some w \<Rightarrow> aw_closed w \<longrightarrow> aw_event w)
   | _ \<Rightarrow> True)"
| "timely _ b \<longleftrightarrow> True"

fun approval_events_ok :: "approval_event list \<Rightarrow> approval_broker \<Rightarrow> bool" where
  "approval_events_ok [] b = True"
| "approval_events_ok (e # es) b = (approval_fresh e b \<and> approval_events_ok es (approval_step e b))"

fun all_timely :: "approval_event list \<Rightarrow> approval_broker \<Rightarrow> bool" where
  "all_timely [] b = True"
| "all_timely (e # es) b = (timely e b \<and> all_timely es (approval_step e b))"

section \<open>Invariants\<close>

fun thread_ok :: "(string \<rightharpoonup> approval_waiter) \<Rightarrow> approval_thread \<Rightarrow> bool" where
  "thread_ok v (Closing p d) \<longleftrightarrow> \<not> accepting d"
| "thread_ok v (Persisting p d) \<longleftrightarrow> (\<exists>w. v p = Some w \<and> aw_closed w \<and> aw_decision w \<in> {Some d, Some Deny})"
| "thread_ok v (Releasing ps) \<longleftrightarrow> (\<forall>p \<in> set ps. \<exists>w. v p = Some w \<and> aw_closed w \<and> aw_decision w = Some Deny)"
| "thread_ok v _ \<longleftrightarrow> True"

definition waiter_ok :: "(string \<times> approval_decision \<times> string option) set \<Rightarrow> string \<Rightarrow> approval_waiter \<Rightarrow> bool" where
  "waiter_ok rec p w \<longleftrightarrow> (\<not> aw_closed w \<longrightarrow> aw_decision w = None \<and> \<not> aw_event w) \<and>
     (\<forall>d. aw_event w \<longrightarrow> aw_decision w = Some d \<longrightarrow> accepting d \<longrightarrow> (\<exists>g. (p, d, g) \<in> rec))"

definition approved :: "string \<Rightarrow> approval_broker \<Rightarrow> bool" where
  "approved p b \<longleftrightarrow> p \<in> set (ab_remembered b) \<or> (\<exists>d g. accepting d \<and> (p, d, g) \<in> set (ab_recorded b))"

definition approval_inv :: "approval_broker \<Rightarrow> bool" where
  "approval_inv b \<longleftrightarrow>
     (\<forall>p w. map_of (ab_waiters b) p = Some w \<longrightarrow> waiter_ok (set (ab_recorded b)) p w) \<and>
     (\<forall>i th. map_of (ab_threads b) i = Some th \<longrightarrow> thread_ok (map_of (ab_waiters b)) th) \<and>
     (\<forall>p. (p, True) \<in> set (ab_answers b) \<longrightarrow> approved p b)"

text \<open>At most one card of a session is open.\<close>

definition one_card :: "approval_broker \<Rightarrow> bool" where
  "one_card b \<longleftrightarrow> (\<forall>p \<in> set (ab_waiting b). \<forall>q \<in> set (ab_waiting b). \<forall>v w.
     map_of (ab_waiters b) p = Some v \<longrightarrow> map_of (ab_waiters b) q = Some w \<longrightarrow>
     \<not> aw_closed v \<longrightarrow> \<not> aw_closed w \<longrightarrow> aw_session v = aw_session w \<longrightarrow> p = q)"

lemmas broker_defs = set_waiter_def set_thread_def answer_def record_close_def remove_waiting_def

text \<open>What a change of one waiter does to the other threads.\<close>

lemma thread_ok_put:
  assumes "thread_ok v th" and "\<And>w'. v p = Some w' \<Longrightarrow> aw_closed w' \<Longrightarrow>
      aw_closed w \<and> (aw_decision w = aw_decision w' \<or> aw_decision w = Some Deny)"
  shows "thread_ok (v(p \<mapsto> w)) th"
proof (cases th)
  case (Persisting q d)
  then show ?thesis using assms by (cases "q = p") fastforce+
next
  case (Releasing ps)
  have "\<exists>u. (v(p \<mapsto> w)) q = Some u \<and> aw_closed u \<and> aw_decision u = Some Deny" if q: "q \<in> set ps" for q
  proof (cases "q = p")
    case True
    obtain u where "v q = Some u" "aw_closed u" "aw_decision u = Some Deny" using assms(1) Releasing q by auto
    then show ?thesis using assms(2) [of u] True by auto
  next
    case False
    then show ?thesis using assms(1) Releasing q by auto
  qed
  then show ?thesis using Releasing by simp
qed (use assms in simp_all)

lemma waiter_ok_mono: "waiter_ok R p w \<Longrightarrow> R \<subseteq> S \<Longrightarrow> waiter_ok S p w"
  unfolding waiter_ok_def by blast

lemma approved_mono:
  "approved p b \<Longrightarrow> set (ab_remembered b) \<subseteq> set (ab_remembered c) \<Longrightarrow> set (ab_recorded b) \<subseteq> set (ab_recorded c) \<Longrightarrow>
   approved p c"
  unfolding approved_def by blast

lemma inv_set_thread:
  assumes "approval_inv b" and "\<And>x. th = Some x \<Longrightarrow> thread_ok (map_of (ab_waiters b)) x"
  shows "approval_inv (set_thread i th b)"
  using assms by (cases th) (auto simp: approval_inv_def set_thread_def approved_def split: if_splits)

lemma inv_answer:
  assumes "approval_inv b" and "yes \<Longrightarrow> approved p b"
  shows "approval_inv (answer p yes b)"
  using assms by (auto simp: approval_inv_def answer_def approved_def)

lemma inv_record:
  assumes "approval_inv b"
  shows "approval_inv (record_close p d g b)"
proof -
  have "waiter_ok (set (ab_recorded (record_close p d g b))) q w" if "waiter_ok (set (ab_recorded b)) q w" for q w
    by (rule waiter_ok_mono [OF that]) (auto simp: record_close_def)
  moreover have "approved q (record_close p d g b)" if "approved q b" for q
    by (rule approved_mono [OF that]) (auto simp: record_close_def)
  ultimately show ?thesis using assms by (auto simp: approval_inv_def record_close_def)
qed

lemma inv_remove: "approval_inv b \<Longrightarrow> approval_inv (remove_waiting p b)"
  by (simp add: approval_inv_def remove_waiting_def approved_def)

lemma inv_thread: "approval_inv b \<Longrightarrow> map_of (ab_threads b) i = Some th \<Longrightarrow> thread_ok (map_of (ab_waiters b)) th"
  by (simp add: approval_inv_def)

lemma inv_set_waiter:
  assumes "approval_inv b" "waiter_ok (set (ab_recorded b)) p w"
    and "\<And>w'. map_of (ab_waiters b) p = Some w' \<Longrightarrow> aw_closed w' \<Longrightarrow>
      aw_closed w \<and> (aw_decision w = aw_decision w' \<or> aw_decision w = Some Deny)"
  shows "approval_inv (set_waiter p w b)"
proof -
  have "thread_ok ((map_of (ab_waiters b))(p \<mapsto> w)) th" if "map_of (ab_threads b) i = Some th" for i th
    using thread_ok_put [OF inv_thread [OF assms(1) that]] assms(3) by blast
  then show ?thesis using assms(1,2) by (auto simp: approval_inv_def set_waiter_def approved_def)
qed

lemma inv_waiter: "approval_inv b \<Longrightarrow> map_of (ab_waiters b) p = Some w \<Longrightarrow> waiter_ok (set (ab_recorded b)) p w"
  by (simp add: approval_inv_def)

lemma broker_fields [simp]:
  "ab_waiters (set_thread i th b) = ab_waiters b" "ab_waiters (answer p y b) = ab_waiters b"
  "ab_waiters (record_close p d g b) = ab_waiters b" "ab_waiters (remove_waiting p b) = ab_waiters b"
  "ab_waiters (set_waiter p w b) = al_put p w (ab_waiters b)"
  "ab_recorded (set_thread i th b) = ab_recorded b" "ab_recorded (answer p y b) = ab_recorded b"
  "ab_recorded (remove_waiting p b) = ab_recorded b" "ab_recorded (set_waiter p w b) = ab_recorded b"
  "ab_recorded (record_close p d g b) = ab_recorded b @ [(p, d, g)]"
  "ab_remembered (set_thread i th b) = ab_remembered b" "ab_remembered (set_waiter p w b) = ab_remembered b"
  "ab_remembered (remove_waiting p b) = ab_remembered b" "ab_remembered (record_close p d g b) = ab_remembered b"
  "ab_waiting (set_thread i th b) = ab_waiting b" "ab_waiting (answer p y b) = ab_waiting b"
  "ab_waiting (record_close p d g b) = ab_waiting b" "ab_waiting (set_waiter p w b) = ab_waiting b"
  "ab_waiting (remove_waiting p b) = filter (\<lambda>q. q \<noteq> p) (ab_waiting b)"
  by (simp_all add: broker_defs)

lemma accepting_simps [simp]: "\<not> accepting Deny" "accepting Approve_Once" "accepting Approve_Session"
  by (simp_all add: accepting_def)

lemma inv_request:
  assumes "approval_inv b" "map_of (ab_waiters b) p = None"
  shows "approval_inv (approval_request i sid p ro rule m b)"
proof -
  let ?w = "\<lparr>aw_session = sid, aw_grant = rule, aw_decision = None, aw_closed = False, aw_event = False\<rparr>"
  have 1: "approval_inv (answer p False b)" by (rule inv_answer [OF assms(1)]) simp
  have "approval_inv (b\<lparr>ab_remembered := ab_remembered b @ [p]\<rparr>)"
    using assms(1) by (auto simp: approval_inv_def approved_def)
  then have 2: "approval_inv (answer p True (b\<lparr>ab_remembered := ab_remembered b @ [p]\<rparr>))"
    by (rule inv_answer) (simp add: approved_def)
  have "approval_inv (set_waiter p ?w b)"
    by (rule inv_set_waiter [OF assms(1)]) (simp_all add: waiter_ok_def assms(2))
  then have "approval_inv ((set_waiter p ?w b)\<lparr>ab_waiting := ab_waiting b @ [p]\<rparr>)"
    by (simp add: approval_inv_def approved_def)
  then have "approval_inv (set_thread i (Some (Opening p)) ((set_waiter p ?w b)\<lparr>ab_waiting := ab_waiting b @ [p]\<rparr>))"
    by (rule inv_set_thread) simp
  then show ?thesis using 1 2 by (simp add: approval_request_def)
qed

lemma inv_wake:
  assumes inv: "approval_inv b" and w: "map_of (ab_waiters b) p = Some w" and late: "aw_closed w \<Longrightarrow> aw_event w"
  shows "approval_inv (approval_wake i p w b)"
proof -
  let ?w = "w\<lparr>aw_closed := True\<rparr>"
  let ?d = "case aw_decision w of None \<Rightarrow> Deny | Some d \<Rightarrow> d"
  let ?b = "set_waiter p ?w (remove_waiting p b)"
  have ok: "waiter_ok (set (ab_recorded b)) p w" by (rule inv_waiter [OF inv w])
  have b: "approval_inv ?b"
    by (rule inv_set_waiter [OF inv_remove [OF inv]]) (use ok w in \<open>auto simp: waiter_ok_def\<close>)
  have open_: "approval_inv (set_thread i (Some (Closing p ?d)) ?b)" if "\<not> aw_closed w"
    by (rule inv_set_thread [OF b]) (use ok that in \<open>auto simp: waiter_ok_def\<close>)
  have "approved p ?b" if c: "aw_closed w" "accepting ?d"
  proof -
    obtain d where d: "aw_decision w = Some d" "accepting d" using c(2) by (cases "aw_decision w") auto
    obtain g where "(p, d, g) \<in> set (ab_recorded b)"
      using ok d late [OF c(1)] by (auto simp: waiter_ok_def)
    then show ?thesis using d(2) by (auto simp: approved_def)
  qed
  then have closed: "approval_inv (answer p (accepting ?d) (set_thread i None ?b))" if "aw_closed w"
    using that by (auto intro!: inv_answer inv_set_thread [OF b] simp: approved_def)
  show ?thesis using open_ closed by (simp add: approval_wake_def Let_def)
qed

lemma inv_resolve:
  assumes inv: "approval_inv b" and r: "approval_resolve j sid p d b = Inr c"
  shows "approval_inv c"
proof -
  obtain w where w: "map_of (ab_waiters b) p = Some w" "\<not> aw_closed w"
      "c = set_thread j (Some (Persisting p d)) (set_waiter p (w\<lparr>aw_decision := Some d, aw_closed := True\<rparr>) b)"
    using r by (auto simp: approval_resolve_def split: option.splits if_splits)
  have ok: "waiter_ok (set (ab_recorded b)) p w" by (rule inv_waiter [OF inv w(1)])
  have "approval_inv (set_waiter p (w\<lparr>aw_decision := Some d, aw_closed := True\<rparr>) b)"
    by (rule inv_set_waiter [OF inv]) (use ok w in \<open>auto simp: waiter_ok_def\<close>)
  then show ?thesis unfolding w(3) by (rule inv_set_thread) auto
qed

lemma inv_persisted:
  assumes inv: "approval_inv b" and th: "map_of (ab_threads b) j = Some (Persisting p d)"
    and w: "map_of (ab_waiters b) p = Some w"
  shows "approval_inv (approval_persisted j p d w ok b)"
proof -
  have c: "aw_closed w" "aw_decision w \<in> {Some d, Some Deny}" using inv_thread [OF inv th] w by auto
  have wok: "waiter_ok (set (ab_recorded b)) p w" by (rule inv_waiter [OF inv w])
  have b: "approval_inv (set_thread j None b)" by (rule inv_set_thread [OF inv]) simp
  let ?b = "record_close p d (if d = Approve_Session then aw_grant w else None) (set_thread j None b)"
  have 1: "approval_inv (set_waiter p (w\<lparr>aw_event := True\<rparr>) ?b)"
    by (rule inv_set_waiter [OF inv_record [OF b]]) (use wok c w in \<open>auto simp: waiter_ok_def\<close>)
  have 2: "approval_inv (set_waiter p (w\<lparr>aw_decision := Some Deny, aw_event := True\<rparr>) (set_thread j None b))"
    by (rule inv_set_waiter [OF b]) (use wok c w in \<open>auto simp: waiter_ok_def\<close>)
  show ?thesis using 1 2 by (simp add: approval_persisted_def)
qed

definition cancelled :: "string \<Rightarrow> approval_waiter \<Rightarrow> approval_waiter" where
  "cancelled sid w = (if aw_session w = sid \<and> \<not> aw_closed w then w\<lparr>aw_decision := Some Deny, aw_closed := True\<rparr> else w)"

lemma cancel_waiter_view:
  "map_of (ab_waiters (cancel_waiter sid p b)) q =
     (if q = p then map_option (cancelled sid) (map_of (ab_waiters b) p) else map_of (ab_waiters b) q)"
  by (auto simp: cancel_waiter_def cancelled_def split: option.splits)

lemma cancelled_idem [simp]: "cancelled sid (cancelled sid w) = cancelled sid w"
  by (simp add: cancelled_def)

lemma cancel_fold_view:
  "map_of (ab_waiters (fold (cancel_waiter sid) ps b)) q =
     (if q \<in> set ps then map_option (cancelled sid) (map_of (ab_waiters b) q) else map_of (ab_waiters b) q)"
  by (induction ps arbitrary: b) (auto simp: cancel_waiter_view option.map_comp comp_def)

lemma cancel_waiter_fields [simp]:
  "ab_waiting (cancel_waiter sid p b) = ab_waiting b" "ab_threads (cancel_waiter sid p b) = ab_threads b"
  "ab_recorded (cancel_waiter sid p b) = ab_recorded b"
  by (auto simp: cancel_waiter_def set_waiter_def split: option.splits)

lemma cancel_fold_fields [simp]:
  "ab_waiting (fold (cancel_waiter sid) ps b) = ab_waiting b" "ab_recorded (fold (cancel_waiter sid) ps b) = ab_recorded b"
  by (induction ps arbitrary: b) simp_all

lemma inv_cancel_waiter:
  assumes inv: "approval_inv b"
  shows "approval_inv (cancel_waiter sid p b)"
proof (cases "map_of (ab_waiters b) p")
  case None
  then show ?thesis using inv by (simp add: cancel_waiter_def)
next
  case (Some w)
  have "approval_inv (set_waiter p (w\<lparr>aw_decision := Some Deny, aw_closed := True\<rparr>) b)"
    by (rule inv_set_waiter [OF inv]) (auto simp: waiter_ok_def)
  then show ?thesis using inv Some by (simp add: cancel_waiter_def)
qed

lemma inv_cancel:
  assumes inv: "approval_inv b"
  shows "approval_inv (approval_cancel k sid b)"
proof -
  have "approval_inv (fold (cancel_waiter sid) ps b)" for ps
    using inv by (induction ps arbitrary: b) (simp_all add: inv_cancel_waiter)
  moreover have "thread_ok (map_of (ab_waiters (fold (cancel_waiter sid) (open_ids sid b) b))) (Releasing (open_ids sid b))"
    by (auto simp: cancel_fold_view open_ids_def cancelled_def split: option.splits)
  ultimately show ?thesis unfolding approval_cancel_def by (intro inv_set_thread) auto
qed

lemma inv_released:
  assumes inv: "approval_inv b" and th: "map_of (ab_threads b) k = Some (Releasing ps)"
  shows "approval_inv (approval_released k ps ok b)"
proof (cases ps)
  case Nil
  then show ?thesis using inv_set_thread [OF inv, of None] by (simp add: approval_released_def)
next
  case (Cons p rest)
  have all: "\<forall>q \<in> set ps. \<exists>w. map_of (ab_waiters b) q = Some w \<and> aw_closed w \<and> aw_decision w = Some Deny"
    using inv_thread [OF inv th] by simp
  then obtain w where w: "map_of (ab_waiters b) p = Some w" "aw_closed w" "aw_decision w = Some Deny" using Cons by auto
  let ?b = "if ok then record_close p Deny None b else b"
  let ?c = "set_waiter p (w\<lparr>aw_event := True\<rparr>) ?b"
  have b: "approval_inv ?b" using inv inv_record [OF inv] by simp
  have c: "approval_inv ?c" by (rule inv_set_waiter [OF b]) (use w in \<open>auto simp: waiter_ok_def\<close>)
  have "thread_ok (map_of (ab_waiters ?c)) (Releasing rest)" using all w Cons by auto
  then have "approval_inv (set_thread k (Some (Releasing rest)) ?c)"
    using inv_set_thread [OF c, of "Some (Releasing rest)" k] by (metis option.inject)
  then show ?thesis using Cons w(1) by (simp add: approval_released_def)
qed

lemma inv_closed:
  assumes inv: "approval_inv b" and th: "map_of (ab_threads b) i = Some (Closing p d)"
  shows "approval_inv (approval_closed i p d ok b)"
proof -
  have b: "approval_inv (set_thread i None b)" by (rule inv_set_thread [OF inv]) simp
  have "\<not> accepting d" using inv_thread [OF inv th] by simp
  then have "approval_inv (answer p (accepting d) (record_close p d None (set_thread i None b)))"
    by (intro inv_answer inv_record b) simp
  then show ?thesis using b by (simp add: approval_closed_def)
qed

lemma inv_opened: "approval_inv b \<Longrightarrow> approval_inv (approval_opened i p ok b)"
  by (auto simp: approval_opened_def intro!: inv_set_thread inv_remove)

lemma approval_step_inv:
  assumes inv: "approval_inv b" and f: "approval_fresh e b" "timely e b"
  shows "approval_inv (approval_step e b)"
proof (cases e)
  case (Request i sid p ro rule m)
  then show ?thesis using inv_request [OF inv] f by simp
next
  case (Wake i)
  then show ?thesis using inv inv_wake [OF inv]
    by (auto split: option.splits approval_thread.splits)
next
  case (Timeout i)
  then show ?thesis using inv f(2) inv_wake [OF inv]
    by (auto split: option.splits approval_thread.splits)
next
  case (Resolve j sid p d)
  then show ?thesis using inv inv_resolve [OF inv] by (auto split: sum.splits)
next
  case (Persisted j ok)
  then show ?thesis using inv inv_persisted [OF inv] by (auto split: option.splits approval_thread.splits)
next
  case (Released k ok)
  then show ?thesis using inv inv_released [OF inv] by (auto split: option.splits approval_thread.splits)
next
  case (Closed i ok)
  then show ?thesis using inv inv_closed [OF inv] by (auto split: option.splits approval_thread.splits)
next
  case (Opened i ok)
  then show ?thesis using inv inv_opened [OF inv] by (auto split: option.splits approval_thread.splits)
next
  case (Cancel_Session k sid)
  then show ?thesis using inv_cancel [OF inv] by simp
qed

interpretation approvals: guarded_machine approval_step approval_run approval_fresh approval_events_ok
  by unfold_locales simp_all

interpretation timely_approvals: guarded_machine approval_step approval_run
  "\<lambda>e b. approval_fresh e b \<and> timely e b" "\<lambda>es b. approval_events_ok es b \<and> all_timely es b"
  by unfold_locales auto

lemma approval_run_inv:
  "approval_inv b \<Longrightarrow> approval_events_ok es b \<Longrightarrow> all_timely es b \<Longrightarrow> approval_inv (approval_run es b)"
  using timely_approvals.allowed_keeps [where P = approval_inv] approval_step_inv by blast

lemma approval_inv_empty: "approval_inv empty_broker"
  by (simp add: approval_inv_def empty_broker_def)

section \<open>One card per session\<close>

definition shown :: "approval_broker \<Rightarrow> string \<Rightarrow> string option" where
  "shown b p = (if p \<in> set (ab_waiting b) then (case map_of (ab_waiters b) p of None \<Rightarrow> None
     | Some w \<Rightarrow> if aw_closed w then None else Some (aw_session w)) else None)"

lemma one_card_alt: "one_card b \<longleftrightarrow> (\<forall>p q sid. shown b p = Some sid \<longrightarrow> shown b q = Some sid \<longrightarrow> p = q)"
  unfolding one_card_def shown_def by (auto split: option.splits if_splits)

lemma one_card_mono: "one_card b \<Longrightarrow> (\<And>p sid. shown c p = Some sid \<Longrightarrow> shown b p = Some sid) \<Longrightarrow> one_card c"
  unfolding one_card_alt by blast

lemma shown_step:
  assumes "shown (approval_step e b) p = Some sid" and "\<And>i s q ro rule m. e \<noteq> Request i s q ro rule m"
  shows "shown b p = Some sid"
proof (cases e)
  case (Cancel_Session k s)
  then show ?thesis using assms(1)
    by (auto simp: approval_cancel_def shown_def cancel_fold_view cancelled_def split: if_splits option.splits)
next
  case (Released k ok)
  then show ?thesis using assms(1)
    by (auto simp: approval_released_def shown_def split: if_splits option.splits approval_thread.splits list.splits)
qed (use assms in \<open>auto simp: shown_def approval_opened_def approval_wake_def Let_def approval_closed_def
    approval_resolve_def approval_persisted_def split: if_splits option.splits approval_thread.splits sum.splits\<close>)

lemma shown_request:
  assumes "map_of (ab_waiters b) p = None"
  shows "shown (approval_request i sid p ro rule m b) q = Some s \<Longrightarrow>
    shown b q = Some s \<or> (q = p \<and> s = sid \<and> \<not> open_for sid b)"
  by (auto simp: approval_request_def shown_def split: if_splits option.splits)

lemma not_open_for: "\<not> open_for sid b \<Longrightarrow> shown b q \<noteq> Some sid"
  by (auto simp: open_for_def shown_def list_ex_iff split: if_splits option.splits)

lemma one_card_step:
  assumes "one_card b" "approval_fresh e b"
  shows "one_card (approval_step e b)"
proof (cases "\<exists>i s q ro rule m. e = Request i s q ro rule m")
  case True
  then obtain i s q ro rule m where e: "e = Request i s q ro rule m" by blast
  then have new: "map_of (ab_waiters b) q = None" using assms(2) by simp
  show ?thesis unfolding one_card_alt
    using shown_request [OF new, of i s ro rule m] assms(1) not_open_for [of s b] e
    unfolding one_card_alt by (metis approval_step.simps(1))
next
  case False
  then show ?thesis using one_card_mono [OF assms(1)] shown_step by blast
qed

lemma one_card_run: "one_card b \<Longrightarrow> approval_events_ok es b \<Longrightarrow> one_card (approval_run es b)"
  by (rule approvals.allowed_keeps [where P = one_card, OF one_card_step])

lemma one_card_empty: "one_card empty_broker"
  by (simp add: one_card_def empty_broker_def)

end
