(* ===== verification/Control_Models.thy ===== *)
theory Control_Models
  imports Cowork_Prelude
begin

text \<open>
  The durable records of the coding control plane, from
  \<^verbatim>\<open>src/cowork/coding/control_models.py\<close> and the parts of \<^verbatim>\<open>project_models.py\<close>,
  \<^verbatim>\<open>contracts.py\<close> and \<^verbatim>\<open>repository_setup_models.py\<close> they refer to.

  A pydantic model is a record together with the field constraints pydantic checks when a
  document is built or read back; they are the \<open>valid_\<close> predicates below. Assigning a field
  does not check anything in pydantic, so an update of a record can leave a document that no longer
  satisfies them. Field names carry a prefix naming their model, because record fields are global
  in HOL. The \<open>schema_version\<close> fields are constant and left out.
\<close>

section \<open>JSON values\<close>

text \<open>
  The values of \<open>dict[str, object]\<close> payloads. A finite float is a significand and a binary exponent.
\<close>

datatype json =
    JNull
  | JBool bool
  | JInt int
  | JFloat int int
  | JStr string
  | JList "json list"
  | JDict "(string \<times> json) list"

type_synonym payload = "(string \<times> json) list"

section \<open>Status enumerations\<close>

datatype computer_status = Online | Offline | Draining

datatype run_status =
    Queued | Preparing | Ready | Running | Awaiting_Approval
  | Completed | Cancelled | Interrupted | Failed | Recovering

datatype session_status =
    S_Ready | S_Running | S_Awaiting_Approval | S_Completed | S_Cancelled | S_Interrupted | S_Failed

datatype workspace_status = WS_Pending | WS_Preparing | WS_Ready | WS_Unavailable | WS_Released

datatype workspace_kind = Git_Worktree | Local_Copy | Direct_Folder

datatype resume_mode = Prepare | Restore | Recreate

definition TERMINAL_RUN_STATUSES :: "run_status list" where
  "TERMINAL_RUN_STATUSES = [Completed, Cancelled, Failed]"

abbreviation terminal :: "run_status \<Rightarrow> bool" where
  "terminal s \<equiv> s \<in> set TERMINAL_RUN_STATUSES"

fun run_status_value :: "run_status \<Rightarrow> string" where
  "run_status_value Queued = ''queued''"
| "run_status_value Preparing = ''preparing''"
| "run_status_value Ready = ''ready''"
| "run_status_value Running = ''running''"
| "run_status_value Awaiting_Approval = ''awaiting_approval''"
| "run_status_value Completed = ''completed''"
| "run_status_value Cancelled = ''cancelled''"
| "run_status_value Interrupted = ''interrupted''"
| "run_status_value Failed = ''failed''"
| "run_status_value Recovering = ''recovering''"

text \<open>\<open>RunStatus(value)\<close>: the member with that value, else \<open>ValueError\<close>.\<close>

definition all_run_statuses :: "run_status list" where
  "all_run_statuses = [Queued, Preparing, Ready, Running, Awaiting_Approval, Completed, Cancelled,
     Interrupted, Failed, Recovering]"

definition run_status_of :: "string \<Rightarrow> run_status result" where
  "run_status_of v =
     (case find (\<lambda>s. run_status_value s = v) all_run_statuses of
        None \<Rightarrow> Inl (ValueError (v @ '' is not a valid RunStatus''))
      | Some s \<Rightarrow> Inr s)"

lemma run_status_of_value [simp]: "run_status_of (run_status_value s) = Inr s"
  by (cases s) (simp_all add: run_status_of_def all_run_statuses_def)

section \<open>Field constraints\<close>

definition id_char :: "char \<Rightarrow> bool" where
  "id_char c \<longleftrightarrow> (let n = of_char c :: nat in
     (65 \<le> n \<and> n \<le> 90) \<or> (97 \<le> n \<and> n \<le> 122) \<or> (48 \<le> n \<and> n \<le> 57) \<or> c = CHR ''_'' \<or> c = CHR ''-'')"

text \<open>\<open>Field(min_length=1, max_length=n, pattern=r"^[A-Za-z0-9_-]+$")\<close>.\<close>

definition id_field :: "int \<Rightarrow> string \<Rightarrow> bool" where
  "id_field n s \<longleftrightarrow> s \<noteq> [] \<and> int (length s) \<le> n \<and> list_all id_char s"

definition bounded :: "int \<Rightarrow> int \<Rightarrow> 'a list \<Rightarrow> bool" where
  "bounded lo hi s \<longleftrightarrow> lo \<le> int (length s) \<and> int (length s) \<le> hi"

definition opt_bounded :: "int \<Rightarrow> int \<Rightarrow> 'a list option \<Rightarrow> bool" where
  "opt_bounded lo hi s = (case s of None \<Rightarrow> True | Some x \<Rightarrow> bounded lo hi x)"

text \<open>Python's truth value of an optional string: \<open>None\<close> and the empty string are false.\<close>

definition truthy :: "'a list option \<Rightarrow> bool" where
  "truthy s \<longleftrightarrow> s \<noteq> None \<and> s \<noteq> Some []"

lemma truthy_simps [simp]: "\<not> truthy None" "truthy (Some xs) \<longleftrightarrow> xs \<noteq> []"
  by (auto simp: truthy_def)

section \<open>Projects and their resources (project_models.py)\<close>

datatype command_phase = Phase_Setup | Phase_Validate | Phase_Run

record project_command =
  pc_id :: string
  pc_label :: string
  pc_argv :: "string list"
  pc_phase :: command_phase

record repository_resource =
  rr_id :: string
  rr_name :: string
  rr_source_url :: "string option"
  rr_provider :: string
  rr_repository :: "string option"
  rr_connector_name :: "string option"
  rr_use_connector_for_clone :: bool
  rr_local_path :: "string option"
  rr_computer_id :: "string option"
  rr_default_branch :: "string option"
  rr_clone :: bool
  rr_commands :: "project_command list"

record local_folder_resource =
  lf_id :: string
  lf_name :: string
  lf_path :: string
  lf_computer_id :: string
  lf_commands :: "project_command list"

datatype project_resource = Repository repository_resource | Local_Folder local_folder_resource

fun res_id :: "project_resource \<Rightarrow> string" where
  "res_id (Repository r) = rr_id r"
| "res_id (Local_Folder f) = lf_id f"

fun res_commands :: "project_resource \<Rightarrow> project_command list" where
  "res_commands (Repository r) = rr_commands r"
| "res_commands (Local_Folder f) = lf_commands f"

text \<open>\<open>resource.model_copy(update={"commands": cs})\<close>.\<close>

fun res_with_commands :: "project_command list \<Rightarrow> project_resource \<Rightarrow> project_resource" where
  "res_with_commands cs (Repository r) = Repository (r\<lparr>rr_commands := cs\<rparr>)"
| "res_with_commands cs (Local_Folder f) = Local_Folder (f\<lparr>lf_commands := cs\<rparr>)"

record project_folder =
  pf_id :: string
  pf_name :: string
  pf_path :: string
  pf_base_branch :: "string option"
  pf_commands :: "project_command list"

text \<open>Python's \<open>a or b\<close> on optional strings.\<close>

definition or_else :: "'a list option \<Rightarrow> 'a list \<Rightarrow> 'a list" where
  "or_else s d = (if truthy s then the s else d)"

fun resource_folder :: "project_resource \<Rightarrow> project_folder" where
  "resource_folder (Repository r) =
     \<lparr>pf_id = rr_id r, pf_name = rr_name r,
      pf_path = or_else (rr_local_path r) (or_else (rr_source_url r) (rr_name r)),
      pf_base_branch = rr_default_branch r, pf_commands = rr_commands r\<rparr>"
| "resource_folder (Local_Folder f) =
     \<lparr>pf_id = lf_id f, pf_name = lf_name f, pf_path = lf_path f, pf_base_branch = None,
      pf_commands = lf_commands f\<rparr>"

text \<open>
  A project. \<open>cp_extras\<close> holds the fields no modelled code reads (playbook, environment, default
  model, permission mode, time stamps); \<open>cp_connections\<close> are the (provider, name) pairs and
  \<open>cp_skill_sources\<close> the source ids that the validator compares.
\<close>

record code_project =
  cp_id :: string
  cp_name :: string
  cp_resources :: "project_resource list"
  cp_folders :: "project_folder list"
  cp_connections :: "(string \<times> string) list"
  cp_skill_sources :: "string list"
  cp_extras :: payload

text \<open>\<open>str.casefold\<close> on the ASCII letters.\<close>

definition fold_char :: "char \<Rightarrow> char" where
  "fold_char c = (let n = of_char c :: nat in if 65 \<le> n \<and> n \<le> 90 then char_of (n + 32) else c)"

definition casefold :: "string \<Rightarrow> string" where
  "casefold s = map fold_char s"

fun res_location :: "project_resource \<Rightarrow> string" where
  "res_location (Repository r) = casefold (or_else (rr_source_url r) (or_else (rr_local_path r) []))"
| "res_location (Local_Folder f) = casefold (lf_path f)"

text \<open>
  \<open>CodeProject.model_validate\<close> on a value whose \<open>resources\<close> are already model instances: the list
  bounds, then \<open>validate_unique_resources\<close>, which also rebuilds the \<open>folders\<close> projection.
\<close>

definition validate_project :: "code_project \<Rightarrow> code_project result" where
  "validate_project p =
     (if \<not> bounded 1 24 (cp_resources p) then Inl (ValidationError ''resources'')
      else if \<not> distinct (map res_id (cp_resources p))
      then Inl (ValidationError ''project resource ids must be unique'')
      else if \<not> distinct (map res_location (cp_resources p))
      then Inl (ValidationError ''the same folder cannot be added twice'')
      else if \<not> distinct (cp_connections p)
      then Inl (ValidationError ''the same connection cannot be added twice'')
      else if \<not> distinct (cp_skill_sources p)
      then Inl (ValidationError ''the same skill source cannot be added twice'')
      else Inr (p\<lparr>cp_folders := map resource_folder (cp_resources p)\<rparr>))"

definition valid_project :: "code_project \<Rightarrow> bool" where
  "valid_project p \<longleftrightarrow> bounded 1 24 (cp_resources p) \<and> distinct (map res_id (cp_resources p)) \<and>
     distinct (map res_location (cp_resources p)) \<and> distinct (cp_connections p) \<and>
     distinct (cp_skill_sources p) \<and> cp_folders p = map resource_folder (cp_resources p)"

lemma validate_project_Inr:
  "validate_project p = Inr q \<Longrightarrow>
     valid_project q \<and> q = p\<lparr>cp_folders := map resource_folder (cp_resources p)\<rparr>"
  by (auto simp: validate_project_def valid_project_def split: if_splits)

lemma validate_project_valid: "valid_project p \<Longrightarrow> validate_project p = Inr p"
  by (simp add: validate_project_def valid_project_def)

section \<open>Computers and credentials\<close>

record computer_capabilities =
  cap_platform :: string
  cap_architecture :: string
  cap_runtime_version :: string
  cap_protocol_versions :: "string list"
  cap_agent_engines :: "string list"
  cap_shells :: "string list"
  cap_has_git :: bool
  cap_has_terminal :: bool
  cap_supports_local_folders :: bool
  cap_task_capabilities :: "string list"
  cap_max_concurrent_runs :: int

definition valid_capabilities :: "computer_capabilities \<Rightarrow> bool" where
  "valid_capabilities c \<longleftrightarrow>
     cap_platform c \<in> {''darwin'', ''windows'', ''linux''} \<and>
     bounded 1 64 (cap_architecture c) \<and> bounded 1 64 (cap_runtime_version c) \<and>
     bounded 1 8 (cap_protocol_versions c) \<and> bounded 0 32 (cap_agent_engines c) \<and>
     bounded 0 16 (cap_shells c) \<and> bounded 0 32 (cap_task_capabilities c) \<and>
     1 \<le> cap_max_concurrent_runs c \<and> cap_max_concurrent_runs c \<le> 64"

record computer =
  comp_id :: string
  comp_name :: string
  comp_is_local :: bool
  comp_status :: computer_status
  comp_capabilities :: computer_capabilities
  comp_registration_epoch :: int
  comp_active_run_count :: int
  comp_last_seen_at :: time
  comp_created_at :: time
  comp_updated_at :: time
  comp_revoked_at :: "time option"

definition valid_computer :: "computer \<Rightarrow> bool" where
  "valid_computer c \<longleftrightarrow>
     id_field 128 (comp_id c) \<and> bounded 1 120 (comp_name c) \<and>
     valid_capabilities (comp_capabilities c) \<and>
     1 \<le> comp_registration_epoch c \<and> 0 \<le> comp_active_run_count c"

definition new_computer :: "time \<Rightarrow> string \<Rightarrow> string \<Rightarrow> bool \<Rightarrow> computer_capabilities \<Rightarrow> computer" where
  "new_computer now i name local caps =
     \<lparr>comp_id = i, comp_name = name, comp_is_local = local, comp_status = Online,
      comp_capabilities = caps, comp_registration_epoch = 1, comp_active_run_count = 0,
      comp_last_seen_at = now, comp_created_at = now, comp_updated_at = now, comp_revoked_at = None\<rparr>"

record runtime_credential =
  rc_id :: string
  rc_computer_id :: string
  rc_token_hash :: string
  rc_registration_epoch :: int
  rc_created_at :: time

definition valid_runtime_credential :: "runtime_credential \<Rightarrow> bool" where
  "valid_runtime_credential c \<longleftrightarrow> id_field 128 (rc_id c) \<and> bounded 1 128 (rc_computer_id c) \<and>
     bounded 64 64 (rc_token_hash c) \<and> 1 \<le> rc_registration_epoch c"

record registration_credential =
  reg_id :: string
  reg_token_hash :: string
  reg_expires_at :: time
  reg_consumed_at :: "time option"
  reg_created_at :: time

definition hex_char :: "char \<Rightarrow> bool" where
  "hex_char c \<longleftrightarrow> (let n = of_char c :: nat in (97 \<le> n \<and> n \<le> 102) \<or> (48 \<le> n \<and> n \<le> 57))"

definition valid_registration_credential :: "registration_credential \<Rightarrow> bool" where
  "valid_registration_credential c \<longleftrightarrow> bounded 64 64 (reg_id c) \<and> list_all hex_char (reg_id c) \<and>
     bounded 64 64 (reg_token_hash c)"

record run_credential =
  tc_id :: string
  tc_run_id :: string
  tc_computer_id :: string
  tc_epoch :: int
  tc_token_hash :: string
  tc_created_at :: time

definition valid_run_credential :: "run_credential \<Rightarrow> bool" where
  "valid_run_credential c \<longleftrightarrow> id_field 128 (tc_id c) \<and> bounded 1 128 (tc_run_id c) \<and>
     bounded 1 128 (tc_computer_id c) \<and> 1 \<le> tc_epoch c \<and> bounded 64 64 (tc_token_hash c)"

section \<open>Tasks and runs\<close>

record resource_scope =
  scope_all :: bool
  scope_resource_ids :: "string list"

text \<open>\<open>TaskResourceScope(...)\<close>: duplicate ids are dropped, then the scope is validated.\<close>

definition make_scope :: "bool \<Rightarrow> string list \<Rightarrow> resource_scope result" where
  "make_scope all ids =
     (if \<not> bounded 0 64 ids then Inl (ValidationError ''resource_ids'')
      else if all \<and> fromkeys ids \<noteq> []
      then Inl (ValidationError ''all-resource scope cannot also name individual resources'')
      else if \<not> all \<and> fromkeys ids = []
      then Inl (ValidationError ''a narrowed task scope must include at least one resource'')
      else Inr \<lparr>scope_all = all, scope_resource_ids = fromkeys ids\<rparr>)"

text \<open>The scope of every resource, \<open>TaskResourceScope(all_project_resources=True)\<close>.\<close>

definition full_scope :: resource_scope where
  "full_scope = \<lparr>scope_all = True, scope_resource_ids = []\<rparr>"

lemma make_full_scope: "make_scope True [] = Inr full_scope"
  by (simp add: make_scope_def full_scope_def bounded_def)

text \<open>\<open>task_setup\<close> is the \<open>TaskRepositorySetup\<close>; \<open>task_sources\<close> and \<open>task_deliveries\<close> are carried as JSON.\<close>

record repository_setup =
  setup_branch :: "string option"
  setup_base_branches :: "(string \<times> string) list"
  setup_include_local_changes :: bool

record code_task =
  task_id :: string
  task_title :: string
  task_prompt :: string
  task_engine_id :: string
  task_project_id :: "string option"
  task_scope :: resource_scope
  task_execution_project :: "code_project option"
  task_repository_setup :: "repository_setup option"
  task_source_contexts :: "json list"
  task_deliveries :: "json list"
  task_created_at :: time
  task_updated_at :: time

definition valid_task :: "code_task \<Rightarrow> bool" where
  "valid_task t \<longleftrightarrow> id_field 128 (task_id t) \<and> bounded 1 200 (task_title t) \<and>
     bounded 0 200000 (task_prompt t) \<and> bounded 1 128 (task_engine_id t) \<and>
     opt_bounded 0 128 (task_project_id t) \<and>
     make_scope (scope_all (task_scope t)) (scope_resource_ids (task_scope t)) = Inr (task_scope t) \<and>
     (case task_execution_project t of None \<Rightarrow> True | Some p \<Rightarrow> valid_project p) \<and>
     bounded 0 24 (task_source_contexts t) \<and> bounded 0 250 (task_deliveries t)"

record task_run =
  run_id :: string
  run_task_id :: string
  run_computer_id :: string
  run_status :: run_status
  run_epoch :: int
  run_lease_id :: "string option"
  run_lease_expires_at :: "time option"
  run_last_event_seq :: int
  run_last_event_id :: "string option"
  run_checkpoint :: payload
  run_resume_mode :: resume_mode
  run_recovery_count :: int
  run_last_error :: "string option"
  run_created_at :: time
  run_updated_at :: time
  run_started_at :: "time option"
  run_finished_at :: "time option"

definition valid_run :: "task_run \<Rightarrow> bool" where
  "valid_run r \<longleftrightarrow> id_field 128 (run_id r) \<and> bounded 1 128 (run_task_id r) \<and>
     bounded 1 128 (run_computer_id r) \<and> 1 \<le> run_epoch r \<and> opt_bounded 0 128 (run_lease_id r) \<and>
     0 \<le> run_last_event_seq r \<and> opt_bounded 0 128 (run_last_event_id r) \<and>
     0 \<le> run_recovery_count r \<and> opt_bounded 0 4000 (run_last_error r)"

definition new_run :: "time \<Rightarrow> string \<Rightarrow> string \<Rightarrow> string \<Rightarrow> task_run" where
  "new_run now i tid cid =
     \<lparr>run_id = i, run_task_id = tid, run_computer_id = cid, run_status = Queued, run_epoch = 1,
      run_lease_id = None, run_lease_expires_at = None, run_last_event_seq = 0,
      run_last_event_id = None, run_checkpoint = [], run_resume_mode = Prepare,
      run_recovery_count = 0, run_last_error = None, run_created_at = now, run_updated_at = now,
      run_started_at = None, run_finished_at = None\<rparr>"

record execution_workspace =
  ws_id :: string
  ws_run_id :: string
  ws_resource_id :: string
  ws_computer_id :: string
  ws_status :: workspace_status
  ws_path :: string
  ws_kind :: "workspace_kind option"
  ws_base_revision :: "string option"
  ws_task_branch :: "string option"
  ws_detail :: string
  ws_created_at :: time
  ws_updated_at :: time

definition valid_workspace :: "execution_workspace \<Rightarrow> bool" where
  "valid_workspace w \<longleftrightarrow> id_field 160 (ws_id w) \<and> bounded 1 128 (ws_run_id w) \<and>
     bounded 1 128 (ws_resource_id w) \<and> bounded 1 128 (ws_computer_id w) \<and>
     bounded 0 32768 (ws_path w) \<and> opt_bounded 0 512 (ws_base_revision w) \<and>
     opt_bounded 0 512 (ws_task_branch w) \<and> bounded 0 4000 (ws_detail w)"

definition new_workspace :: "time \<Rightarrow> string \<Rightarrow> string \<Rightarrow> string \<Rightarrow> string \<Rightarrow> execution_workspace" where
  "new_workspace now i rid res cid =
     \<lparr>ws_id = i, ws_run_id = rid, ws_resource_id = res, ws_computer_id = cid, ws_status = WS_Pending,
      ws_path = [], ws_kind = None, ws_base_revision = None, ws_task_branch = None, ws_detail = [],
      ws_created_at = now, ws_updated_at = now\<rparr>"

section \<open>Connector grants, audit events, commands and runtime events\<close>

record connector_grant =
  grant_id :: string
  grant_run_id :: string
  grant_computer_id :: string
  grant_epoch :: int
  grant_provider :: string
  grant_connection_name :: string
  grant_actions :: "string list"
  grant_constraints :: "(string \<times> string) list"
  grant_token_hash :: string
  grant_expires_at :: time
  grant_max_uses :: int
  grant_use_count :: int
  grant_last_used_at :: "time option"
  grant_revoked_at :: "time option"
  grant_created_at :: time

definition valid_grant :: "connector_grant \<Rightarrow> bool" where
  "valid_grant g \<longleftrightarrow> id_field 128 (grant_id g) \<and> bounded 1 128 (grant_run_id g) \<and>
     bounded 1 128 (grant_computer_id g) \<and> 1 \<le> grant_epoch g \<and>
     grant_provider g \<in> {''github'', ''linear''} \<and> bounded 1 512 (grant_connection_name g) \<and>
     bounded 1 32 (grant_actions g) \<and> bounded 0 32 (grant_constraints g) \<and>
     bounded 64 64 (grant_token_hash g) \<and> 1 \<le> grant_max_uses g \<and> grant_max_uses g \<le> 10000 \<and>
     0 \<le> grant_use_count g"

datatype audit_outcome = Allowed | Denied | Done_Outcome
datatype audit_actor = Actor_User | Actor_Runtime | Actor_Agent | Actor_System

record audit_event =
  audit_id :: string
  audit_action :: string
  audit_outcome :: audit_outcome
  audit_actor :: audit_actor
  audit_target_id :: string
  audit_run_id :: "string option"
  audit_computer_id :: "string option"
  audit_detail :: string
  audit_created_at :: time

definition valid_audit_event :: "audit_event \<Rightarrow> bool" where
  "valid_audit_event a \<longleftrightarrow> id_field 160 (audit_id a) \<and> bounded 1 120 (audit_action a) \<and>
     bounded 0 160 (audit_target_id a) \<and> opt_bounded 0 128 (audit_run_id a) \<and>
     opt_bounded 0 128 (audit_computer_id a) \<and> bounded 0 1000 (audit_detail a)"

definition command_kinds :: "string list" where
  "command_kinds = [''prepare'', ''start'', ''steer'', ''agent_command'', ''approve'', ''cancel'',
     ''checkpoint'', ''operation'', ''release'']"

record runtime_command =
  cmd_id :: string
  cmd_run_id :: string
  cmd_epoch :: int
  cmd_kind :: string
  cmd_payload :: payload
  cmd_idempotency_key :: string
  cmd_created_at :: time
  cmd_claimed_at :: "time option"
  cmd_claim_expires_at :: "time option"
  cmd_delivery_count :: int
  cmd_acked_at :: "time option"
  cmd_result :: "payload option"
  cmd_error :: "string option"

text \<open>The 2 MiB bound on a command's result is a bound on its JSON text, which is not modelled.\<close>

definition valid_command :: "runtime_command \<Rightarrow> bool" where
  "valid_command c \<longleftrightarrow> id_field 128 (cmd_id c) \<and> bounded 1 128 (cmd_run_id c) \<and> 1 \<le> cmd_epoch c \<and>
     cmd_kind c \<in> set command_kinds \<and> bounded 0 256 (cmd_idempotency_key c) \<and>
     0 \<le> cmd_delivery_count c \<and> opt_bounded 0 4000 (cmd_error c)"

definition new_command ::
  "time \<Rightarrow> string \<Rightarrow> string \<Rightarrow> int \<Rightarrow> string \<Rightarrow> payload \<Rightarrow> string \<Rightarrow> runtime_command" where
  "new_command now i rid ep kind pl key =
     \<lparr>cmd_id = i, cmd_run_id = rid, cmd_epoch = ep, cmd_kind = kind, cmd_payload = pl,
      cmd_idempotency_key = key, cmd_created_at = now, cmd_claimed_at = None,
      cmd_claim_expires_at = None, cmd_delivery_count = 0, cmd_acked_at = None, cmd_result = None,
      cmd_error = None\<rparr>"

datatype event_kind =
    Ev_Status | Ev_Event | Ev_Approval | Ev_Checkpoint | Ev_Workspace | Ev_Turn_Completed | Ev_Error

record runtime_event =
  ev_protocol_version :: string
  ev_id :: string
  ev_run_id :: string
  ev_computer_id :: string
  ev_lease_id :: string
  ev_epoch :: int
  ev_seq :: int
  ev_kind :: event_kind
  ev_payload :: payload

definition valid_event :: "runtime_event \<Rightarrow> bool" where
  "valid_event e \<longleftrightarrow> id_field 128 (ev_id e) \<and> bounded 1 128 (ev_run_id e) \<and>
     bounded 1 128 (ev_computer_id e) \<and> bounded 1 128 (ev_lease_id e) \<and> 1 \<le> ev_epoch e \<and> 1 \<le> ev_seq e"

definition RUNTIME_PROTOCOL_VERSION :: string where
  "RUNTIME_PROTOCOL_VERSION = ''1.0''"

section \<open>The session read model (contracts.py)\<close>

record task_workspace =
  tw_folder_id :: string
  tw_folder_name :: string
  tw_source_path :: string
  tw_workspace_path :: string
  tw_kind :: workspace_kind
  tw_repository_root :: "string option"
  tw_base_revision :: "string option"
  tw_base_branch :: "string option"
  tw_task_branch :: "string option"
  tw_source_dirty :: bool

text \<open>The fields of \<open>CodingSession\<close> that the control plane reads.\<close>

record coding_session =
  ses_id :: string
  ses_title :: string
  ses_engine_id :: string
  ses_status :: session_status
  ses_task_id :: "string option"
  ses_run_id :: "string option"
  ses_computer_id :: "string option"
  ses_resource_ids :: "string list"
  ses_scope_all :: bool
  ses_runtime_epoch :: int
  ses_project_id :: "string option"
  ses_source_path :: string
  ses_workspace_path :: string
  ses_workspace_kind :: workspace_kind
  ses_workspaces :: "task_workspace list"
  ses_repository_root :: "string option"
  ses_base_revision :: "string option"
  ses_source_dirty :: bool
  ses_source_contexts :: "json list"
  ses_deliveries :: "json list"
  ses_last_error :: "string option"

end
