(* ===== verification/Question_Broker.thy ===== *)
theory Question_Broker
  imports Control_Models Interleavings
begin

text \<open>
  Structured questions of a coding engine: \<open>QuestionBroker\<close> and its models in
  \<^verbatim>\<open>src/cowork/coding/questions.py\<close>. Everything the broker does it does under its lock, so one critical section
  is one step and every interleaving of the engine's threads, the user's answers, cancellations and
  time-outs is a list of steps. A step says whether the callback \<open>on_open\<close> or \<open>on_close\<close> it makes succeeds.
\<close>

section \<open>Questions and answers\<close>

record question_option =
  qo_label :: string
  qo_description :: string

record agent_question =
  aq_id :: string
  aq_header :: string
  aq_question :: string
  aq_options :: "question_option list option"
  aq_is_other :: bool
  aq_is_secret :: bool

definition valid_question :: "agent_question \<Rightarrow> bool" where
  "valid_question q \<longleftrightarrow> bounded 1 128 (aq_id q) \<and> bounded 0 256 (aq_header q) \<and> bounded 1 8000 (aq_question q) \<and>
     (case aq_options q of None \<Rightarrow> True | Some os \<Rightarrow> bounded 0 12 os \<and>
        list_all (\<lambda>x. bounded 1 512 (qo_label x) \<and> bounded 0 4000 (qo_description x)) os)"

text \<open>\<open>PendingQuestion\<close> with \<open>unique_ids\<close>.\<close>

definition valid_pending :: "agent_question list \<Rightarrow> bool" where
  "valid_pending qs \<longleftrightarrow> bounded 1 3 qs \<and> list_all valid_question qs \<and> distinct (map aq_id qs)"

text \<open>\<open>QuestionResponse.answers\<close>: a dict from question ids to the texts chosen.\<close>

type_synonym answers = "(string \<times> string list) list"

definition question_fits :: "answers \<Rightarrow> agent_question \<Rightarrow> unit result" where
  "question_fits ans q = (case map_of ans (aq_id q) of
     None \<Rightarrow> Inl (KeyError (aq_id q))
   | Some vs \<Rightarrow>
       if length vs \<noteq> 1 then Inl (ValueError ''Choose one answer for each question'')
       else (case aq_options q of None \<Rightarrow> Inr ()
         | Some os \<Rightarrow> if os \<noteq> [] \<and> \<not> aq_is_other q \<and> \<not> aq_is_secret q \<and> hd vs \<notin> set (map qo_label os)
             then Inl (ValueError ''Choose one of the offered answers'') else Inr ()))"

fun questions_fit :: "answers \<Rightarrow> agent_question list \<Rightarrow> unit result" where
  "questions_fit ans [] = Inr ()"
| "questions_fit ans (q # qs) = (case question_fits ans q of Inl e \<Rightarrow> Inl e | Inr _ \<Rightarrow> questions_fit ans qs)"

definition validate_for :: "answers \<Rightarrow> agent_question list \<Rightarrow> unit result" where
  "validate_for ans qs =
     (if set (map fst ans) \<noteq> set (map aq_id qs) then Inl (ValueError ''Answer each question before continuing'')
      else questions_fit ans qs)"

section \<open>The broker\<close>

record question_waiter =
  qw_session :: string
  qw_pending :: "agent_question list"
  qw_event :: bool
  qw_response :: "answers option"
  qw_closed :: bool

text \<open>\<open>qb_recorded\<close> are the successful calls of \<open>on_close\<close>, \<open>qb_opened\<close> those of \<open>on_open\<close>, and \<open>qb_returned\<close> what
  \<open>request\<close> returned to the engine; a thread waits for the question it asked.\<close>

record question_broker =
  qb_waiters :: "(string \<times> question_waiter) list"
  qb_threads :: "(nat \<times> string) list"
  qb_opened :: "(string \<times> agent_question list) list"
  qb_recorded :: "(string \<times> answers option) list"
  qb_returned :: "(string \<times> answers) list"

definition empty_questions :: question_broker where
  "empty_questions = \<lparr>qb_waiters = [], qb_threads = [], qb_opened = [], qb_recorded = [], qb_returned = []\<rparr>"

text \<open>\<open>_close\<close>: the answer is delivered only if it was recorded; the engine is woken in any case.\<close>

definition close_question ::
  "string \<Rightarrow> question_waiter \<Rightarrow> answers option \<Rightarrow> bool \<Rightarrow> question_broker \<Rightarrow> question_broker" where
  "close_question p w r ok b =
     (if ok then b\<lparr>qb_waiters := al_put p (w\<lparr>qw_closed := True, qw_response := r, qw_event := True\<rparr>) (qb_waiters b),
        qb_recorded := qb_recorded b @ [(p, r)]\<rparr>
      else b\<lparr>qb_waiters := al_put p (w\<lparr>qw_closed := True, qw_event := True\<rparr>) (qb_waiters b)\<rparr>)"

text \<open>\<open>request\<close> up to its wait. A session with a question under way gets no answers at once.\<close>

definition question_request ::
  "nat \<Rightarrow> string \<Rightarrow> string \<Rightarrow> agent_question list \<Rightarrow> bool \<Rightarrow> question_broker \<Rightarrow> question_broker" where
  "question_request i sid p qs ok b =
     (if \<not> valid_pending qs then b
      else if list_ex (\<lambda>(_, w). qw_session w = sid) (qb_waiters b) then b\<lparr>qb_returned := qb_returned b @ [(p, [])]\<rparr>
      else if \<not> ok then b
      else b\<lparr>qb_waiters := al_put p \<lparr>qw_session = sid, qw_pending = qs, qw_event = False, qw_response = None,
               qw_closed = False\<rparr> (qb_waiters b),
             qb_threads := al_put i p (qb_threads b), qb_opened := qb_opened b @ [(p, qs)]\<rparr>)"

definition finish_request :: "nat \<Rightarrow> string \<Rightarrow> question_broker \<Rightarrow> question_broker" where
  "finish_request i p b = b\<lparr>qb_waiters := al_del p (qb_waiters b), qb_threads := al_del i (qb_threads b)\<rparr>"

text \<open>The wait is over: \<open>request\<close> returns what the waiter holds and forgets it.\<close>

definition question_wake :: "nat \<Rightarrow> string \<Rightarrow> question_waiter \<Rightarrow> question_broker \<Rightarrow> question_broker" where
  "question_wake i p w b = finish_request i p
     (b\<lparr>qb_returned := qb_returned b @ [(p, case qw_response w of None \<Rightarrow> [] | Some r \<Rightarrow> r)]\<rparr>)"

text \<open>The time is up: an open question is closed without an answer; a failed \<open>on_close\<close> leaves \<open>request\<close>.\<close>

definition question_timeout :: "nat \<Rightarrow> string \<Rightarrow> question_waiter \<Rightarrow> bool \<Rightarrow> question_broker \<Rightarrow> question_broker" where
  "question_timeout i p w ok b =
     (if qw_closed w then b
      else if ok then close_question p w None True b
      else finish_request i p (close_question p w None False b))"

definition question_resolve ::
  "string \<Rightarrow> string \<Rightarrow> answers \<Rightarrow> bool \<Rightarrow> question_broker \<Rightarrow> error + question_broker" where
  "question_resolve sid p ans ok b = (case map_of (qb_waiters b) p of
     None \<Rightarrow> Inl (KeyError ''This question is no longer waiting for an answer'')
   | Some w \<Rightarrow>
       if qw_session w \<noteq> sid \<or> qw_closed w then Inl (KeyError ''This question is no longer waiting for an answer'')
       else (case validate_for ans (qw_pending w) of Inl e \<Rightarrow> Inl e | Inr _ \<Rightarrow> Inr (close_question p w (Some ans) ok b)))"

text \<open>\<open>cancel_session\<close>: a failed \<open>on_close\<close> ends the loop.\<close>

fun cancel_loop :: "string \<Rightarrow> (string \<Rightarrow> bool) \<Rightarrow> string list \<Rightarrow> question_broker \<Rightarrow> question_broker" where
  "cancel_loop sid ok [] b = b"
| "cancel_loop sid ok (p # ps) b = (case map_of (qb_waiters b) p of
     None \<Rightarrow> cancel_loop sid ok ps b
   | Some w \<Rightarrow>
       if qw_session w = sid \<and> \<not> qw_closed w then
         (if ok p then cancel_loop sid ok ps (close_question p w None True b) else close_question p w None False b)
       else cancel_loop sid ok ps b)"

datatype question_event =
    Ask nat string string "agent_question list" bool
  | Answered nat
  | Time_Up nat bool
  | Answer_Question string string answers bool
  | Cancel_Questions string "string \<Rightarrow> bool"

fun question_step :: "question_event \<Rightarrow> question_broker \<Rightarrow> question_broker" where
  "question_step (Ask i sid p qs ok) b = question_request i sid p qs ok b"
| "question_step (Answered i) b = (case map_of (qb_threads b) i of None \<Rightarrow> b
   | Some p \<Rightarrow> (case map_of (qb_waiters b) p of None \<Rightarrow> b
       | Some w \<Rightarrow> if qw_event w then question_wake i p w b else b))"
| "question_step (Time_Up i ok) b = (case map_of (qb_threads b) i of None \<Rightarrow> b
   | Some p \<Rightarrow> (case map_of (qb_waiters b) p of None \<Rightarrow> b | Some w \<Rightarrow> question_timeout i p w ok b))"
| "question_step (Answer_Question sid p ans ok) b = (case question_resolve sid p ans ok b of Inl _ \<Rightarrow> b | Inr c \<Rightarrow> c)"
| "question_step (Cancel_Questions sid ok) b = cancel_loop sid ok (map fst (qb_waiters b)) b"

fun question_run :: "question_event list \<Rightarrow> question_broker \<Rightarrow> question_broker" where
  "question_run [] b = b"
| "question_run (e # es) b = question_run es (question_step e b)"

fun question_fresh :: "question_event \<Rightarrow> question_broker \<Rightarrow> bool" where
  "question_fresh (Ask i sid p qs ok) b \<longleftrightarrow> map_of (qb_threads b) i = None \<and> p \<notin> fst ` set (qb_opened b)"
| "question_fresh _ b \<longleftrightarrow> True"

fun question_events_ok :: "question_event list \<Rightarrow> question_broker \<Rightarrow> bool" where
  "question_events_ok [] b = True"
| "question_events_ok (e # es) b = (question_fresh e b \<and> question_events_ok es (question_step e b))"

section \<open>Invariant\<close>

text \<open>A waiting question was opened as it is, is recorded exactly when it was closed successfully, and holds only
  an answer that fits and is recorded.\<close>

definition question_waiter_ok :: "question_broker \<Rightarrow> string \<Rightarrow> question_waiter \<Rightarrow> bool" where
  "question_waiter_ok b p w \<longleftrightarrow> (p, qw_pending w) \<in> set (qb_opened b) \<and>
     (\<not> qw_closed w \<longrightarrow> p \<notin> fst ` set (qb_recorded b) \<and> qw_response w = None) \<and>
     (\<forall>r. qw_response w = Some r \<longrightarrow> (p, Some r) \<in> set (qb_recorded b))"

definition delivered_ok :: "question_broker \<Rightarrow> string \<Rightarrow> answers \<Rightarrow> bool" where
  "delivered_ok b p r \<longleftrightarrow> (p, Some r) \<in> set (qb_recorded b)"

definition recorded_ok :: "question_broker \<Rightarrow> string \<Rightarrow> answers option \<Rightarrow> bool" where
  "recorded_ok b p r \<longleftrightarrow> (\<exists>qs. (p, qs) \<in> set (qb_opened b) \<and> (\<forall>x. r = Some x \<longrightarrow> validate_for x qs = Inr ()))"

definition question_inv :: "question_broker \<Rightarrow> bool" where
  "question_inv b \<longleftrightarrow> distinct (map fst (qb_recorded b)) \<and>
     (\<forall>p w. map_of (qb_waiters b) p = Some w \<longrightarrow> question_waiter_ok b p w) \<and>
     (\<forall>p r. (p, r) \<in> set (qb_recorded b) \<longrightarrow> recorded_ok b p r) \<and>
     (\<forall>p r. (p, r) \<in> set (qb_returned b) \<longrightarrow> r \<noteq> [] \<longrightarrow> delivered_ok b p r)"

lemmas question_inv_defs = question_inv_def question_waiter_ok_def delivered_ok_def recorded_ok_def

lemma question_inv_empty: "question_inv empty_questions"
  by (simp add: question_inv_def empty_questions_def)

lemma close_question_inv:
  assumes inv: "question_inv b" and w: "map_of (qb_waiters b) p = Some w" "\<not> qw_closed w"
    and r: "\<And>x. r = Some x \<Longrightarrow> validate_for x (qw_pending w) = Inr ()"
  shows "question_inv (close_question p w r ok b)"
proof -
  have wok: "question_waiter_ok b p w" using inv w(1) by (simp add: question_inv_def)
  have new: "p \<notin> fst ` set (qb_recorded b)" "(p, qw_pending w) \<in> set (qb_opened b)" "qw_response w = None"
    using wok w(2) by (simp_all add: question_waiter_ok_def)
  let ?c = "close_question p w r ok b"
  have view: "map_of (qb_waiters ?c) q = (if q = p then Some (w\<lparr>qw_closed := True,
      qw_response := (if ok then r else None), qw_event := True\<rparr>) else map_of (qb_waiters b) q)" for q
    using new(3) by (cases w) (simp add: close_question_def)
  have rec: "qb_recorded ?c = (if ok then qb_recorded b @ [(p, r)] else qb_recorded b)"
    "qb_opened ?c = qb_opened b" "qb_returned ?c = qb_returned b" by (simp_all add: close_question_def)
  have "question_waiter_ok ?c q v" if v: "map_of (qb_waiters ?c) q = Some v" for q v
  proof (cases "q = p")
    case True
    then show ?thesis using v new by (auto simp: view question_waiter_ok_def rec split: if_splits)
  next
    case False
    then have "question_waiter_ok b q v" using v inv by (simp add: question_inv_def view)
    then show ?thesis using False by (simp add: question_waiter_ok_def rec)
  qed
  moreover have "recorded_ok ?c q x" if x: "(q, x) \<in> set (qb_recorded ?c)" for q x
  proof (cases "(q, x) \<in> set (qb_recorded b)")
    case True
    then show ?thesis using inv by (simp add: question_inv_def recorded_ok_def rec)
  next
    case False
    then have "q = p" "x = r" using x by (auto simp: rec split: if_splits)
    then show ?thesis using new(2) r unfolding recorded_ok_def rec by blast
  qed
  moreover have "distinct (map fst (qb_recorded ?c))" using inv new(1) by (simp add: question_inv_def rec)
  moreover have "delivered_ok ?c q x" if "delivered_ok b q x" for q x
    using that by (simp add: delivered_ok_def rec)
  ultimately show ?thesis using inv by (simp add: question_inv_def rec)
qed

lemma finish_request_inv: "question_inv b \<Longrightarrow> question_inv (finish_request i p b)"
proof -
  assume inv: "question_inv b"
  let ?c = "finish_request i p b"
  have same: "qb_opened ?c = qb_opened b" "qb_recorded ?c = qb_recorded b" "qb_returned ?c = qb_returned b"
    by (simp_all add: finish_request_def)
  have "question_waiter_ok ?c q w" if "map_of (qb_waiters ?c) q = Some w" for q w
  proof -
    have "map_of (qb_waiters b) q = Some w" using that by (simp add: finish_request_def split: if_splits)
    then have "question_waiter_ok b q w" using inv by (simp add: question_inv_def)
    then show ?thesis by (simp add: question_waiter_ok_def same)
  qed
  then show "question_inv ?c" using inv by (simp add: question_inv_def recorded_ok_def delivered_ok_def same)
qed

lemma cancel_loop_inv: "question_inv b \<Longrightarrow> question_inv (cancel_loop sid ok ps b)"
proof (induction ps arbitrary: b)
  case (Cons p ps)
  show ?case
  proof (cases "map_of (qb_waiters b) p")
    case None
    then show ?thesis using Cons.IH [OF Cons.prems] by simp
  next
    case (Some w)
    show ?thesis
    proof (cases "qw_session w = sid \<and> \<not> qw_closed w")
      case True
      then have "question_inv (close_question p w None x b)" for x
        using close_question_inv [OF Cons.prems Some, of None x] by simp
      then show ?thesis using Cons.IH True Some by simp
    next
      case False
      then show ?thesis using Cons.IH [OF Cons.prems] Some by auto
    qed
  qed
qed simp

lemma recorded_ok_mono: "recorded_ok b q r \<Longrightarrow> set (qb_opened b) \<subseteq> set (qb_opened c) \<Longrightarrow> recorded_ok c q r"
  unfolding recorded_ok_def by blast

lemma add_question_inv:
  assumes inv: "question_inv b" and new: "p \<notin> fst ` set (qb_opened b)"
  shows "question_inv (b\<lparr>qb_waiters := al_put p \<lparr>qw_session = sid, qw_pending = qs, qw_event = False,
      qw_response = None, qw_closed = False\<rparr> (qb_waiters b),
    qb_threads := al_put i p (qb_threads b), qb_opened := qb_opened b @ [(p, qs)]\<rparr>)" (is "question_inv ?c")
proof -
  have nr: "p \<notin> fst ` set (qb_recorded b)"
  proof
    assume "p \<in> fst ` set (qb_recorded b)"
    then obtain r where "(p, r) \<in> set (qb_recorded b)" by auto
    then have "recorded_ok b p r" using inv by (simp add: question_inv_def)
    then obtain qs where "(p, qs) \<in> set (qb_opened b)" unfolding recorded_ok_def by blast
    then show False using new by (metis fst_conv image_eqI)
  qed
  have "question_waiter_ok ?c q w" if "map_of (qb_waiters ?c) q = Some w" for q w
  proof (cases "q = p")
    case True
    then have "w = \<lparr>qw_session = sid, qw_pending = qs, qw_event = False, qw_response = None, qw_closed = False\<rparr>"
      using that by simp
    then show ?thesis using True nr by (simp add: question_waiter_ok_def)
  next
    case False
    then have "question_waiter_ok b q w" using that inv by (simp add: question_inv_def)
    then show ?thesis by (simp add: question_waiter_ok_def)
  qed
  moreover have "recorded_ok ?c q r" if "recorded_ok b q r" for q r
    by (rule recorded_ok_mono [OF that]) auto
  moreover have "delivered_ok ?c q r" if "delivered_ok b q r" for q r
    using that by (simp add: delivered_ok_def)
  ultimately show ?thesis using inv by (simp add: question_inv_def)
qed

lemma return_inv:
  assumes "question_inv b" and "r \<noteq> [] \<Longrightarrow> delivered_ok b p r"
  shows "question_inv (b\<lparr>qb_returned := qb_returned b @ [(p, r)]\<rparr>)"
proof -
  let ?c = "b\<lparr>qb_returned := qb_returned b @ [(p, r)]\<rparr>"
  have same: "question_waiter_ok ?c q w = question_waiter_ok b q w" "recorded_ok ?c q x = recorded_ok b q x"
    "delivered_ok ?c q y = delivered_ok b q y" for q w x y
    by (simp_all add: question_waiter_ok_def recorded_ok_def delivered_ok_def)
  have "delivered_ok b q y" if "(q, y) \<in> set (qb_returned ?c)" "y \<noteq> []" for q y
    using that assms by (auto simp: question_inv_def)
  then show ?thesis using assms(1) by (simp add: question_inv_def same)
qed

lemma question_wake_inv:
  assumes inv: "question_inv b" and w: "map_of (qb_waiters b) p = Some w"
  shows "question_inv (question_wake i p w b)"
proof -
  have ok: "question_waiter_ok b p w" using inv w by (simp add: question_inv_def)
  have "delivered_ok b p (case qw_response w of None \<Rightarrow> [] | Some r \<Rightarrow> r)"
    if "(case qw_response w of None \<Rightarrow> [] | Some r \<Rightarrow> r) \<noteq> []"
    using ok that by (cases "qw_response w") (simp_all add: question_waiter_ok_def delivered_ok_def)
  from return_inv [OF inv this] show ?thesis unfolding question_wake_def by (rule finish_request_inv)
qed

lemma question_timeout_inv:
  assumes inv: "question_inv b" and w: "map_of (qb_waiters b) p = Some w"
  shows "question_inv (question_timeout i p w ok b)"
proof (cases "qw_closed w")
  case True
  then show ?thesis using inv by (simp add: question_timeout_def)
next
  case False
  have "question_inv (close_question p w None x b)" for x by (rule close_question_inv [OF inv w False]) simp
  then show ?thesis using False finish_request_inv by (simp add: question_timeout_def)
qed

lemma question_resolve_inv:
  assumes inv: "question_inv b" and r: "question_resolve sid p ans ok b = Inr c"
  shows "question_inv c"
proof -
  obtain w where w: "map_of (qb_waiters b) p = Some w" "\<not> qw_closed w" "validate_for ans (qw_pending w) = Inr ()"
      "c = close_question p w (Some ans) ok b"
    using r by (auto simp: question_resolve_def split: option.splits if_splits sum.splits)
  show ?thesis unfolding w(4) by (rule close_question_inv [OF inv w(1,2)]) (use w(3) in simp)
qed

lemma question_step_inv:
  assumes inv: "question_inv b" and f: "question_fresh e b"
  shows "question_inv (question_step e b)"
proof (cases e)
  case (Ask i sid p qs ok)
  then show ?thesis using inv f add_question_inv [OF inv, of p] return_inv [OF inv, of "[]" p]
    by (simp add: question_request_def)
next
  case (Answered i)
  then show ?thesis using inv question_wake_inv [OF inv] by (simp split: option.split)
next
  case (Time_Up i ok)
  then show ?thesis using inv question_timeout_inv [OF inv] by (simp split: option.split)
next
  case (Answer_Question sid p ans ok)
  then show ?thesis using inv question_resolve_inv [OF inv] by (simp split: sum.split)
next
  case (Cancel_Questions sid ok)
  then show ?thesis using cancel_loop_inv [OF inv] by simp
qed

interpretation questions: guarded_machine question_step question_run question_fresh question_events_ok
  by unfold_locales simp_all

lemma question_run_inv: "question_inv b \<Longrightarrow> question_events_ok es b \<Longrightarrow> question_inv (question_run es b)"
  by (rule questions.allowed_keeps [where P = question_inv, OF question_step_inv])

end
