(* ===== verification/Broker_Claims.thy ===== *)
theory Broker_Claims
  imports Approval_Broker Question_Broker
begin

text \<open>The properties of the approval and question brokers.\<close>

text \<open>A card approved for the session and recorded, then a request of the same session that a remembered rule
  accepts.\<close>

definition bx_approved :: "approval_event list" where
  "bx_approved = [Request 0 ''s'' ''p'' False (Some ''rule'') False, Opened 0 True,
     Resolve 1 ''s'' ''p'' Approve_Session, Persisted 1 True, Wake 0,
     Request 2 ''s'' ''q'' False (Some ''rule'') True]"

text \<open>The hour ends while a decision is being recorded, which then fails.\<close>

definition bx_late :: "approval_event list" where
  "bx_late = [Request 0 ''s'' ''p'' False None False, Opened 0 True, Resolve 1 ''s'' ''p'' Approve_Once,
     Timeout 0, Persisted 1 False]"

definition bx_question :: agent_question where
  "bx_question = \<lparr>aq_id = ''q'', aq_header = ''H'', aq_question = ''Which?'', aq_options =
     Some [\<lparr>qo_label = ''a'', qo_description = []\<rparr>, \<lparr>qo_label = ''b'', qo_description = []\<rparr>],
     aq_is_other = False, aq_is_secret = False\<rparr>"

text \<open>An answer that was not offered is refused, the next one is recorded and delivered.\<close>

definition bx_answered :: "question_event list" where
  "bx_answered = [Ask 0 ''s'' ''p'' [bx_question] True, Answer_Question ''s'' ''p'' [(''q'', [''c''])] True,
     Answer_Question ''s'' ''p'' [(''q'', [''b''])] True, Time_Up 0 True, Answered 0]"

text \<open>The cards a session shows and has not closed.\<close>

definition open_cards :: "string \<Rightarrow> approval_broker \<Rightarrow> string list" where
  "open_cards sid b = filter (\<lambda>p. case map_of (ab_waiters b) p of None \<Rightarrow> False
     | Some w \<Rightarrow> \<not> aw_closed w \<and> aw_session w = sid) (ab_waiting b)"

text \<open>C28. The engine may act only on a recorded approval. For every interleaving of requests, decisions,
  cancellations and time-outs in which the hour does not end while a decision is being recorded, a request
  the engine was told to go on with was either accepted by a rule remembered for its session or approved by
  the user with the approval recorded.\<close>

theorem accepted_requests_approved:
  assumes "approval_events_ok es empty_broker" "all_timely es empty_broker"
    "(p, True) \<in> set (ab_answers (approval_run es empty_broker))"
  shows "p \<in> set (ab_remembered (approval_run es empty_broker)) \<or>
    (\<exists>d g. d \<in> {Approve_Once, Approve_Session} \<and> (p, d, g) \<in> set (ab_recorded (approval_run es empty_broker)))"
  using approval_run_inv [OF approval_inv_empty assms(1,2)] assms(3)
  unfolding approval_inv_def approved_def accepting_def by blast

theorem accepted_requests_approved_witness:
  "''p'' \<in> set (ab_remembered (approval_run bx_approved empty_broker)) \<or>
    (\<exists>d g. d \<in> {Approve_Once, Approve_Session} \<and> (''p'', d, g) \<in> set (ab_recorded (approval_run bx_approved empty_broker)))"
proof -
  have "approval_events_ok bx_approved empty_broker" "all_timely bx_approved empty_broker"
    "(''p'', True) \<in> set (ab_answers (approval_run bx_approved empty_broker))" by code_simp+
  then show ?thesis by (rule accepted_requests_approved)
qed


text \<open>C30. A session has at most one open approval card, under every interleaving.\<close>

theorem one_open_card_per_session:
  assumes "approval_events_ok es empty_broker"
  shows "card (set (open_cards sid (approval_run es empty_broker))) \<le> 1"
proof -
  let ?b = "approval_run es empty_broker"
  have "p = q" if "p \<in> set (open_cards sid ?b)" "q \<in> set (open_cards sid ?b)" for p q
    using one_card_run [OF one_card_empty assms] that
    unfolding one_card_def open_cards_def by (fastforce split: option.splits)
  then have "set (open_cards sid ?b) \<subseteq> {hd (open_cards sid ?b)}" by (cases "open_cards sid ?b") auto
  then show ?thesis using card_mono [of "{hd (open_cards sid ?b)}"] by simp
qed

theorem one_open_card_per_session_witness:
  "open_cards ''s'' (approval_run (take 2 bx_late) empty_broker) = [''p''] \<and>
   card (set (open_cards ''s'' (approval_run (take 2 bx_late) empty_broker))) \<le> 1"
proof -
  have "approval_events_ok (take 2 bx_late) empty_broker"
    "open_cards ''s'' (approval_run (take 2 bx_late) empty_broker) = [''p'']" by code_simp+
  then show ?thesis using one_open_card_per_session [of "take 2 bx_late" "''s''"] by blast
qed

text \<open>C31. The engine gets only answers that fit the questions and are recorded. For every interleaving, a question
  whose request returned answers was opened, the answers name exactly its questions with one allowed choice
  each, they are the ones recorded for it, and nothing else was recorded for it.\<close>

theorem returned_answers_recorded:
  assumes "question_events_ok es empty_questions" "(p, ans) \<in> set (qb_returned (question_run es empty_questions))" "ans \<noteq> []"
  shows "\<exists>qs. (p, qs) \<in> set (qb_opened (question_run es empty_questions)) \<and> validate_for ans qs = Inr () \<and>
    (p, Some ans) \<in> set (qb_recorded (question_run es empty_questions)) \<and>
    (\<forall>r. (p, r) \<in> set (qb_recorded (question_run es empty_questions)) \<longrightarrow> r = Some ans)"
proof -
  let ?b = "question_run es empty_questions"
  have inv: "question_inv ?b" by (rule question_run_inv [OF question_inv_empty assms(1)])
  then have rec: "(p, Some ans) \<in> set (qb_recorded ?b)" using assms(2,3) by (auto simp: question_inv_def delivered_ok_def)
  then have "recorded_ok ?b p (Some ans)" using inv by (simp add: question_inv_def)
  then obtain qs where qs: "(p, qs) \<in> set (qb_opened ?b)" "validate_for ans qs = Inr ()"
    unfolding recorded_ok_def by blast
  have "distinct (map fst (qb_recorded ?b))" using inv by (simp add: question_inv_def)
  then have "\<forall>r. (p, r) \<in> set (qb_recorded ?b) \<longrightarrow> r = Some ans" using rec eq_key_imp_eq_value by fastforce
  then show ?thesis using qs rec by blast
qed

theorem returned_answers_recorded_witness:
  "\<exists>qs. (''p'', qs) \<in> set (qb_opened (question_run bx_answered empty_questions)) \<and>
    validate_for [(''q'', [''b''])] qs = Inr ()"
proof -
  have "question_events_ok bx_answered empty_questions"
    "(''p'', [(''q'', [''b''])]) \<in> set (qb_returned (question_run bx_answered empty_questions))" by code_simp+
  then show ?thesis using returned_answers_recorded by blast
qed

end
