(* ===== verification/Run_State.thy ===== *)
theory Run_State
  imports Control_Models
begin

text \<open>
  The Task Run state machine of \<^verbatim>\<open>src/cowork/coding/run_state.py\<close>: the transition table, the one
  function that applies it, and the lease discipline every operation on a run keeps. The locale
  \<open>run_operation\<close> is the contract of a callback given to the store's \<open>update_run\<close>; each callback of
  the control plane interprets it.
\<close>

fun ALLOWED_TRANSITIONS :: "run_status \<Rightarrow> run_status list" where
  "ALLOWED_TRANSITIONS Queued = [Preparing, Cancelled, Failed]"
| "ALLOWED_TRANSITIONS Preparing = [Ready, Cancelled, Failed, Interrupted, Recovering]"
| "ALLOWED_TRANSITIONS Ready = [Running, Completed, Cancelled, Failed, Recovering]"
| "ALLOWED_TRANSITIONS Running =
     [Awaiting_Approval, Completed, Ready, Cancelled, Interrupted, Failed, Recovering]"
| "ALLOWED_TRANSITIONS Awaiting_Approval =
     [Running, Ready, Completed, Cancelled, Interrupted, Failed, Recovering]"
| "ALLOWED_TRANSITIONS Interrupted = [Recovering, Cancelled, Failed]"
| "ALLOWED_TRANSITIONS Recovering = [Preparing, Ready, Running, Cancelled, Failed]"
| "ALLOWED_TRANSITIONS Completed = []"
| "ALLOWED_TRANSITIONS Cancelled = []"
| "ALLOWED_TRANSITIONS Failed = [Recovering]"

definition transition_run ::
  "time \<Rightarrow> task_run \<Rightarrow> run_status \<Rightarrow> string option \<Rightarrow> task_run result" where
  "transition_run now r target err =
     (if target = run_status r then Inr r
      else if target \<notin> set (ALLOWED_TRANSITIONS (run_status r))
      then Inl (InvalidRunTransition
             (''Task Run cannot move from '' @ run_status_value (run_status r) @ '' to '' @
              run_status_value target))
      else
        let r1 = r\<lparr>run_status := target, run_updated_at := now, run_last_error := err\<rparr>;
            r2 = (if target = Running \<and> run_started_at r1 = None
                  then r1\<lparr>run_started_at := Some now\<rparr> else r1);
            r3 = (if target \<in> set TERMINAL_RUN_STATUSES
                  then r2\<lparr>run_finished_at := Some now, run_lease_id := None,
                          run_lease_expires_at := None\<rparr>
                  else r2)
        in Inr r3)"

lemma terminal_simps [simp]:
  "terminal Completed" "terminal Cancelled" "terminal Failed"
  "\<not> terminal Queued" "\<not> terminal Preparing" "\<not> terminal Ready" "\<not> terminal Running"
  "\<not> terminal Awaiting_Approval" "\<not> terminal Interrupted" "\<not> terminal Recovering"
  by (simp_all add: TERMINAL_RUN_STATUSES_def)

lemma transition_run_status:
  "transition_run now r target err = Inr r' \<Longrightarrow> run_status r' = target"
  by (auto simp: transition_run_def Let_def split: if_splits)

lemma transition_run_allowed:
  "(\<exists>r'. transition_run now r target err = Inr r') \<longleftrightarrow>
     target = run_status r \<or> target \<in> set (ALLOWED_TRANSITIONS (run_status r))"
  by (auto simp: transition_run_def Let_def)

text \<open>Fields a transition never touches.\<close>

lemma transition_run_frame:
  assumes "transition_run now r target err = Inr r'"
  shows "run_id r' = run_id r" "run_task_id r' = run_task_id r"
    "run_computer_id r' = run_computer_id r" "run_epoch r' = run_epoch r"
    "run_last_event_seq r' = run_last_event_seq r" "run_last_event_id r' = run_last_event_id r"
    "run_checkpoint r' = run_checkpoint r" "run_resume_mode r' = run_resume_mode r"
    "run_recovery_count r' = run_recovery_count r" "run_created_at r' = run_created_at r"
  using assms by (auto simp: transition_run_def Let_def split: if_splits)

lemma transition_run_lease:
  assumes "transition_run now r target err = Inr r'"
  shows "run_lease_id r' =
           (if target \<noteq> run_status r \<and> terminal target then None else run_lease_id r)"
    and "run_lease_expires_at r' =
           (if target \<noteq> run_status r \<and> terminal target then None else run_lease_expires_at r)"
  using assms by (auto simp: transition_run_def Let_def split: if_splits)

lemma transition_run_error:
  assumes "transition_run now r target err = Inr r'"
  shows "run_last_error r' = (if target = run_status r then run_last_error r else err)"
  using assms by (auto simp: transition_run_def Let_def split: if_splits)

section \<open>The lease discipline\<close>

text \<open>
  A run holds a lease id exactly when it holds a lease deadline; a run that has ended or has never
  been claimed holds neither. Epochs start at one and sequence numbers are never negative.
\<close>

definition run_ok :: "task_run \<Rightarrow> bool" where
  "run_ok r \<longleftrightarrow>
     (run_lease_id r = None \<longleftrightarrow> run_lease_expires_at r = None) \<and>
     (terminal (run_status r) \<or> run_status r = Queued \<longrightarrow> run_lease_id r = None) \<and>
     1 \<le> run_epoch r \<and> 0 \<le> run_last_event_seq r"

lemma run_ok_new [simp]: "run_ok (new_run now i t c)"
  by (simp add: run_ok_def new_run_def)

lemma Queued_not_allowed: "Queued \<notin> set (ALLOWED_TRANSITIONS s)"
  by (cases s) simp_all

lemma transition_run_ok:
  assumes "transition_run now r target err = Inr r'" and "run_ok r"
  shows "run_ok r'"
proof (cases "target = run_status r")
  case True
  then show ?thesis using assms by (simp add: transition_run_def)
next
  case False
  then have "target \<in> set (ALLOWED_TRANSITIONS (run_status r))"
    using assms(1) transition_run_allowed by metis
  then have "target \<noteq> Queued" using Queued_not_allowed by metis
  then show ?thesis
    using assms(2) False transition_run_status [OF assms(1)] transition_run_lease [OF assms(1)]
      transition_run_frame [OF assms(1)]
    by (auto simp: run_ok_def)
qed

section \<open>Paths through the table\<close>

inductive status_path :: "run_status \<Rightarrow> run_status \<Rightarrow> bool" where
  path_refl: "status_path s s"
| path_step: "status_path s t \<Longrightarrow> u \<in> set (ALLOWED_TRANSITIONS t) \<Longrightarrow> status_path s u"

inductive_cases path_cases: "status_path s t"

lemma status_path_absorbing:
  "status_path s t \<Longrightarrow> s \<in> {Completed, Cancelled} \<Longrightarrow> t = s"
  by (induction rule: status_path.induct) auto

lemma status_path_queued: "status_path s t \<Longrightarrow> t = Queued \<Longrightarrow> s = Queued"
  by (erule path_cases) (auto dest: Queued_not_allowed [THEN notE])

text \<open>Every status that is not absorbing can still reach each of the three ends.\<close>

lemma status_path_trans: "status_path t u \<Longrightarrow> status_path s t \<Longrightarrow> status_path s u"
  by (induction rule: status_path.induct) (auto intro: path_step)

lemma status_path_to_end:
  assumes "s \<notin> {Completed, Cancelled}"
  shows "status_path s Cancelled"
proof (cases s)
  case Failed
  have "status_path Failed Recovering" by (rule path_step [OF path_refl]) simp
  then show ?thesis unfolding Failed by (rule path_step) simp
qed (use assms in \<open>auto intro!: path_step [OF path_refl]\<close>)

section \<open>The contract of an \<open>update_run\<close> callback\<close>

text \<open>
  An operation that mutates one run may fail, and when it succeeds it keeps the run's identity, its
  lease discipline and its position: the epoch never falls, and within one epoch the last event
  sequence never falls.
\<close>

definition run_le :: "task_run \<Rightarrow> task_run \<Rightarrow> bool" where
  "run_le r r' \<longleftrightarrow> run_epoch r < run_epoch r' \<or>
     (run_epoch r = run_epoch r' \<and> run_last_event_seq r \<le> run_last_event_seq r')"

lemma run_le_refl [simp]: "run_le r r"
  by (simp add: run_le_def)

lemma run_le_trans: "run_le r s \<Longrightarrow> run_le s t \<Longrightarrow> run_le r t"
  by (auto simp: run_le_def)

locale run_operation =
  fixes op :: "task_run \<Rightarrow> task_run result"
  assumes op_identity: "op r = Inr r' \<Longrightarrow> run_id r' = run_id r \<and> run_task_id r' = run_task_id r"
    and op_ok: "op r = Inr r' \<Longrightarrow> run_ok r \<Longrightarrow> run_ok r'"
    and op_le: "op r = Inr r' \<Longrightarrow> run_ok r \<Longrightarrow> run_le r r'"
begin

text \<open>Applying the operation any number of times keeps the same three facts.\<close>

fun iterate :: "nat \<Rightarrow> task_run \<Rightarrow> task_run result" where
  "iterate 0 r = Inr r"
| "iterate (Suc n) r = (case op r of Inl e \<Rightarrow> Inl e | Inr r' \<Rightarrow> iterate n r')"

lemma iterate_contract:
  "iterate n r = Inr r' \<Longrightarrow> run_ok r \<Longrightarrow> run_ok r' \<and> run_le r r' \<and> run_id r' = run_id r"
proof (induction n arbitrary: r)
  case (Suc n)
  from Suc.prems obtain s where s: "op r = Inr s" and it: "iterate n s = Inr r'"
    by (auto split: sum.splits)
  have "run_ok s" using op_ok [OF s] Suc.prems(2) .
  from Suc.IH [OF it this] show ?case
    using op_le [OF s Suc.prems(2)] op_identity [OF s] run_le_trans by auto
qed simp

end

interpretation transition_op: run_operation "\<lambda>r. transition_run now r target err" for now target err
  by unfold_locales
    (auto simp: run_le_def dest: transition_run_frame intro: transition_run_ok)

end
