(* ===== verification/Document_Store.thy ===== *)
theory Document_Store
  imports Run_State
begin

text \<open>
  One collection of the local control-plane store (\<open>_save\<close>, \<open>_delete\<close>, \<open>_get\<close>, \<open>_list\<close>,
  \<open>_list_for_parent\<close>, \<open>_index_document\<close>, \<open>_rebuild_parent_index\<close>, \<open>_parent_id\<close> and \<open>_path\<close> of
  \<^verbatim>\<open>src/cowork/coding/control_store.py\<close>), and the interface the control plane relies on.

  A collection is a directory with one JSON file per document, and an in-memory index from a parent
  id to the ids of its documents. The source shares one generic implementation between ten
  collections and picks the pydantic class by name; here the class is a \<open>model\<close> record and the
  operations are polymorphic in the document type. The order of a directory listing and of a Python
  set is not specified; the model keeps insertion order.

  The locale \<open>document_store\<close> states what a collection promises through a view from ids to
  documents. The local collections interpret it in \<^verbatim>\<open>Control_Store\<close> and the rows of the SQL table in \<^verbatim>\<open>Sql_Simulation\<close>.
\<close>

record 'd model =
  m_name :: string
  m_indexed :: bool
  m_id :: "'d \<Rightarrow> string"
  m_parent :: "'d \<Rightarrow> string option"
  m_stamp :: "'d \<Rightarrow> time"
  m_valid :: "'d \<Rightarrow> bool"

record 'd coll =
  docs :: "(string \<times> 'd) list"
  parent_index :: "(string \<times> string list) list"

definition empty_coll :: "'d coll" where
  "empty_coll = \<lparr>docs = [], parent_index = []\<rparr>"

section \<open>Paths and the parent index\<close>

text \<open>\<open>_path\<close>: a document id must be a non-empty word over letters, digits, hyphen and underscore.\<close>

definition path_ok :: "string \<Rightarrow> bool" where
  "path_ok i \<longleftrightarrow> i \<noteq> [] \<and> list_all id_char i"

definition invalid_id :: error where
  "invalid_id = ValueError ''invalid control-plane document id''"

definition discard_id :: "string \<Rightarrow> (string \<times> string list) list \<Rightarrow> (string \<times> string list) list" where
  "discard_id i ix = map (\<lambda>(p, ids). (p, filter (\<lambda>j. j \<noteq> i) ids)) ix"

definition index_ids :: "(string \<times> string list) list \<Rightarrow> string \<Rightarrow> string list" where
  "index_ids ix p = (case map_of ix p of None \<Rightarrow> [] | Some ids \<Rightarrow> ids)"

definition index_document ::
  "'d model \<Rightarrow> 'd \<Rightarrow> (string \<times> string list) list \<Rightarrow> (string \<times> string list) list" where
  "index_document m d ix =
     (if \<not> m_indexed m then ix
      else
        let ix' = discard_id (m_id m d) ix
        in case m_parent m d of
             None \<Rightarrow> ix'
           | Some p \<Rightarrow> al_put p (index_ids ix' p @ [m_id m d]) ix')"

section \<open>Operations\<close>

definition coll_save :: "'d model \<Rightarrow> 'd \<Rightarrow> ('d coll, 'd) comp" where
  "coll_save m d c =
     (if \<not> path_ok (m_id m d) then (Inl invalid_id, c)
      else (Inr d, c\<lparr>docs := al_put (m_id m d) d (docs c),
                     parent_index := index_document m d (parent_index c)\<rparr>))"

definition coll_delete :: "'d model \<Rightarrow> string \<Rightarrow> ('d coll, unit) comp" where
  "coll_delete m i c =
     (if \<not> path_ok i then (Inl invalid_id, c)
      else (Inr (), c\<lparr>docs := al_del i (docs c),
                      parent_index := filter (\<lambda>(p, ids). ids \<noteq> []) (discard_id i (parent_index c))\<rparr>))"

definition lookup_doc :: "'d model \<Rightarrow> string \<Rightarrow> (string \<rightharpoonup> 'd) \<Rightarrow> 'd result" where
  "lookup_doc m i view =
     (case view i of
        None \<Rightarrow> Inl (KeyError (m_name m @ '' not found''))
      | Some d \<Rightarrow> if m_valid m d then Inr d else Inl (ValidationError (m_name m)))"

definition coll_get :: "'d model \<Rightarrow> string \<Rightarrow> ('d coll, 'd) comp" where
  "coll_get m i c =
     (if \<not> path_ok i then Inl invalid_id else lookup_doc m i (map_of (docs c)), c)"

text \<open>\<open>_list\<close> skips a file that does not parse or does not validate.\<close>

definition coll_list :: "'d model \<Rightarrow> ('d coll, 'd list) comp" where
  "coll_list m c = (Inr (sorted_desc (m_stamp m) (filter (m_valid m) (map snd (docs c)))), c)"

text \<open>\<open>_list_for_parent\<close> skips only missing files: a \<open>KeyError\<close> is caught, a validation error is not.\<close>

fun gather :: "(string \<Rightarrow> 'd result) \<Rightarrow> string list \<Rightarrow> 'd list result" where
  "gather get [] = Inr []"
| "gather get (i # ids) =
     (case get i of
        Inl (KeyError _) \<Rightarrow> gather get ids
      | Inl e \<Rightarrow> Inl e
      | Inr d \<Rightarrow> (case gather get ids of Inl e \<Rightarrow> Inl e | Inr ds \<Rightarrow> Inr (d # ds)))"

definition coll_children :: "'d model \<Rightarrow> string \<Rightarrow> ('d coll, 'd list) comp" where
  "coll_children m p c =
     (case gather (\<lambda>i. fst (coll_get m i c)) (index_ids (parent_index c) p) of
        Inl e \<Rightarrow> (Inl e, c)
      | Inr ds \<Rightarrow> (Inr (sorted_desc (m_stamp m) ds), c))"

text \<open>\<open>_rebuild_parent_index\<close>: at start-up every valid document of the directory is indexed again.\<close>

definition rebuild_index :: "'d model \<Rightarrow> 'd coll \<Rightarrow> 'd coll" where
  "rebuild_index m c =
     c\<lparr>parent_index := fold (index_document m)
         (sorted_desc (m_stamp m) (filter (m_valid m) (map snd (docs c)))) []\<rparr>"

section \<open>The collection invariant\<close>

text \<open>
  File names are the document ids, and the index lists under a parent exactly the ids of the
  documents whose parent it is.
\<close>

definition index_exact :: "'d model \<Rightarrow> (string \<rightharpoonup> 'd) \<Rightarrow> (string \<times> string list) list \<Rightarrow> bool" where
  "index_exact m view ix \<longleftrightarrow> distinct (map fst ix) \<and>
     (\<forall>p. distinct (index_ids ix p)) \<and>
     (\<forall>p i. i \<in> set (index_ids ix p) \<longleftrightarrow> (\<exists>d. view i = Some d \<and> m_parent m d = Some p))"

definition coll_inv :: "'d model \<Rightarrow> 'd coll \<Rightarrow> bool" where
  "coll_inv m c \<longleftrightarrow> distinct (map fst (docs c)) \<and>
     (\<forall>i d. map_of (docs c) i = Some d \<longrightarrow> m_id m d = i \<and> path_ok i) \<and>
     (m_indexed m \<longrightarrow> index_exact m (map_of (docs c)) (parent_index c))"

lemma coll_inv_empty [simp]: "coll_inv m empty_coll"
  by (simp add: coll_inv_def empty_coll_def index_exact_def index_ids_def)

lemma index_ids_discard [simp]:
  "index_ids (discard_id i ix) p = filter (\<lambda>j. j \<noteq> i) (index_ids ix p)"
proof -
  have "map_of (discard_id i ix) p = map_option (filter (\<lambda>j. j \<noteq> i)) (map_of ix p)"
    by (induction ix) (auto simp: discard_id_def)
  then show ?thesis by (simp add: index_ids_def split: option.splits)
qed

lemma fst_discard [simp]: "map fst (discard_id i ix) = map fst ix"
  by (induction ix) (auto simp: discard_id_def)

lemma index_ids_put [simp]:
  "index_ids (al_put p ids ix) q = (if q = p then ids else index_ids ix q)"
  by (simp add: index_ids_def)

lemma index_exact_save:
  assumes "index_exact m view ix" and "m_indexed m"
  shows "index_exact m (view(m_id m d \<mapsto> d)) (index_document m d ix)"
  using assms by (cases "m_parent m d") (auto simp: index_exact_def index_document_def Let_def)

lemma map_of_filter_nonempty:
  assumes "distinct (map fst ix)"
  shows "index_ids (filter (\<lambda>(p, ids). ids \<noteq> []) ix) q = index_ids ix q"
  using assms
proof (induction ix)
  case (Cons a ix)
  obtain p ids where a: "a = (p, ids)" by (cases a)
  have none: "map_of ix q = None" if "p = q"
    using Cons.prems that a by (auto simp: map_of_eq_None_iff)
  have none': "map_of (filter (\<lambda>(p, ids). ids \<noteq> []) ix) q = None" if "p = q"
    using Cons.prems that a by (auto simp: map_of_eq_None_iff)
  show ?case using Cons a none none' by (auto simp: index_ids_def)
qed simp

lemma index_exact_delete:
  assumes "index_exact m view ix"
  shows "index_exact m (view(i := None)) (filter (\<lambda>(p, ids). ids \<noteq> []) (discard_id i ix))"
proof -
  have d: "distinct (map fst (discard_id i ix))" using assms by (simp add: index_exact_def)
  then have "distinct (map fst (filter (\<lambda>(p, ids). ids \<noteq> []) (discard_id i ix)))"
    by (rule distinct_map_filter)
  then show ?thesis
    using assms by (auto simp: index_exact_def map_of_filter_nonempty [OF d])
qed

lemma coll_save_inv: "coll_inv m c \<Longrightarrow> coll_inv m (snd (coll_save m d c))"
  by (auto simp: coll_inv_def coll_save_def simp del: map_of_eq_Some_iff
      intro!: index_exact_save split: if_splits)

lemma coll_save_view:
  "map_of (docs (snd (coll_save m d c))) =
     (if path_ok (m_id m d) then (map_of (docs c))(m_id m d \<mapsto> d) else map_of (docs c))"
  by (simp add: coll_save_def)

lemma coll_delete_inv: "coll_inv m c \<Longrightarrow> coll_inv m (snd (coll_delete m i c))"
  by (auto simp: coll_inv_def coll_delete_def simp del: map_of_eq_Some_iff
      intro!: index_exact_delete split: if_splits)

lemma coll_get_state [simp]: "snd (coll_get m i c) = c"
  by (simp add: coll_get_def)

lemma coll_list_state [simp]: "snd (coll_list m c) = c"
  by (simp add: coll_list_def)

lemma coll_children_state [simp]: "snd (coll_children m p c) = c"
  by (simp add: coll_children_def split: sum.splits)

section \<open>What a listing returns\<close>

lemma gather_cong: "(\<And>i. i \<in> set ids \<Longrightarrow> f i = g i) \<Longrightarrow> gather f ids = gather g ids"
  by (induction ids) (auto split: sum.splits error.splits)

text \<open>The children of a parent, when each of them still validates.\<close>

lemma gather_valid:
  assumes "\<forall>i \<in> set ids. \<exists>d. view i = Some d \<and> m_valid m d"
  shows "gather (\<lambda>i. lookup_doc m i view) ids = Inr (map (\<lambda>i. the (view i)) ids)"
  using assms by (induction ids) (auto simp: lookup_doc_def)

lemma coll_children_view:
  assumes inv: "coll_inv m c" and ix: "m_indexed m"
    and ok: "\<forall>i d. map_of (docs c) i = Some d \<longrightarrow> m_parent m d = Some p \<longrightarrow> m_valid m d"
  shows "\<exists>ds. coll_children m p c = (Inr ds, c) \<and> distinct (map (m_id m) ds) \<and>
    set ds = {d. map_of (docs c) (m_id m d) = Some d \<and> m_parent m d = Some p}"
proof -
  let ?ids = "index_ids (parent_index c) p"
  let ?v = "map_of (docs c)"
  have ex: "distinct ?ids" "\<And>i. i \<in> set ?ids \<longleftrightarrow> (\<exists>d. ?v i = Some d \<and> m_parent m d = Some p)"
    using inv ix by (auto simp: coll_inv_def index_exact_def)
  have idd: "\<And>i d. ?v i = Some d \<Longrightarrow> m_id m d = i \<and> path_ok i" using inv by (auto simp: coll_inv_def)
  have all: "\<forall>i \<in> set ?ids. \<exists>d. ?v i = Some d \<and> m_valid m d" using ex ok by blast
  have get: "\<forall>i \<in> set ?ids. fst (coll_get m i c) = lookup_doc m i ?v"
    using ex idd by (auto simp: coll_get_def)
  have "gather (\<lambda>i. fst (coll_get m i c)) ?ids = gather (\<lambda>i. lookup_doc m i ?v) ?ids"
    using get by (auto intro: gather_cong)
  also have "\<dots> = Inr (map (\<lambda>i. the (?v i)) ?ids)" by (rule gather_valid [OF all])
  finally have g: "coll_children m p c = (Inr (sorted_desc (m_stamp m) (map (\<lambda>i. the (?v i)) ?ids)), c)"
    by (simp add: coll_children_def)
  have idm: "map (m_id m) (map (\<lambda>i. the (?v i)) ?ids) = ?ids"
    using ex idd by (auto intro!: map_idI)
  have "distinct (map (m_id m) (sorted_desc (m_stamp m) (map (\<lambda>i. the (?v i)) ?ids)))"
    using ex(1) idm
    by (metis distinct_map distinct_sorted_desc set_sorted_desc)
  moreover have "set (map (\<lambda>i. the (?v i)) ?ids) =
      {d. ?v (m_id m d) = Some d \<and> m_parent m d = Some p}"
    using ex idd by (auto simp: image_iff) (metis option.sel)+
  ultimately show ?thesis using g by auto
qed

text \<open>One document under the parent that no longer validates makes the whole listing raise.\<close>

lemma gather_invalid:
  assumes "i \<in> set ids" and "get i = Inl (ValidationError n)"
    and "\<forall>j \<in> set ids. \<forall>e. get j = Inl e \<longrightarrow> (\<exists>k. e = KeyError k) \<or> e = ValidationError n"
  shows "gather get ids = Inl (ValidationError n)"
  using assms
proof (induction ids)
  case (Cons j ids)
  show ?case
  proof (cases "get j")
    case (Inl e)
    then consider k where "e = KeyError k" | "e = ValidationError n" using Cons.prems(3) by auto
    then show ?thesis
    proof cases
      case 1
      then have "i \<in> set ids" using Cons.prems Inl by auto
      then show ?thesis using Cons 1 Inl by simp
    next
      case 2
      then show ?thesis using Inl by simp
    qed
  next
    case (Inr d)
    then have "i \<in> set ids" using Cons.prems by auto
    then show ?thesis using Cons Inr by simp
  qed
qed simp

lemma coll_children_invalid:
  assumes inv: "coll_inv m c" and ix: "m_indexed m"
    and bad: "map_of (docs c) i = Some d" "m_parent m d = Some p" "\<not> m_valid m d"
  shows "coll_children m p c = (Inl (ValidationError (m_name m)), c)"
proof -
  let ?ids = "index_ids (parent_index c) p"
  have idd: "\<And>i d. map_of (docs c) i = Some d \<Longrightarrow> path_ok i" using inv by (auto simp: coll_inv_def)
  have i: "i \<in> set ?ids" using inv ix bad by (auto simp: coll_inv_def index_exact_def)
  have ex: "\<And>j. j \<in> set ?ids \<Longrightarrow> \<exists>d. map_of (docs c) j = Some d"
    using inv ix by (auto simp: coll_inv_def index_exact_def)
  have "gather (\<lambda>i. fst (coll_get m i c)) ?ids = Inl (ValidationError (m_name m))"
  proof (rule gather_invalid [OF i])
    show "fst (coll_get m i c) = Inl (ValidationError (m_name m))"
      using bad idd by (simp add: coll_get_def lookup_doc_def)
    show "\<forall>j\<in>set ?ids. \<forall>e. fst (coll_get m j c) = Inl e \<longrightarrow>
        (\<exists>k. e = KeyError k) \<or> e = ValidationError (m_name m)"
      using ex idd by (auto simp: coll_get_def lookup_doc_def split: option.splits if_splits)
  qed
  then show ?thesis by (simp add: coll_children_def)
qed

section \<open>Rebuilding the index at start-up\<close>

lemma fold_index_exact:
  assumes "m_indexed m" and "index_exact m view ix"
  shows "index_exact m (fold (\<lambda>d v. v(m_id m d \<mapsto> d)) ds view) (fold (index_document m) ds ix)"
  using assms by (induction ds arbitrary: view ix) (auto intro!: index_exact_save)

lemma fold_put_view:
  "distinct (map (m_id m) ds) \<Longrightarrow>
   fold (\<lambda>d v. v(m_id m d \<mapsto> d)) ds view i =
     (case find (\<lambda>d. m_id m d = i) ds of None \<Rightarrow> view i | Some d \<Rightarrow> Some d)"
proof (induction ds arbitrary: view)
  case (Cons d ds)
  have "find (\<lambda>e. m_id m e = m_id m d) ds = None"
    using Cons.prems unfolding find_None_iff by (metis distinct.simps(2) image_eqI list.map(2) list.set_map)
  then show ?case using Cons by (auto split: option.splits)
qed simp

lemma rebuild_index_inv:
  assumes d: "distinct (map fst (docs c))"
    and i: "\<forall>i d. map_of (docs c) i = Some d \<longrightarrow> m_id m d = i \<and> path_ok i"
    and v: "\<forall>i d. map_of (docs c) i = Some d \<longrightarrow> m_valid m d"
  shows "coll_inv m (rebuild_index m c)"
proof -
  let ?ds = "sorted_desc (m_stamp m) (filter (m_valid m) (map snd (docs c)))"
  have all: "filter (m_valid m) (map snd (docs c)) = map snd (docs c)"
    using v d by (auto intro!: filter_True)
  have ids: "map (m_id m) (map snd (docs c)) = map fst (docs c)"
    using i d by auto
  have dist: "distinct (map (m_id m) ?ds)"
    unfolding all using d ids by (metis distinct_map distinct_sorted_desc set_sorted_desc)
  have view: "fold (\<lambda>d v. v(m_id m d \<mapsto> d)) ?ds Map.empty = map_of (docs c)"
  proof
    fix k
    show "fold (\<lambda>d v. v(m_id m d \<mapsto> d)) ?ds Map.empty k = map_of (docs c) k"
    proof (cases "find (\<lambda>d. m_id m d = k) ?ds")
      case None
      then have "\<forall>d \<in> snd ` set (docs c). m_id m d \<noteq> k"
        using all by (auto simp: find_None_iff)
      then have "map_of (docs c) k = None"
        using i d by (cases "map_of (docs c) k") (auto simp: image_iff)
      then show ?thesis using None fold_put_view [OF dist] by simp
    next
      case (Some x)
      then have "x \<in> set ?ds" and k: "m_id m x = k" using find_SomeD [OF Some] by auto
      then obtain j where "(j, x) \<in> set (docs c)" using all by auto
      then have "map_of (docs c) k = Some x" using i d k by fastforce
      then show ?thesis using Some fold_put_view [OF dist] by simp
    qed
  qed
  have "index_exact m Map.empty []" by (simp add: index_exact_def index_ids_def)
  then have "m_indexed m \<Longrightarrow> index_exact m (map_of (docs c)) (fold (index_document m) ?ds [])"
    using fold_index_exact [of m Map.empty "[]" ?ds] view by simp
  then show ?thesis using d i by (simp add: coll_inv_def rebuild_index_def)
qed

section \<open>The collection contract\<close>

locale document_store =
  fixes save :: "'d \<Rightarrow> ('s, 'd) comp"
    and get :: "string \<Rightarrow> ('s, 'd) comp"
    and remove :: "string \<Rightarrow> ('s, unit) comp"
    and children :: "string \<Rightarrow> ('s, 'd list) comp"
    and view :: "'s \<Rightarrow> string \<rightharpoonup> 'd"
    and inv :: "'s \<Rightarrow> bool"
    and key :: "'d \<Rightarrow> string"
    and parent :: "'d \<Rightarrow> string option"
    and valid :: "'d \<Rightarrow> bool"
    and writable :: "string \<Rightarrow> bool"
  assumes save_ok: "inv s \<Longrightarrow> writable (key d) \<Longrightarrow>
      \<exists>t. save d s = (Inr d, t) \<and> inv t \<and> view t = (view s)(key d \<mapsto> d)"
    and remove_ok: "inv s \<Longrightarrow> writable i \<Longrightarrow>
      \<exists>t. remove i s = (Inr (), t) \<and> inv t \<and> view t = (view s)(i := None)"
    and get_found: "inv s \<Longrightarrow> view s i = Some d \<Longrightarrow> valid d \<Longrightarrow> get i s = (Inr d, s)"
    and get_missing: "inv s \<Longrightarrow> writable i \<Longrightarrow> view s i = None \<Longrightarrow> \<exists>k. get i s = (Inl (KeyError k), s)"
    and view_key: "inv s \<Longrightarrow> view s i = Some d \<Longrightarrow> key d = i \<and> writable i"
    and children_ok: "inv s \<Longrightarrow> (\<forall>i d. view s i = Some d \<longrightarrow> parent d = Some p \<longrightarrow> valid d) \<Longrightarrow>
      \<exists>ds. children p s = (Inr ds, s) \<and> distinct (map key ds) \<and>
           set ds = {d. view s (key d) = Some d \<and> parent d = Some p}"
begin

text \<open>A saved document is read back; other documents are unaffected.\<close>

lemma save_then_get:
  assumes "inv s" and "writable (key d)" and "valid d"
  shows "\<exists>t. save d s = (Inr d, t) \<and> inv t \<and> get (key d) t = (Inr d, t) \<and>
    (\<forall>i. i \<noteq> key d \<longrightarrow> view t i = view s i)"
proof -
  obtain t where t: "save d s = (Inr d, t)" "inv t" "view t = (view s)(key d \<mapsto> d)"
    using save_ok assms by blast
  then have "get (key d) t = (Inr d, t)" using get_found assms by simp
  then show ?thesis using t by auto
qed

text \<open>Removing a list of ids removes exactly those.\<close>

lemma remove_list:
  assumes "inv s" and "\<forall>i \<in> set ids. writable i"
  shows "\<exists>us t. smapM remove ids s = (Inr us, t) \<and> inv t \<and>
    view t = (\<lambda>i. if i \<in> set ids then None else view s i)"
  using assms
proof (induction ids arbitrary: s)
  case (Cons i ids)
  obtain u where u: "remove i s = (Inr (), u)" "inv u" "view u = (view s)(i := None)"
    using remove_ok Cons.prems by fastforce
  obtain us t where t: "smapM remove ids u = (Inr us, t)" "inv t"
      "view t = (\<lambda>j. if j \<in> set ids then None else view u j)"
    using Cons.IH u(2) Cons.prems(2) by fastforce
  have "smapM remove (i # ids) s = (Inr (() # us), t)" using u t by simp
  then show ?case using t u by (auto simp: fun_eq_iff)
qed simp

text \<open>The cascade: list the documents of a parent and remove each of them.\<close>

lemma remove_children:
  assumes inv: "inv s"
    and ok: "\<forall>i d. view s i = Some d \<longrightarrow> parent d = Some p \<longrightarrow> valid d"
  shows "\<exists>us t. sbind (children p) (\<lambda>ds. smapM (\<lambda>d. remove (key d)) ds) s = (Inr us, t) \<and> inv t \<and>
    view t = (\<lambda>i. case view s i of None \<Rightarrow> None
                 | Some d \<Rightarrow> if parent d = Some p then None else Some d)"
proof -
  obtain ds where ds: "children p s = (Inr ds, s)"
      "set ds = {d. view s (key d) = Some d \<and> parent d = Some p}"
    using children_ok [OF inv ok] by blast
  have w: "\<forall>i \<in> set (map key ds). writable i" using ds view_key [OF inv] by auto
  have eq: "smapM (\<lambda>d. remove (key d)) ds = smapM remove (map key ds)"
    by (induction ds) simp_all
  obtain us t where t: "smapM remove (map key ds) s = (Inr us, t)" "inv t"
      "view t = (\<lambda>i. if i \<in> set (map key ds) then None else view s i)"
    using remove_list [OF inv w] by blast
  have mem: "i \<in> set (map key ds) \<longleftrightarrow> (\<exists>d. view s i = Some d \<and> parent d = Some p)" for i
    using ds(2) view_key [OF inv] by (auto simp: image_iff)
  have "view t = (\<lambda>i. case view s i of None \<Rightarrow> None
                 | Some d \<Rightarrow> if parent d = Some p then None else Some d)"
    unfolding t(3) using mem by (auto simp: fun_eq_iff split: option.splits)
  then show ?thesis using ds t eq by auto
qed

end

lemma coll_contract:
  assumes "m_indexed m"
  shows "document_store (coll_save m) (coll_get m) (coll_delete m) (coll_children m)
    (\<lambda>c. map_of (docs c)) (coll_inv m) (m_id m) (m_parent m) (m_valid m) path_ok"
proof
  fix s :: "'a coll" and d :: 'a
  assume "coll_inv m s" "path_ok (m_id m d)"
  then show "\<exists>t. coll_save m d s = (Inr d, t) \<and> coll_inv m t \<and>
      map_of (docs t) = (map_of (docs s))(m_id m d \<mapsto> d)"
    using coll_save_inv [of m s d] by (simp add: coll_save_def)
next
  fix s :: "'a coll" and i
  assume "coll_inv m s" "path_ok i"
  then show "\<exists>t. coll_delete m i s = (Inr (), t) \<and> coll_inv m t \<and>
      map_of (docs t) = (map_of (docs s))(i := None)"
    using coll_delete_inv [of m s i] by (simp add: coll_delete_def)
next
  fix s :: "'a coll" and i d
  assume "coll_inv m s" "map_of (docs s) i = Some d" "m_valid m d"
  moreover from this have "path_ok i" unfolding coll_inv_def by blast
  ultimately show "coll_get m i s = (Inr d, s)" by (simp add: coll_get_def lookup_doc_def)
next
  fix s :: "'a coll" and i d
  assume "coll_inv m s" "map_of (docs s) i = Some d"
  then show "m_id m d = i \<and> path_ok i" unfolding coll_inv_def by blast
next
  fix s :: "'a coll" and p
  assume "coll_inv m s"
    "\<forall>i d. map_of (docs s) i = Some d \<longrightarrow> m_parent m d = Some p \<longrightarrow> m_valid m d"
  then show "\<exists>ds. coll_children m p s = (Inr ds, s) \<and> distinct (map (m_id m) ds) \<and>
      set ds = {d. map_of (docs s) (m_id m d) = Some d \<and> m_parent m d = Some p}"
    by (rule coll_children_view [OF _ assms])
qed (simp add: coll_get_def lookup_doc_def)

end
