(* ===== verification/Control_Store.thy ===== *)
theory Control_Store
  imports Document_Store
begin

text \<open>
  \<open>LocalControlPlaneStore\<close> of \<^verbatim>\<open>src/cowork/coding/control_store.py\<close>: ten collections, the typed
  methods the control plane calls, and the composite operations (\<open>create_task_run\<close>, \<open>claim_run\<close>,
  \<open>update_run\<close>, \<open>update_grant\<close>, \<open>consume_registration_credential\<close>, \<open>save_audit_event\<close>, \<open>delete_task\<close>,
  \<open>prune\<close>). Every method of the source runs under the store's lock, so one method is one step.

  The argument \<open>now\<close> is the reading of \<open>utc_now()\<close> for the whole operation; the source may read the
  clock more than once inside one call.
\<close>

section \<open>State\<close>

record local_store =
  computers :: "computer coll"
  tasks :: "code_task coll"
  runs :: "task_run coll"
  workspaces :: "execution_workspace coll"
  grants :: "connector_grant coll"
  commands :: "runtime_command coll"
  runtime_credentials :: "runtime_credential coll"
  registration_credentials :: "registration_credential coll"
  run_credentials :: "run_credential coll"
  audit :: "audit_event coll"
  local_name_file :: "string option"
  local_id_file :: "string option"

text \<open>The last two fields are the other files of the control directory, \<open>local-computer-name\<close> and
  \<open>local-computer-id\<close>.\<close>

definition empty_store :: local_store where
  "empty_store = \<lparr>computers = empty_coll, tasks = empty_coll, runs = empty_coll,
     workspaces = empty_coll, grants = empty_coll, commands = empty_coll,
     runtime_credentials = empty_coll, registration_credentials = empty_coll,
     run_credentials = empty_coll, audit = empty_coll, local_name_file = None,
     local_id_file = None\<rparr>"

text \<open>\<open>_parent_id\<close>: an empty parent id counts as none.\<close>

definition parent_of :: "string \<Rightarrow> string option" where
  "parent_of p = (if p = [] then None else Some p)"

definition computer_model :: "computer model" where
  "computer_model = \<lparr>m_name = ''Computer'', m_indexed = False, m_id = comp_id,
     m_parent = (\<lambda>_. None), m_stamp = comp_updated_at, m_valid = valid_computer\<rparr>"

definition task_model :: "code_task model" where
  "task_model = \<lparr>m_name = ''CodeTask'', m_indexed = False, m_id = task_id,
     m_parent = (\<lambda>_. None), m_stamp = task_updated_at, m_valid = valid_task\<rparr>"

definition run_model :: "task_run model" where
  "run_model = \<lparr>m_name = ''TaskRun'', m_indexed = True, m_id = run_id,
     m_parent = (\<lambda>r. parent_of (run_task_id r)), m_stamp = run_updated_at, m_valid = valid_run\<rparr>"

definition workspace_model :: "execution_workspace model" where
  "workspace_model = \<lparr>m_name = ''ExecutionWorkspace'', m_indexed = True, m_id = ws_id,
     m_parent = (\<lambda>w. parent_of (ws_run_id w)), m_stamp = ws_updated_at, m_valid = valid_workspace\<rparr>"

definition grant_model :: "connector_grant model" where
  "grant_model = \<lparr>m_name = ''ConnectorGrant'', m_indexed = True, m_id = grant_id,
     m_parent = (\<lambda>g. parent_of (grant_run_id g)), m_stamp = grant_created_at, m_valid = valid_grant\<rparr>"

definition command_model :: "runtime_command model" where
  "command_model = \<lparr>m_name = ''RuntimeCommand'', m_indexed = True, m_id = cmd_id,
     m_parent = (\<lambda>c. parent_of (cmd_run_id c)), m_stamp = cmd_created_at, m_valid = valid_command\<rparr>"

definition runtime_credential_model :: "runtime_credential model" where
  "runtime_credential_model = \<lparr>m_name = ''RuntimeCredential'', m_indexed = False, m_id = rc_id,
     m_parent = (\<lambda>_. None), m_stamp = rc_created_at, m_valid = valid_runtime_credential\<rparr>"

definition registration_credential_model :: "registration_credential model" where
  "registration_credential_model = \<lparr>m_name = ''RuntimeRegistrationCredential'', m_indexed = False,
     m_id = reg_id, m_parent = (\<lambda>_. None), m_stamp = reg_created_at,
     m_valid = valid_registration_credential\<rparr>"

definition run_credential_model :: "run_credential model" where
  "run_credential_model = \<lparr>m_name = ''TaskRunCredential'', m_indexed = True, m_id = tc_id,
     m_parent = (\<lambda>c. parent_of (tc_run_id c)), m_stamp = tc_created_at,
     m_valid = valid_run_credential\<rparr>"

definition audit_model :: "audit_event model" where
  "audit_model = \<lparr>m_name = ''SecurityAuditEvent'', m_indexed = True, m_id = audit_id,
     m_parent = (\<lambda>a. case audit_run_id a of None \<Rightarrow> None | Some r \<Rightarrow> parent_of r),
     m_stamp = audit_created_at, m_valid = valid_audit_event\<rparr>"

lemmas model_defs = computer_model_def task_model_def run_model_def workspace_model_def
  grant_model_def command_model_def runtime_credential_model_def registration_credential_model_def
  run_credential_model_def audit_model_def

interpretation run_docs: document_store
  "coll_save run_model" "coll_get run_model" "coll_delete run_model" "coll_children run_model"
  "\<lambda>c. map_of (docs c)" "coll_inv run_model" "m_id run_model" "m_parent run_model"
  "m_valid run_model" path_ok
  by (rule coll_contract) (simp add: run_model_def)

interpretation workspace_docs: document_store
  "coll_save workspace_model" "coll_get workspace_model" "coll_delete workspace_model"
  "coll_children workspace_model" "\<lambda>c. map_of (docs c)" "coll_inv workspace_model"
  "m_id workspace_model" "m_parent workspace_model" "m_valid workspace_model" path_ok
  by (rule coll_contract) (simp add: workspace_model_def)

interpretation grant_docs: document_store
  "coll_save grant_model" "coll_get grant_model" "coll_delete grant_model"
  "coll_children grant_model" "\<lambda>c. map_of (docs c)" "coll_inv grant_model"
  "m_id grant_model" "m_parent grant_model" "m_valid grant_model" path_ok
  by (rule coll_contract) (simp add: grant_model_def)

interpretation command_docs: document_store
  "coll_save command_model" "coll_get command_model" "coll_delete command_model"
  "coll_children command_model" "\<lambda>c. map_of (docs c)" "coll_inv command_model"
  "m_id command_model" "m_parent command_model" "m_valid command_model" path_ok
  by (rule coll_contract) (simp add: command_model_def)

interpretation run_credential_docs: document_store
  "coll_save run_credential_model" "coll_get run_credential_model"
  "coll_delete run_credential_model" "coll_children run_credential_model" "\<lambda>c. map_of (docs c)"
  "coll_inv run_credential_model" "m_id run_credential_model" "m_parent run_credential_model"
  "m_valid run_credential_model" path_ok
  by (rule coll_contract) (simp add: run_credential_model_def)

interpretation audit_docs: document_store
  "coll_save audit_model" "coll_get audit_model" "coll_delete audit_model"
  "coll_children audit_model" "\<lambda>c. map_of (docs c)" "coll_inv audit_model"
  "m_id audit_model" "m_parent audit_model" "m_valid audit_model" path_ok
  by (rule coll_contract) (simp add: audit_model_def)

section \<open>Working on one collection of the store\<close>

definition zoom :: "('s \<Rightarrow> 'c) \<Rightarrow> (('c \<Rightarrow> 'c) \<Rightarrow> 's \<Rightarrow> 's) \<Rightarrow> ('c, 'a) comp \<Rightarrow> ('s, 'a) comp" where
  "zoom g u m = (\<lambda>s. case m (g s) of (r, c) \<Rightarrow> (r, u (\<lambda>_. c) s))"

abbreviation "on_computers \<equiv> zoom computers computers_update"
abbreviation "on_tasks \<equiv> zoom tasks tasks_update"
abbreviation "on_runs \<equiv> zoom runs runs_update"
abbreviation "on_workspaces \<equiv> zoom workspaces workspaces_update"
abbreviation "on_grants \<equiv> zoom grants grants_update"
abbreviation "on_commands \<equiv> zoom commands commands_update"
abbreviation "on_runtime_credentials \<equiv> zoom runtime_credentials runtime_credentials_update"
abbreviation "on_registration_credentials \<equiv>
  zoom registration_credentials registration_credentials_update"
abbreviation "on_run_credentials \<equiv> zoom run_credentials run_credentials_update"
abbreviation "on_audit \<equiv> zoom audit audit_update"

lemma zoom_apply: "m (g s) = (r, c) \<Longrightarrow> zoom g u m s = (r, u (\<lambda>_. c) s)"
  by (simp add: zoom_def)

lemma zoom_snd: "snd (zoom g u m s) = u (\<lambda>_. snd (m (g s))) s"
  by (simp add: zoom_def split: prod.splits)

lemma zoom_fst: "fst (zoom g u m s) = fst (m (g s))"
  by (simp add: zoom_def split: prod.splits)

section \<open>Typed methods\<close>

definition save_computer :: "time \<Rightarrow> computer \<Rightarrow> (local_store, computer) comp" where [op_defs]:
  "save_computer now c = on_computers (coll_save computer_model (c\<lparr>comp_updated_at := now\<rparr>))"

definition get_computer :: "string \<Rightarrow> (local_store, computer) comp" where [op_defs]:
  "get_computer i = on_computers (coll_get computer_model i)"

definition list_computers :: "(local_store, computer list) comp" where [op_defs]:
  "list_computers = on_computers (coll_list computer_model)"

definition save_task :: "time \<Rightarrow> code_task \<Rightarrow> (local_store, code_task) comp" where [op_defs]:
  "save_task now t = on_tasks (coll_save task_model (t\<lparr>task_updated_at := now\<rparr>))"

definition get_task :: "string \<Rightarrow> (local_store, code_task) comp" where [op_defs]:
  "get_task i = on_tasks (coll_get task_model i)"

definition list_tasks :: "(local_store, code_task list) comp" where [op_defs]:
  "list_tasks = on_tasks (coll_list task_model)"

definition save_run :: "time \<Rightarrow> task_run \<Rightarrow> (local_store, task_run) comp" where [op_defs]:
  "save_run now r = on_runs (coll_save run_model (r\<lparr>run_updated_at := now\<rparr>))"

definition get_run :: "string \<Rightarrow> (local_store, task_run) comp" where [op_defs]:
  "get_run i = on_runs (coll_get run_model i)"

definition list_runs :: "(local_store, task_run list) comp" where [op_defs]:
  "list_runs = on_runs (coll_list run_model)"

definition save_workspace ::
  "time \<Rightarrow> execution_workspace \<Rightarrow> (local_store, execution_workspace) comp" where [op_defs]:
  "save_workspace now w = on_workspaces (coll_save workspace_model (w\<lparr>ws_updated_at := now\<rparr>))"

text \<open>\<open>list_workspaces\<close>, \<open>list_grants\<close>, \<open>list_commands\<close> and \<open>list_audit_events\<close> with a run id; without
  one they list the whole collection.\<close>

definition list_workspaces :: "string option \<Rightarrow> (local_store, execution_workspace list) comp" where [op_defs]:
  "list_workspaces rid = on_workspaces
     (case rid of Some i \<Rightarrow> coll_children workspace_model i | None \<Rightarrow> coll_list workspace_model)"

definition save_grant :: "connector_grant \<Rightarrow> (local_store, connector_grant) comp" where [op_defs]:
  "save_grant g = on_grants (coll_save grant_model g)"

definition get_grant :: "string \<Rightarrow> (local_store, connector_grant) comp" where [op_defs]:
  "get_grant i = on_grants (coll_get grant_model i)"

definition list_grants :: "string option \<Rightarrow> (local_store, connector_grant list) comp" where [op_defs]:
  "list_grants rid = on_grants
     (case rid of Some i \<Rightarrow> coll_children grant_model i | None \<Rightarrow> coll_list grant_model)"

definition save_command :: "runtime_command \<Rightarrow> (local_store, runtime_command) comp" where [op_defs]:
  "save_command c = on_commands (coll_save command_model c)"

definition get_command :: "string \<Rightarrow> (local_store, runtime_command) comp" where [op_defs]:
  "get_command i = on_commands (coll_get command_model i)"

definition list_commands :: "string option \<Rightarrow> (local_store, runtime_command list) comp" where [op_defs]:
  "list_commands rid = on_commands
     (case rid of Some i \<Rightarrow> coll_children command_model i | None \<Rightarrow> coll_list command_model)"

definition save_runtime_credential ::
  "runtime_credential \<Rightarrow> (local_store, runtime_credential) comp" where [op_defs]:
  "save_runtime_credential c = on_runtime_credentials (coll_save runtime_credential_model c)"

definition get_runtime_credential :: "string \<Rightarrow> (local_store, runtime_credential) comp" where [op_defs]:
  "get_runtime_credential i = on_runtime_credentials (coll_get runtime_credential_model i)"

definition save_registration_credential ::
  "registration_credential \<Rightarrow> (local_store, registration_credential) comp" where [op_defs]:
  "save_registration_credential c =
     on_registration_credentials (coll_save registration_credential_model c)"

definition save_run_credential :: "run_credential \<Rightarrow> (local_store, run_credential) comp" where [op_defs]:
  "save_run_credential c = on_run_credentials (coll_save run_credential_model c)"

definition get_run_credential :: "string \<Rightarrow> (local_store, run_credential) comp" where [op_defs]:
  "get_run_credential i = on_run_credentials (coll_get run_credential_model i)"

definition list_audit_events :: "string option \<Rightarrow> (local_store, audit_event list) comp" where [op_defs]:
  "list_audit_events rid = on_audit
     (case rid of Some i \<Rightarrow> coll_children audit_model i | None \<Rightarrow> coll_list audit_model)"

section \<open>Composite methods\<close>

text \<open>A registration credential is used at most once and only before it expires. Only a missing
  document is caught; the id of a credential is its token hash.\<close>

definition consume_registration_credential :: "string \<Rightarrow> time \<Rightarrow> (local_store, bool) comp" where
  "consume_registration_credential h now =
     on_registration_credentials (
       sbind (stry_key (coll_get registration_credential_model h)) (\<lambda>found.
         case found of
           None \<Rightarrow> sreturn False
         | Some cred \<Rightarrow>
             if reg_consumed_at cred \<noteq> None \<or> reg_expires_at cred \<le> now then sreturn False
             else sbind (coll_save registration_credential_model
                          (cred\<lparr>reg_consumed_at := Some now\<rparr>)) (\<lambda>_. sreturn True)))"

text \<open>Audit events are append-only.\<close>

definition save_audit_event :: "audit_event \<Rightarrow> (local_store, audit_event) comp" where
  "save_audit_event a =
     on_audit (
       sbind (stry_key (coll_get audit_model (audit_id a))) (\<lambda>found.
         case found of
           None \<Rightarrow> coll_save audit_model a
         | Some _ \<Rightarrow> sraise (ValueError ''security audit events are append-only'')))"

text \<open>
  \<open>_save_many\<close> seen from a caller that does not crash: every target is checked first, in order, and
  only then is anything written. The documents of one call have different ids. The file operations and
  crashes between them are the subject of \<^verbatim>\<open>Store_Journal\<close>.
\<close>

definition check_new :: "string \<Rightarrow> 'd model \<Rightarrow> 'd \<Rightarrow> 'd coll \<Rightarrow> unit result" where
  "check_new label m d c =
     (if \<not> path_ok (m_id m d) then Inl invalid_id
      else if map_of (docs c) (m_id m d) \<noteq> None then Inl (StateConflict (label @ '' already exists''))
      else Inr ())"

fun check_new_all :: "string \<Rightarrow> 'd model \<Rightarrow> 'd list \<Rightarrow> 'd coll \<Rightarrow> unit result" where
  "check_new_all label m [] c = Inr ()"
| "check_new_all label m (d # ds) c =
     (case check_new label m d c of Inl e \<Rightarrow> Inl e | Inr _ \<Rightarrow> check_new_all label m ds c)"

definition create_task_run ::
  "code_task \<Rightarrow> task_run \<Rightarrow> execution_workspace list
     \<Rightarrow> (local_store, code_task \<times> task_run \<times> execution_workspace list) comp" where
  "create_task_run t r wss =
     sbind (\<lambda>s. (check_new ''task'' task_model t (tasks s), s)) (\<lambda>_.
     sbind (\<lambda>s. (check_new ''run'' run_model r (runs s), s)) (\<lambda>_.
     sbind (\<lambda>s. (check_new_all ''workspace'' workspace_model wss (workspaces s), s)) (\<lambda>_.
     sbind (on_tasks (coll_save task_model t)) (\<lambda>_.
     sbind (on_runs (coll_save run_model r)) (\<lambda>_.
     sbind (smapM (\<lambda>w. on_workspaces (coll_save workspace_model w)) wss) (\<lambda>_.
     sreturn (t, r, wss)))))))"

definition claim_run ::
  "time \<Rightarrow> string \<Rightarrow> string \<Rightarrow> time \<Rightarrow> (local_store, task_run option) comp" where
  "claim_run now cid lease expires =
     sbind list_runs (\<lambda>rs.
       case min_by run_created_at
              (filter (\<lambda>r. run_computer_id r = cid \<and> run_status r \<in> {Queued, Recovering}) rs) of
         None \<Rightarrow> sreturn None
       | Some r \<Rightarrow>
           sbind (slift (transition_run now
                   (r\<lparr>run_lease_id := Some lease, run_lease_expires_at := Some expires\<rparr>)
                   Preparing None)) (\<lambda>r'.
           sbind (save_run now r') (\<lambda>saved. sreturn (Some saved))))"

text \<open>
  \<open>update_run\<close>: read, apply the operation, write back unless nothing changed. The operation may write
  other collections and hand a value out through a variable of the caller; that value is the second
  component here.
\<close>

definition update_run_with ::
  "time \<Rightarrow> string \<Rightarrow> (task_run \<Rightarrow> (local_store, task_run \<times> 'a) comp)
     \<Rightarrow> (local_store, task_run \<times> 'a) comp" where
  "update_run_with now i operation =
     sbind (get_run i) (\<lambda>r.
     sbind (operation r) (\<lambda>(r', x).
       if r' = r then sreturn (r, x)
       else sbind (save_run now r') (\<lambda>saved. sreturn (saved, x))))"

definition update_run ::
  "time \<Rightarrow> string \<Rightarrow> (task_run \<Rightarrow> task_run result) \<Rightarrow> (local_store, task_run) comp" where
  "update_run now i operation =
     sbind (update_run_with now i (\<lambda>r. sbind (slift (operation r)) (\<lambda>r'. sreturn (r', ()))))
       (\<lambda>(saved, _). sreturn saved)"

text \<open>\<open>update_grant\<close>; the second component is the run, which the operation hands to its caller.\<close>

definition update_grant ::
  "string \<Rightarrow> (connector_grant \<Rightarrow> task_run \<Rightarrow> connector_grant result)
     \<Rightarrow> (local_store, connector_grant \<times> task_run) comp" where
  "update_grant i operation =
     sbind (get_grant i) (\<lambda>g.
     sbind (get_run (grant_run_id g)) (\<lambda>r.
     sbind (slift (operation g r)) (\<lambda>g'.
     sbind (save_grant g') (\<lambda>saved. sreturn (saved, r)))))"

text \<open>\<open>delete_task\<close>: every run of the task with everything the run owns, then the task.\<close>

definition delete_owned :: "'d model \<Rightarrow> string \<Rightarrow> ('d coll, unit list) comp" where
  "delete_owned m rid =
     sbind (coll_children m rid) (\<lambda>ds. smapM (\<lambda>d. coll_delete m (m_id m d)) ds)"

definition delete_run_records :: "string \<Rightarrow> (local_store, unit) comp" where
  "delete_run_records rid =
     sbind (on_workspaces (delete_owned workspace_model rid)) (\<lambda>_.
     sbind (on_grants (delete_owned grant_model rid)) (\<lambda>_.
     sbind (on_commands (delete_owned command_model rid)) (\<lambda>_.
     sbind (on_run_credentials (delete_owned run_credential_model rid)) (\<lambda>_.
     sbind (on_audit (delete_owned audit_model rid)) (\<lambda>_.
     on_runs (coll_delete run_model rid))))))"

definition delete_task :: "string \<Rightarrow> (local_store, unit) comp" where
  "delete_task tid =
     sbind (on_runs (coll_children run_model tid)) (\<lambda>rs.
     sbind (smapM (\<lambda>r. delete_run_records (run_id r)) rs) (\<lambda>_.
     on_tasks (coll_delete task_model tid)))"

text \<open>\<open>prune\<close> drops old protocol records and returns how many.\<close>

definition prune_coll :: "'d model \<Rightarrow> ('d \<Rightarrow> bool) \<Rightarrow> ('d coll, int) comp" where
  "prune_coll m old =
     sbind (coll_list m) (\<lambda>ds.
     sbind (smapM (\<lambda>d. coll_delete m (m_id m d)) (filter old ds)) (\<lambda>us.
     sreturn (int (length us))))"

definition or_time :: "time option \<Rightarrow> time \<Rightarrow> time" where
  "or_time t d = (case t of None \<Rightarrow> d | Some x \<Rightarrow> x)"

definition prune :: "time \<Rightarrow> time \<Rightarrow> (local_store, int) comp" where
  "prune auxiliary_older_than audit_older_than =
     sbind (on_commands (prune_coll command_model
       (\<lambda>c. case cmd_acked_at c of None \<Rightarrow> False | Some t \<Rightarrow> t < auxiliary_older_than))) (\<lambda>a.
     sbind (on_grants (prune_coll grant_model
       (\<lambda>g. or_time (grant_revoked_at g) (grant_expires_at g) < auxiliary_older_than))) (\<lambda>b.
     sbind (on_registration_credentials (prune_coll registration_credential_model
       (\<lambda>r. or_time (reg_consumed_at r) (reg_expires_at r) < auxiliary_older_than))) (\<lambda>c.
     sbind (on_audit (prune_coll audit_model (\<lambda>e. audit_created_at e < audit_older_than))) (\<lambda>d.
     sreturn (a + b + c + d)))))"

text \<open>\<open>__init__\<close> after \<open>_recover_transaction\<close>: the six indexed collections are indexed again.\<close>

definition reopen_store :: "local_store \<Rightarrow> local_store" where
  "reopen_store s = s\<lparr>runs := rebuild_index run_model (runs s),
     workspaces := rebuild_index workspace_model (workspaces s),
     grants := rebuild_index grant_model (grants s),
     commands := rebuild_index command_model (commands s),
     run_credentials := rebuild_index run_credential_model (run_credentials s),
     audit := rebuild_index audit_model (audit s)\<rparr>"

end
