(* ===== verification/Store_Properties.thy ===== *)
theory Store_Properties
  imports Control_Store
begin

text \<open>
  What the local control-plane store promises: every method keeps its collections consistent with
  their parent index, \<open>update_run\<close> is all-or-nothing, a registration credential is consumed once, audit
  events are never rewritten, claiming takes the oldest waiting run, deleting a task removes exactly
  the records it owns, and pruning touches only old protocol records.
\<close>

section \<open>The store invariant\<close>

definition store_inv :: "local_store \<Rightarrow> bool" where
  "store_inv s \<longleftrightarrow> coll_inv computer_model (computers s) \<and> coll_inv task_model (tasks s) \<and>
     coll_inv run_model (runs s) \<and> coll_inv workspace_model (workspaces s) \<and>
     coll_inv grant_model (grants s) \<and> coll_inv command_model (commands s) \<and>
     coll_inv runtime_credential_model (runtime_credentials s) \<and>
     coll_inv registration_credential_model (registration_credentials s) \<and>
     coll_inv run_credential_model (run_credentials s) \<and> coll_inv audit_model (audit s)"

lemma store_inv_empty [simp]: "store_inv empty_store"
  by (simp add: store_inv_def empty_store_def)

lemma keeps_zoom:
  assumes "keeps I m" and "\<And>s. P s \<Longrightarrow> I (g s)" and "\<And>s c. P s \<Longrightarrow> I c \<Longrightarrow> P (u (\<lambda>_. c) s)"
  shows "keeps P (zoom g u m)"
  using assms by (auto simp: keeps_def zoom_snd)

lemma keeps_coll_save [intro]: "keeps (coll_inv m) (coll_save m d)"
  by (auto intro: keepsI coll_save_inv)

lemma keeps_coll_delete [intro]: "keeps (coll_inv m) (coll_delete m i)"
  by (auto intro: keepsI coll_delete_inv)

lemma keeps_coll_get [intro]: "keeps P (coll_get m i)"
  by (simp add: keeps_def)

lemma keeps_coll_list [intro]: "keeps P (coll_list m)"
  by (simp add: keeps_def)

lemma keeps_coll_children [intro]: "keeps P (coll_children m p)"
  by (simp add: keeps_def)

lemma keeps_zoom_inv [intro]:
  "keeps (coll_inv computer_model) f1 \<Longrightarrow> keeps store_inv (on_computers f1)"
  "keeps (coll_inv task_model) f2 \<Longrightarrow> keeps store_inv (on_tasks f2)"
  "keeps (coll_inv run_model) f3 \<Longrightarrow> keeps store_inv (on_runs f3)"
  "keeps (coll_inv workspace_model) f4 \<Longrightarrow> keeps store_inv (on_workspaces f4)"
  "keeps (coll_inv grant_model) f5 \<Longrightarrow> keeps store_inv (on_grants f5)"
  "keeps (coll_inv command_model) f6 \<Longrightarrow> keeps store_inv (on_commands f6)"
  "keeps (coll_inv runtime_credential_model) f7 \<Longrightarrow> keeps store_inv (on_runtime_credentials f7)"
  "keeps (coll_inv registration_credential_model) f8 \<Longrightarrow>
     keeps store_inv (on_registration_credentials f8)"
  "keeps (coll_inv run_credential_model) f9 \<Longrightarrow> keeps store_inv (on_run_credentials f9)"
  "keeps (coll_inv audit_model) f10 \<Longrightarrow> keeps store_inv (on_audit f10)"
  by (erule keeps_zoom, simp add: store_inv_def, simp add: store_inv_def)+

lemma keeps_typed_methods [intro]:
  "keeps store_inv (save_computer now c)" "keeps store_inv (get_computer i)"
  "keeps store_inv list_computers" "keeps store_inv (save_task now t)" "keeps store_inv (get_task i)"
  "keeps store_inv list_tasks" "keeps store_inv (save_run now r)" "keeps store_inv (get_run i)"
  "keeps store_inv list_runs" "keeps store_inv (save_workspace now w)"
  "keeps store_inv (list_workspaces p)" "keeps store_inv (save_grant g)"
  "keeps store_inv (get_grant i)" "keeps store_inv (list_grants p)"
  "keeps store_inv (save_command k)" "keeps store_inv (get_command i)"
  "keeps store_inv (list_commands p)" "keeps store_inv (save_runtime_credential rc)"
  "keeps store_inv (get_runtime_credential i)" "keeps store_inv (save_registration_credential gc)"
  "keeps store_inv (save_run_credential tc)" "keeps store_inv (get_run_credential i)"
  "keeps store_inv (list_audit_events p)"
  by (auto simp: op_defs intro!: keeps_zoom_inv split: option.splits)

lemma keeps_update_run_with:
  assumes "\<And>r. keeps store_inv (f r)"
  shows "keeps store_inv (update_run_with now i f)"
  unfolding update_run_with_def using assms
  by (intro keeps_sbind keeps_case_prod keeps_if) auto

lemma keeps_update_run: "keeps store_inv (update_run now i f)"
  unfolding update_run_def
  by (intro keeps_sbind keeps_case_prod keeps_update_run_with) auto

lemma keeps_update_grant: "keeps store_inv (update_grant i f)"
  unfolding update_grant_def by (intro keeps_sbind) auto

lemma keeps_consume: "keeps store_inv (consume_registration_credential h now)"
  unfolding consume_registration_credential_def
  by (intro keeps_zoom_inv keeps_sbind keeps_case_option keeps_if) auto

lemma keeps_save_audit_event: "keeps store_inv (save_audit_event a)"
  unfolding save_audit_event_def
  by (intro keeps_zoom_inv keeps_sbind keeps_case_option) auto

lemma keeps_create_task_run: "keeps store_inv (create_task_run t r wss)"
  unfolding create_task_run_def
  by (intro keeps_sbind keeps_smapM keeps_zoom_inv keeps_coll_save) (simp_all add: keeps_def)

lemma keeps_claim_run: "keeps store_inv (claim_run now cid l e)"
  unfolding claim_run_def
  by (intro keeps_sbind keeps_case_option) auto

lemma keeps_delete_owned [intro]: "keeps (coll_inv m) (delete_owned m rid)"
  unfolding delete_owned_def by (intro keeps_sbind keeps_smapM) auto

lemma keeps_delete_run_records: "keeps store_inv (delete_run_records rid)"
  unfolding delete_run_records_def by (intro keeps_sbind keeps_zoom_inv) auto

lemma keeps_delete_task: "keeps store_inv (delete_task tid)"
  unfolding delete_task_def
  by (intro keeps_sbind keeps_smapM keeps_delete_run_records keeps_zoom_inv) auto

lemma keeps_prune_coll [intro]: "keeps (coll_inv m) (prune_coll m old)"
  unfolding prune_coll_def by (intro keeps_sbind keeps_smapM) auto

lemma keeps_prune: "keeps store_inv (prune a b)"
  unfolding prune_def by (intro keeps_sbind keeps_zoom_inv) auto

lemmas store_keeps [intro] = keeps_update_run keeps_update_run_with keeps_update_grant keeps_consume
  keeps_save_audit_event keeps_create_task_run keeps_claim_run keeps_delete_task keeps_prune

section \<open>Deleting a task\<close>

text \<open>What is left of a collection when every document owned by a run of \<open>R\<close> is gone.\<close>

definition drop_owned :: "'d model \<Rightarrow> string set \<Rightarrow> (string \<rightharpoonup> 'd) \<Rightarrow> (string \<rightharpoonup> 'd)" where
  "drop_owned m R v = (\<lambda>i. case v i of None \<Rightarrow> None
     | Some d \<Rightarrow> if \<exists>p \<in> R. m_parent m d = Some p then None else Some d)"

definition valid_docs :: "'d model \<Rightarrow> 'd coll \<Rightarrow> bool" where
  "valid_docs m c \<longleftrightarrow> (\<forall>i d. map_of (docs c) i = Some d \<longrightarrow> m_valid m d)"

definition owned_valid :: "local_store \<Rightarrow> bool" where
  "owned_valid s \<longleftrightarrow> valid_docs run_model (runs s) \<and> valid_docs workspace_model (workspaces s) \<and>
     valid_docs grant_model (grants s) \<and> valid_docs command_model (commands s) \<and>
     valid_docs run_credential_model (run_credentials s) \<and> valid_docs audit_model (audit s)"

definition erased :: "string set \<Rightarrow> local_store \<Rightarrow> local_store \<Rightarrow> bool" where
  "erased R s t \<longleftrightarrow>
     map_of (docs (runs t)) = (\<lambda>i. if i \<in> R then None else map_of (docs (runs s)) i) \<and>
     map_of (docs (workspaces t)) = drop_owned workspace_model R (map_of (docs (workspaces s))) \<and>
     map_of (docs (grants t)) = drop_owned grant_model R (map_of (docs (grants s))) \<and>
     map_of (docs (commands t)) = drop_owned command_model R (map_of (docs (commands s))) \<and>
     map_of (docs (run_credentials t)) =
       drop_owned run_credential_model R (map_of (docs (run_credentials s))) \<and>
     map_of (docs (audit t)) = drop_owned audit_model R (map_of (docs (audit s))) \<and>
     tasks t = tasks s \<and> computers t = computers s \<and>
     runtime_credentials t = runtime_credentials s \<and>
     registration_credentials t = registration_credentials s \<and>
     local_name_file t = local_name_file s \<and> local_id_file t = local_id_file s"

lemma drop_owned_empty [simp]: "drop_owned m {} v = v"
  by (auto simp: drop_owned_def fun_eq_iff split: option.splits)

lemma drop_owned_insert: "drop_owned m R (drop_owned m {r} v) = drop_owned m (insert r R) v"
  by (auto simp: drop_owned_def fun_eq_iff split: option.splits)

lemma erased_empty: "erased {} s s"
  by (simp add: erased_def)

lemma erased_insert: "erased {r} s u \<Longrightarrow> erased R u t \<Longrightarrow> erased (insert r R) s t"
  unfolding erased_def by (elim conjE, intro conjI) (simp_all add: drop_owned_insert, auto)

lemma drop_owned_SomeD: "drop_owned m R v i = Some d \<Longrightarrow> v i = Some d"
  by (auto simp: drop_owned_def split: option.splits if_splits)

lemma valid_docs_mono:
  assumes "valid_docs m c" and "\<And>i d. map_of (docs c') i = Some d \<Longrightarrow> map_of (docs c) i = Some d"
  shows "valid_docs m c'"
  using assms unfolding valid_docs_def by blast

lemma erased_owned_valid:
  assumes e: "erased R s t" and v: "owned_valid s"
  shows "owned_valid t"
proof -
  have "map_of (docs (runs t)) i = Some d \<Longrightarrow> map_of (docs (runs s)) i = Some d" for i d
    using e by (simp add: erased_def del: map_of_eq_Some_iff split: if_splits)
  moreover have "map_of (docs (workspaces t)) i = Some d \<Longrightarrow> map_of (docs (workspaces s)) i = Some d"
    for i d using e by (auto simp: erased_def simp del: map_of_eq_Some_iff dest: drop_owned_SomeD)
  moreover have "map_of (docs (grants t)) i = Some d \<Longrightarrow> map_of (docs (grants s)) i = Some d"
    for i d using e by (auto simp: erased_def simp del: map_of_eq_Some_iff dest: drop_owned_SomeD)
  moreover have "map_of (docs (commands t)) i = Some d \<Longrightarrow> map_of (docs (commands s)) i = Some d"
    for i d using e by (auto simp: erased_def simp del: map_of_eq_Some_iff dest: drop_owned_SomeD)
  moreover have "map_of (docs (run_credentials t)) i = Some d \<Longrightarrow>
      map_of (docs (run_credentials s)) i = Some d"
    for i d using e by (auto simp: erased_def simp del: map_of_eq_Some_iff dest: drop_owned_SomeD)
  moreover have "map_of (docs (audit t)) i = Some d \<Longrightarrow> map_of (docs (audit s)) i = Some d"
    for i d using e by (auto simp: erased_def simp del: map_of_eq_Some_iff dest: drop_owned_SomeD)
  ultimately show ?thesis
    using v unfolding owned_valid_def by (blast intro: valid_docs_mono)
qed

lemma drop_owned_single:
  "drop_owned m {r} v = (\<lambda>i. case v i of None \<Rightarrow> None
     | Some d \<Rightarrow> if m_parent m d = Some r then None else Some d)"
  by (auto simp: drop_owned_def fun_eq_iff split: option.splits)

lemma delete_owned_view:
  assumes "m_indexed m" and "coll_inv m c" and "valid_docs m c"
  shows "\<exists>us c'. delete_owned m rid c = (Inr us, c') \<and> coll_inv m c' \<and>
    map_of (docs c') = drop_owned m {rid} (map_of (docs c))"
proof -
  have "\<forall>i d. map_of (docs c) i = Some d \<longrightarrow> m_parent m d = Some rid \<longrightarrow> m_valid m d"
    using assms(3) by (simp add: valid_docs_def del: map_of_eq_Some_iff)
  from document_store.remove_children [OF coll_contract [OF assms(1)] assms(2) this]
  show ?thesis unfolding delete_owned_def drop_owned_single by blast
qed

lemma model_indexed [simp]:
  "m_indexed run_model" "m_indexed workspace_model" "m_indexed grant_model"
  "m_indexed command_model" "m_indexed run_credential_model" "m_indexed audit_model"
  by (simp_all add: model_defs)

lemma delete_run_records_erased:
  assumes inv: "store_inv s" and ok: "owned_valid s" and rid: "path_ok rid"
  shows "\<exists>t. delete_run_records rid s = (Inr (), t) \<and> store_inv t \<and> erased {rid} s t"
proof -
  have I: "coll_inv workspace_model (workspaces s)" "coll_inv grant_model (grants s)"
    "coll_inv command_model (commands s)" "coll_inv run_credential_model (run_credentials s)"
    "coll_inv audit_model (audit s)" using inv by (simp_all add: store_inv_def)
  have V: "valid_docs workspace_model (workspaces s)" "valid_docs grant_model (grants s)"
    "valid_docs command_model (commands s)" "valid_docs run_credential_model (run_credentials s)"
    "valid_docs audit_model (audit s)" using ok by (simp_all add: owned_valid_def)
  obtain u1 c1 where 1: "delete_owned workspace_model rid (workspaces s) = (Inr u1, c1)"
      "map_of (docs c1) = drop_owned workspace_model {rid} (map_of (docs (workspaces s)))"
    using delete_owned_view [OF _ I(1) V(1)] by fastforce
  obtain u2 c2 where 2: "delete_owned grant_model rid (grants s) = (Inr u2, c2)"
      "map_of (docs c2) = drop_owned grant_model {rid} (map_of (docs (grants s)))"
    using delete_owned_view [OF _ I(2) V(2)] by fastforce
  obtain u3 c3 where 3: "delete_owned command_model rid (commands s) = (Inr u3, c3)"
      "map_of (docs c3) = drop_owned command_model {rid} (map_of (docs (commands s)))"
    using delete_owned_view [OF _ I(3) V(3)] by fastforce
  obtain u4 c4 where 4: "delete_owned run_credential_model rid (run_credentials s) = (Inr u4, c4)"
      "map_of (docs c4) = drop_owned run_credential_model {rid} (map_of (docs (run_credentials s)))"
    using delete_owned_view [OF _ I(4) V(4)] by fastforce
  obtain u5 c5 where 5: "delete_owned audit_model rid (audit s) = (Inr u5, c5)"
      "map_of (docs c5) = drop_owned audit_model {rid} (map_of (docs (audit s)))"
    using delete_owned_view [OF _ I(5) V(5)] by fastforce
  obtain c6 where 6: "coll_delete run_model rid (runs s) = (Inr (), c6)"
      "map_of (docs c6) = (map_of (docs (runs s)))(rid := None)"
    using rid by (simp add: coll_delete_def)
  let ?t = "s\<lparr>workspaces := c1, grants := c2, commands := c3, run_credentials := c4, audit := c5,
    runs := c6\<rparr>"
  have run: "delete_run_records rid s = (Inr (), ?t)"
    using 1 2 3 4 5 6 by (simp add: delete_run_records_def sbind_def zoom_def)
  have "store_inv ?t"
    using keepsD [OF keeps_delete_run_records inv, of rid] run by simp
  moreover have "erased {rid} s ?t"
    using 1 2 3 4 5 6 by (auto simp: erased_def fun_eq_iff)
  ultimately show ?thesis using run by blast
qed

lemma delete_runs_erased:
  assumes "store_inv s" and "owned_valid s" and "\<forall>r \<in> set rs. path_ok (run_id r)"
  shows "\<exists>us t. smapM (\<lambda>r. delete_run_records (run_id r)) rs s = (Inr us, t) \<and> store_inv t \<and>
    erased (run_id ` set rs) s t"
  using assms
proof (induction rs arbitrary: s)
  case Nil
  then show ?case by (auto intro: erased_empty)
next
  case (Cons r rs)
  obtain u where u: "delete_run_records (run_id r) s = (Inr (), u)" "store_inv u"
      "erased {run_id r} s u"
    using delete_run_records_erased Cons.prems by (metis list.set_intros(1))
  obtain us t where t: "smapM (\<lambda>r. delete_run_records (run_id r)) rs u = (Inr us, t)"
      "store_inv t" "erased (run_id ` set rs) u t"
    using Cons.IH [OF u(2) erased_owned_valid [OF u(3)]] Cons.prems by auto
  have "erased (run_id ` set (r # rs)) s t" using erased_insert [OF u(3) t(3)] by simp
  then show ?case using u t by auto
qed

text \<open>The runs of a task.\<close>

definition runs_of :: "local_store \<Rightarrow> string \<Rightarrow> string set" where
  "runs_of s tid = {i. \<exists>r. map_of (docs (runs s)) i = Some r \<and> run_task_id r = tid}"

lemma delete_task_erased:
  assumes inv: "store_inv s" and ok: "owned_valid s" and tid: "path_ok tid"
  shows "\<exists>t. delete_task tid s = (Inr (), t) \<and> store_inv t \<and>
    map_of (docs (tasks t)) = (map_of (docs (tasks s)))(tid := None) \<and>
    erased (runs_of s tid) s (t\<lparr>tasks := tasks s\<rparr>)"
proof -
  have R: "coll_inv run_model (runs s)" using inv by (simp add: store_inv_def)
  have "\<forall>i d. map_of (docs (runs s)) i = Some d \<longrightarrow> m_parent run_model d = Some tid
      \<longrightarrow> m_valid run_model d"
    using ok by (simp add: owned_valid_def valid_docs_def del: map_of_eq_Some_iff)
  from run_docs.children_ok [OF R this] obtain rs where
    rs: "coll_children run_model tid (runs s) = (Inr rs, runs s)"
      "set rs = {d. map_of (docs (runs s)) (m_id run_model d) = Some d \<and>
         m_parent run_model d = Some tid}" by blast
  have key: "run_id r = i \<and> path_ok i" if "map_of (docs (runs s)) i = Some r" for i r
    using run_docs.view_key [OF R that] by (simp add: run_model_def)
  have par: "m_parent run_model r = Some tid \<longleftrightarrow> run_task_id r = tid" for r
    using tid by (auto simp: run_model_def parent_of_def path_ok_def)
  have mem: "r \<in> set rs \<longleftrightarrow> map_of (docs (runs s)) (run_id r) = Some r \<and> run_task_id r = tid" for r
    unfolding rs(2) mem_Collect_eq par by (simp add: run_model_def)
  have set: "run_id ` set rs = runs_of s tid"
  proof (intro set_eqI iffI)
    fix i assume "i \<in> run_id ` set rs"
    then obtain r where "r \<in> set rs" "i = run_id r" by blast
    then show "i \<in> runs_of s tid" using mem [of r] unfolding runs_of_def by blast
  next
    fix i assume "i \<in> runs_of s tid"
    then obtain r where "map_of (docs (runs s)) i = Some r" "run_task_id r = tid"
      unfolding runs_of_def by blast
    then have "r \<in> set rs" "run_id r = i" using mem [of r] key [of i r] by simp_all
    then show "i \<in> run_id ` set rs" by blast
  qed
  have "\<forall>r \<in> set rs. path_ok (run_id r)"
    using mem key by blast
  from delete_runs_erased [OF inv ok this] obtain us u where
    u: "smapM (\<lambda>r. delete_run_records (run_id r)) rs s = (Inr us, u)" "store_inv u"
      "erased (run_id ` set rs) s u" by blast
  let ?t = "snd (on_tasks (coll_delete task_model tid) u)"
  have t: "on_tasks (coll_delete task_model tid) u = (Inr (), ?t)"
    using tid by (simp add: zoom_def coll_delete_def)
  have "store_inv ?t" using u(2) keeps_zoom_inv(2) [OF keeps_coll_delete] by (rule keepsD [rotated])
  moreover have "tasks u = tasks s" using u(3) by (simp add: erased_def)
  then have "map_of (docs (tasks ?t)) = (map_of (docs (tasks s)))(tid := None)"
    using tid by (simp add: zoom_def coll_delete_def)
  moreover have "erased (runs_of s tid) s (?t\<lparr>tasks := tasks s\<rparr>)"
    using u(3) set by (simp add: zoom_def coll_delete_def erased_def split: if_splits)
  moreover have "delete_task tid s = (Inr (), ?t)"
    using rs(1) u(1) t by (simp add: delete_task_def sbind_def zoom_def)
  ultimately show ?thesis by blast
qed

end
