(* ===== verification/Sql_Store.thy ===== *)
theory Sql_Store
  imports Store_Properties
begin

text \<open>
  \<open>SqlControlPlaneStore\<close> of \<^verbatim>\<open>src/cowork/coding/sql_control_store.py\<close> over the rows of
  \<^verbatim>\<open>src/cowork/models/code_control.py\<close>: one table for all tenants and all collections, every row with the
  JSON payload of its document and a few projected columns.

  A payload is the document it was dumped from, tagged with its class; validating it again checks the
  class and the field constraints. A store is bound to a namespace \<open>ns\<close>. A transaction runs alone (the
  source takes row locks), and a call that raises rolls back, unless it joined the transaction of an
  enclosing \<open>update_run\<close>; the argument \<open>active\<close> says whether it did. Inside a session reads see earlier
  writes of the same session. Rows with equal sort keys keep the order of the table.
\<close>

section \<open>Rows\<close>

datatype sql_doc =
    Computer_Doc computer
  | Task_Doc code_task
  | Run_Doc task_run
  | Workspace_Doc execution_workspace
  | Grant_Doc connector_grant
  | Command_Doc runtime_command
  | Runtime_Credential_Doc runtime_credential
  | Registration_Credential_Doc registration_credential
  | Run_Credential_Doc run_credential
  | Audit_Doc audit_event

record sql_row =
  row_ns :: string
  row_coll :: string
  row_id :: string
  row_payload :: sql_doc
  row_computer :: "string option"
  row_status :: "run_status option"
  row_parent :: "string option"
  row_revision :: int
  row_created :: time
  row_updated :: time

type_synonym sql_table = "sql_row list"

text \<open>A collection with the class of its documents.\<close>

record 'd sql_class =
  sc_coll :: string
  sc_wrap :: "'d \<Rightarrow> sql_doc"
  sc_unwrap :: "sql_doc \<Rightarrow> 'd option"
  sc_model :: "'d model"

definition computer_class :: "computer sql_class" where
  "computer_class = \<lparr>sc_coll = ''computers'', sc_wrap = Computer_Doc,
     sc_unwrap = (\<lambda>x. case x of Computer_Doc d \<Rightarrow> Some d | _ \<Rightarrow> None), sc_model = computer_model\<rparr>"

definition task_class :: "code_task sql_class" where
  "task_class = \<lparr>sc_coll = ''tasks'', sc_wrap = Task_Doc,
     sc_unwrap = (\<lambda>x. case x of Task_Doc d \<Rightarrow> Some d | _ \<Rightarrow> None), sc_model = task_model\<rparr>"

definition run_class :: "task_run sql_class" where
  "run_class = \<lparr>sc_coll = ''runs'', sc_wrap = Run_Doc,
     sc_unwrap = (\<lambda>x. case x of Run_Doc d \<Rightarrow> Some d | _ \<Rightarrow> None), sc_model = run_model\<rparr>"

definition workspace_class :: "execution_workspace sql_class" where
  "workspace_class = \<lparr>sc_coll = ''workspaces'', sc_wrap = Workspace_Doc,
     sc_unwrap = (\<lambda>x. case x of Workspace_Doc d \<Rightarrow> Some d | _ \<Rightarrow> None), sc_model = workspace_model\<rparr>"

definition grant_class :: "connector_grant sql_class" where
  "grant_class = \<lparr>sc_coll = ''grants'', sc_wrap = Grant_Doc,
     sc_unwrap = (\<lambda>x. case x of Grant_Doc d \<Rightarrow> Some d | _ \<Rightarrow> None), sc_model = grant_model\<rparr>"

definition command_class :: "runtime_command sql_class" where
  "command_class = \<lparr>sc_coll = ''commands'', sc_wrap = Command_Doc,
     sc_unwrap = (\<lambda>x. case x of Command_Doc d \<Rightarrow> Some d | _ \<Rightarrow> None), sc_model = command_model\<rparr>"

definition runtime_credential_class :: "runtime_credential sql_class" where
  "runtime_credential_class = \<lparr>sc_coll = ''runtime_credentials'', sc_wrap = Runtime_Credential_Doc,
     sc_unwrap = (\<lambda>x. case x of Runtime_Credential_Doc d \<Rightarrow> Some d | _ \<Rightarrow> None),
     sc_model = runtime_credential_model\<rparr>"

definition registration_credential_class :: "registration_credential sql_class" where
  "registration_credential_class = \<lparr>sc_coll = ''registration_credentials'',
     sc_wrap = Registration_Credential_Doc,
     sc_unwrap = (\<lambda>x. case x of Registration_Credential_Doc d \<Rightarrow> Some d | _ \<Rightarrow> None),
     sc_model = registration_credential_model\<rparr>"

definition run_credential_class :: "run_credential sql_class" where
  "run_credential_class = \<lparr>sc_coll = ''run_credentials'', sc_wrap = Run_Credential_Doc,
     sc_unwrap = (\<lambda>x. case x of Run_Credential_Doc d \<Rightarrow> Some d | _ \<Rightarrow> None),
     sc_model = run_credential_model\<rparr>"

definition audit_class :: "audit_event sql_class" where
  "audit_class = \<lparr>sc_coll = ''audit'', sc_wrap = Audit_Doc,
     sc_unwrap = (\<lambda>x. case x of Audit_Doc d \<Rightarrow> Some d | _ \<Rightarrow> None), sc_model = audit_model\<rparr>"

lemmas class_defs = computer_class_def task_class_def run_class_def workspace_class_def grant_class_def
  command_class_def runtime_credential_class_def registration_credential_class_def
  run_credential_class_def audit_class_def

definition SQL_COLLECTIONS :: "string list" where
  "SQL_COLLECTIONS = [''computers'', ''tasks'', ''runs'', ''workspaces'', ''grants'', ''commands'',
     ''runtime_credentials'', ''registration_credentials'', ''run_credentials'', ''audit'']"

text \<open>\<open>_apply_projection\<close>: only runs have an owner computer and a status; records owned by a run have it as
  their parent, an empty run id counting as none.\<close>

definition projected_parent :: "sql_doc \<Rightarrow> string option" where
  "projected_parent d = (case d of
     Run_Doc r \<Rightarrow> Some (run_task_id r)
   | Workspace_Doc w \<Rightarrow> parent_of (ws_run_id w)
   | Grant_Doc g \<Rightarrow> parent_of (grant_run_id g)
   | Command_Doc c \<Rightarrow> parent_of (cmd_run_id c)
   | Run_Credential_Doc c \<Rightarrow> parent_of (tc_run_id c)
   | Audit_Doc a \<Rightarrow> (case audit_run_id a of None \<Rightarrow> None | Some r \<Rightarrow> parent_of r)
   | _ \<Rightarrow> None)"

definition apply_projection :: "sql_doc \<Rightarrow> sql_row \<Rightarrow> sql_row" where
  "apply_projection d row = row\<lparr>
     row_computer := (case d of Run_Doc r \<Rightarrow> Some (run_computer_id r) | _ \<Rightarrow> None),
     row_status := (case d of Run_Doc r \<Rightarrow> Some (run_status r) | _ \<Rightarrow> None),
     row_parent := projected_parent d\<rparr>"

definition new_row :: "'d sql_class \<Rightarrow> time \<Rightarrow> string \<Rightarrow> 'd \<Rightarrow> sql_row" where
  "new_row c now ns d = apply_projection (sc_wrap c d)
     \<lparr>row_ns = ns, row_coll = sc_coll c, row_id = m_id (sc_model c) d, row_payload = sc_wrap c d,
      row_computer = None, row_status = None, row_parent = None, row_revision = 1,
      row_created = now, row_updated = now\<rparr>"

text \<open>Writing a document to its row; \<open>rewrite_row\<close> leaves the projected columns alone.\<close>

definition rewrite_row :: "'d sql_class \<Rightarrow> time \<Rightarrow> 'd \<Rightarrow> sql_row \<Rightarrow> sql_row" where
  "rewrite_row c now d row =
     row\<lparr>row_payload := sc_wrap c d, row_revision := row_revision row + 1, row_updated := now\<rparr>"

definition write_row :: "'d sql_class \<Rightarrow> time \<Rightarrow> 'd \<Rightarrow> sql_row \<Rightarrow> sql_row" where
  "write_row c now d row = apply_projection (sc_wrap c d) (rewrite_row c now d row)"

section \<open>SQL statements\<close>

definition row_at :: "string \<Rightarrow> string \<Rightarrow> string \<Rightarrow> sql_row \<Rightarrow> bool" where
  "row_at ns coll i row \<longleftrightarrow> row_ns row = ns \<and> row_coll row = coll \<and> row_id row = i"

definition sql_fetch :: "string \<Rightarrow> string \<Rightarrow> string \<Rightarrow> (sql_table, sql_row option) comp" where
  "sql_fetch ns coll i t = (Inr (find (row_at ns coll i) t), t)"

definition sql_select :: "string \<Rightarrow> (sql_row \<Rightarrow> bool) \<Rightarrow> (sql_table, sql_row list) comp" where
  "sql_select ns P t = (Inr (filter (\<lambda>row. row_ns row = ns \<and> P row) t), t)"

definition sql_insert :: "sql_row \<Rightarrow> (sql_table, unit) comp" where
  "sql_insert row t = (Inr (), t @ [row])"

definition sql_update ::
  "string \<Rightarrow> string \<Rightarrow> string \<Rightarrow> (sql_row \<Rightarrow> sql_row) \<Rightarrow> (sql_table, unit) comp" where
  "sql_update ns coll i f t = (Inr (), map (\<lambda>row. if row_at ns coll i row then f row else row) t)"

definition sql_delete :: "string \<Rightarrow> (sql_row \<Rightarrow> bool) \<Rightarrow> (sql_table, unit) comp" where
  "sql_delete ns P t = (Inr (), filter (\<lambda>row. \<not> (row_ns row = ns \<and> P row)) t)"

text \<open>\<open>_session\<close>: a write transaction of its own rolls back on an exception.\<close>

definition sql_session :: "bool \<Rightarrow> (sql_table, 'a) comp \<Rightarrow> (sql_table, 'a) comp" where
  "sql_session active m t = (if active then m t
     else case m t of (Inl e, _) \<Rightarrow> (Inl e, t) | (Inr x, t') \<Rightarrow> (Inr x, t'))"

section \<open>Documents\<close>

definition require_collection :: "string \<Rightarrow> (sql_table, unit) comp" where
  "require_collection coll =
     sguard (coll \<in> set SQL_COLLECTIONS) (ValueError ''unknown control-plane collection'')"

definition validate_row :: "'d sql_class \<Rightarrow> sql_row \<Rightarrow> 'd result" where
  "validate_row c row = (case sc_unwrap c (row_payload row) of
     None \<Rightarrow> Inl (ValidationError (m_name (sc_model c)))
   | Some d \<Rightarrow> if m_valid (sc_model c) d then Inr d else Inl (ValidationError (m_name (sc_model c))))"

definition sql_add :: "'d sql_class \<Rightarrow> time \<Rightarrow> string \<Rightarrow> 'd \<Rightarrow> (sql_table, unit) comp" where
  "sql_add c now ns d =
     sbind (require_collection (sc_coll c)) (\<lambda>_. sql_insert (new_row c now ns d))"

definition sql_save :: "'d sql_class \<Rightarrow> time \<Rightarrow> string \<Rightarrow> 'd \<Rightarrow> (sql_table, 'd) comp" where
  "sql_save c now ns d =
     sbind (require_collection (sc_coll c)) (\<lambda>_.
     sbind (sql_fetch ns (sc_coll c) (m_id (sc_model c) d)) (\<lambda>found.
     sbind (case found of
         None \<Rightarrow> sql_add c now ns d
       | Some _ \<Rightarrow> sql_update ns (sc_coll c) (m_id (sc_model c) d) (write_row c now d)) (\<lambda>_.
     sreturn d)))"

definition sql_get :: "'d sql_class \<Rightarrow> string \<Rightarrow> string \<Rightarrow> (sql_table, 'd) comp" where
  "sql_get c ns i =
     sbind (require_collection (sc_coll c)) (\<lambda>_.
     sbind (sql_fetch ns (sc_coll c) i) (\<lambda>found.
       case found of
         None \<Rightarrow> sraise (KeyError (m_name (sc_model c) @ '' not found''))
       | Some row \<Rightarrow> slift (validate_row c row)))"

definition sql_list :: "'d sql_class \<Rightarrow> string \<Rightarrow> string option \<Rightarrow> (sql_table, 'd list) comp" where
  "sql_list c ns parent =
     sbind (require_collection (sc_coll c)) (\<lambda>_.
     sbind (sql_select ns (\<lambda>row. row_coll row = sc_coll c \<and>
              (parent = None \<or> row_parent row = parent))) (\<lambda>rows.
     smapM (\<lambda>row. slift (validate_row c row)) (sorted_desc row_updated rows)))"

text \<open>\<open>_locked_row\<close>.\<close>

definition locked_row :: "'d sql_class \<Rightarrow> string \<Rightarrow> string \<Rightarrow> (sql_table, sql_row) comp" where
  "locked_row c ns i =
     sbind (sql_fetch ns (sc_coll c) i) (\<lambda>found.
       case found of
         None \<Rightarrow> sraise (KeyError (m_name (sc_model c) @ '' not found''))
       | Some row \<Rightarrow> sreturn row)"

section \<open>Typed methods\<close>

definition sql_save_computer :: "time \<Rightarrow> string \<Rightarrow> computer \<Rightarrow> (sql_table, computer) comp" where
  "sql_save_computer now ns d = sql_save computer_class now ns (d\<lparr>comp_updated_at := now\<rparr>)"

definition sql_save_task :: "time \<Rightarrow> string \<Rightarrow> code_task \<Rightarrow> (sql_table, code_task) comp" where
  "sql_save_task now ns d = sql_save task_class now ns (d\<lparr>task_updated_at := now\<rparr>)"

definition sql_save_run :: "time \<Rightarrow> string \<Rightarrow> task_run \<Rightarrow> (sql_table, task_run) comp" where
  "sql_save_run now ns d = sql_save run_class now ns (d\<lparr>run_updated_at := now\<rparr>)"

definition sql_save_workspace ::
  "time \<Rightarrow> string \<Rightarrow> execution_workspace \<Rightarrow> (sql_table, execution_workspace) comp" where
  "sql_save_workspace now ns d = sql_save workspace_class now ns (d\<lparr>ws_updated_at := now\<rparr>)"

section \<open>Composite methods\<close>

definition sql_update_grant ::
  "bool \<Rightarrow> time \<Rightarrow> string \<Rightarrow> string \<Rightarrow> (connector_grant \<Rightarrow> task_run \<Rightarrow> connector_grant result)
     \<Rightarrow> (sql_table, connector_grant \<times> task_run) comp" where
  "sql_update_grant active now ns i operation = sql_session active (
     sbind (locked_row grant_class ns i) (\<lambda>row.
     sbind (slift (validate_row grant_class row)) (\<lambda>g.
     sbind (locked_row run_class ns (grant_run_id g)) (\<lambda>run_row.
     sbind (slift (validate_row run_class run_row)) (\<lambda>r.
     sbind (slift (operation g r)) (\<lambda>g'.
     sbind (sql_update ns ''grants'' i (rewrite_row grant_class now g')) (\<lambda>_.
     sreturn (g', r))))))))"

definition sql_consume_registration_credential ::
  "bool \<Rightarrow> string \<Rightarrow> string \<Rightarrow> time \<Rightarrow> (sql_table, bool) comp" where
  "sql_consume_registration_credential active ns h now = sql_session active (
     sbind (stry_key (locked_row registration_credential_class ns h)) (\<lambda>found.
       case found of
         None \<Rightarrow> sreturn False
       | Some row \<Rightarrow>
           sbind (slift (validate_row registration_credential_class row)) (\<lambda>cred.
             if reg_consumed_at cred \<noteq> None \<or> reg_expires_at cred \<le> now then sreturn False
             else sbind (sql_update ns ''registration_credentials'' h
                 (rewrite_row registration_credential_class now (cred\<lparr>reg_consumed_at := Some now\<rparr>))) (\<lambda>_.
               sreturn True))))"

definition sql_save_audit_event ::
  "bool \<Rightarrow> time \<Rightarrow> string \<Rightarrow> audit_event \<Rightarrow> (sql_table, audit_event) comp" where
  "sql_save_audit_event active now ns a = sql_session active (
     sbind (sql_fetch ns ''audit'' (audit_id a)) (\<lambda>found.
     sbind (case found of
         Some _ \<Rightarrow> sraise (ValueError ''security audit events are append-only'')
       | None \<Rightarrow> sql_add audit_class now ns a) (\<lambda>_.
     sreturn a)))"

text \<open>\<open>create_task_run\<close>: the label of a conflict is the collection without its plural s.\<close>

definition add_new :: "string \<Rightarrow> 'd sql_class \<Rightarrow> time \<Rightarrow> string \<Rightarrow> 'd \<Rightarrow> (sql_table, unit) comp" where
  "add_new label c now ns d =
     sbind (sql_fetch ns (sc_coll c) (m_id (sc_model c) d)) (\<lambda>found.
       case found of
         Some _ \<Rightarrow> sraise (StateConflict (label @ '' already exists''))
       | None \<Rightarrow> sql_add c now ns d)"

definition sql_create_task_run ::
  "bool \<Rightarrow> time \<Rightarrow> string \<Rightarrow> code_task \<Rightarrow> task_run \<Rightarrow> execution_workspace list
     \<Rightarrow> (sql_table, code_task \<times> task_run \<times> execution_workspace list) comp" where
  "sql_create_task_run active now ns t r wss = sql_session active (
     sbind (add_new ''task'' task_class now ns t) (\<lambda>_.
     sbind (add_new ''run'' run_class now ns r) (\<lambda>_.
     sbind (smapM (add_new ''workspace'' workspace_class now ns) wss) (\<lambda>_.
     sreturn (t, r, wss)))))"

definition sql_delete_task :: "bool \<Rightarrow> string \<Rightarrow> string \<Rightarrow> (sql_table, unit) comp" where
  "sql_delete_task active ns tid = sql_session active (
     sbind (sql_select ns (\<lambda>row. row_coll row = ''runs'' \<and> row_parent row = Some tid)) (\<lambda>rows.
     let run_ids = map row_id rows in
     sbind (if run_ids = [] then sreturn ()
        else sbind (sql_delete ns (\<lambda>row. \<exists>i \<in> set run_ids. row_parent row = Some i)) (\<lambda>_.
          sql_delete ns (\<lambda>row. row_coll row = ''runs'' \<and> row_id row \<in> set run_ids))) (\<lambda>_.
     sql_delete ns (\<lambda>row. row_coll row = ''tasks'' \<and> row_id row = tid))))"

definition row_expired :: "time \<Rightarrow> time \<Rightarrow> sql_row \<Rightarrow> bool result" where
  "row_expired auxiliary_older_than audit_older_than row =
     (if row_coll row = ''commands'' then
        map_sum id (\<lambda>c. case cmd_acked_at c of None \<Rightarrow> False | Some t \<Rightarrow> t < auxiliary_older_than)
          (validate_row command_class row)
      else if row_coll row = ''grants'' then
        map_sum id (\<lambda>g. or_time (grant_revoked_at g) (grant_expires_at g) < auxiliary_older_than)
          (validate_row grant_class row)
      else if row_coll row = ''registration_credentials'' then
        map_sum id (\<lambda>r. or_time (reg_consumed_at r) (reg_expires_at r) < auxiliary_older_than)
          (validate_row registration_credential_class row)
      else if row_coll row = ''audit'' then
        map_sum id (\<lambda>e. audit_created_at e < audit_older_than) (validate_row audit_class row)
      else Inr False)"

definition prune_row :: "time \<Rightarrow> time \<Rightarrow> string \<Rightarrow> sql_row \<Rightarrow> (sql_table, int) comp" where
  "prune_row auxiliary_older_than audit_older_than ns row =
     sbind (slift (row_expired auxiliary_older_than audit_older_than row)) (\<lambda>expired.
       if expired then sbind (sql_delete ns (row_at ns (row_coll row) (row_id row))) (\<lambda>_. sreturn 1)
       else sreturn 0)"

definition sql_prune :: "bool \<Rightarrow> string \<Rightarrow> time \<Rightarrow> time \<Rightarrow> (sql_table, int) comp" where
  "sql_prune active ns auxiliary_older_than audit_older_than = sql_session active (
     sbind (sql_select ns (\<lambda>row. row_coll row
         \<in> {''commands'', ''grants'', ''registration_credentials'', ''audit''})) (\<lambda>rows.
     sbind (smapM (prune_row auxiliary_older_than audit_older_than ns) rows) (\<lambda>ns'.
     sreturn (sum_list ns'))))"

text \<open>\<open>claim_run\<close>; \<open>locked\<close> are the runs whose rows other transactions hold (\<open>SKIP LOCKED\<close>).\<close>

definition sql_claim_run ::
  "bool \<Rightarrow> string list \<Rightarrow> time \<Rightarrow> string \<Rightarrow> string \<Rightarrow> string \<Rightarrow> time \<Rightarrow> (sql_table, task_run option) comp" where
  "sql_claim_run active locked now ns cid lease expires = sql_session active (
     sbind (sql_select ns (\<lambda>row. row_coll row = ''runs'' \<and> row_computer row = Some cid \<and>
              row_status row \<in> {Some Queued, Some Recovering} \<and> row_id row \<notin> set locked)) (\<lambda>rows.
       case min_by row_created rows of
         None \<Rightarrow> sreturn None
       | Some row \<Rightarrow>
           sbind (slift (validate_row run_class row)) (\<lambda>r.
           sbind (slift (transition_run now
                   (r\<lparr>run_lease_id := Some lease, run_lease_expires_at := Some expires\<rparr>)
                   Preparing None)) (\<lambda>r'.
           let r'' = r'\<lparr>run_updated_at := now\<rparr> in
           sbind (sql_update ns ''runs'' (row_id row) (write_row run_class now r'')) (\<lambda>_.
           sreturn (Some r''))))))"

text \<open>\<open>update_run\<close>; the calls of the operation join its transaction.\<close>

definition sql_update_run_with ::
  "bool \<Rightarrow> time \<Rightarrow> string \<Rightarrow> string \<Rightarrow> (task_run \<Rightarrow> (sql_table, task_run \<times> 'a) comp)
     \<Rightarrow> (sql_table, task_run \<times> 'a) comp" where
  "sql_update_run_with active now ns i operation = sql_session active (
     sbind (locked_row run_class ns i) (\<lambda>row.
     sbind (slift (validate_row run_class row)) (\<lambda>r.
     sbind (operation r) (\<lambda>(r', x).
     sbind (sql_fetch ns ''runs'' i) (\<lambda>current.
       if map_option row_payload current = Some (Run_Doc r') then sreturn (r', x)
       else let r'' = r'\<lparr>run_updated_at := now\<rparr> in
         sbind (sql_update ns ''runs'' i (write_row run_class now r'')) (\<lambda>_. sreturn (r'', x)))))))"

definition sql_update_run ::
  "bool \<Rightarrow> time \<Rightarrow> string \<Rightarrow> string \<Rightarrow> (task_run \<Rightarrow> task_run result) \<Rightarrow> (sql_table, task_run) comp" where
  "sql_update_run active now ns i operation =
     sbind (sql_update_run_with active now ns i
         (\<lambda>r. sbind (slift (operation r)) (\<lambda>r'. sreturn (r', ())))) (\<lambda>(saved, _). sreturn saved)"

end
