(* ===== verification/Sql_Calls.thy ===== *)
theory Sql_Calls
  imports Sql_Store
begin

text \<open>
  The calls both stores answer, as values, so that properties speak about every call and every sequence
  of calls at once: \<open>sql_exec\<close> runs a call on the table for a namespace, \<open>local_exec\<close> on the local store.
\<close>

section \<open>Calls\<close>

datatype store_call =
    Save_Computer computer
  | Save_Task code_task
  | Save_Run task_run
  | Save_Workspace execution_workspace
  | Save_Grant connector_grant
  | Save_Command runtime_command
  | Save_Runtime_Credential runtime_credential
  | Save_Registration_Credential registration_credential
  | Save_Run_Credential run_credential
  | Save_Audit_Event audit_event
  | Get_Computer string
  | Get_Task string
  | Get_Run string
  | Get_Grant string
  | Get_Command string
  | Get_Runtime_Credential string
  | Get_Run_Credential string
  | List_Computers
  | List_Tasks
  | List_Runs
  | List_Workspaces "string option"
  | List_Grants "string option"
  | List_Commands "string option"
  | List_Audit_Events "string option"
  | Consume_Registration_Credential string
  | Create_Task_Run code_task task_run "execution_workspace list"
  | Update_Run string "task_run \<Rightarrow> task_run result"
  | Update_Grant string "connector_grant \<Rightarrow> task_run \<Rightarrow> connector_grant result"
  | Delete_Task string
  | Claim_Run "string list" string string time
  | Prune time time

datatype store_reply =
    Doc sql_doc
  | Docs "sql_doc list"
  | Flag bool
  | Count int
  | Created code_task task_run "execution_workspace list"
  | Granted connector_grant task_run
  | Claimed "task_run option"
  | Done

definition reply :: "('a \<Rightarrow> store_reply) \<Rightarrow> ('s, 'a) comp \<Rightarrow> ('s, store_reply) comp" where
  "reply f m = sbind m (\<lambda>x. sreturn (f x))"

fun sql_exec :: "time \<Rightarrow> string \<Rightarrow> store_call \<Rightarrow> (sql_table, store_reply) comp" where
  "sql_exec now ns (Save_Computer d) = reply (Doc \<circ> Computer_Doc) (sql_save_computer now ns d)"
| "sql_exec now ns (Save_Task d) = reply (Doc \<circ> Task_Doc) (sql_save_task now ns d)"
| "sql_exec now ns (Save_Run d) = reply (Doc \<circ> Run_Doc) (sql_save_run now ns d)"
| "sql_exec now ns (Save_Workspace d) = reply (Doc \<circ> Workspace_Doc) (sql_save_workspace now ns d)"
| "sql_exec now ns (Save_Grant d) = reply (Doc \<circ> Grant_Doc) (sql_save grant_class now ns d)"
| "sql_exec now ns (Save_Command d) = reply (Doc \<circ> Command_Doc) (sql_save command_class now ns d)"
| "sql_exec now ns (Save_Runtime_Credential d) =
     reply (Doc \<circ> Runtime_Credential_Doc) (sql_save runtime_credential_class now ns d)"
| "sql_exec now ns (Save_Registration_Credential d) =
     reply (Doc \<circ> Registration_Credential_Doc) (sql_save registration_credential_class now ns d)"
| "sql_exec now ns (Save_Run_Credential d) =
     reply (Doc \<circ> Run_Credential_Doc) (sql_save run_credential_class now ns d)"
| "sql_exec now ns (Save_Audit_Event d) =
     reply (Doc \<circ> Audit_Doc) (sql_save_audit_event False now ns d)"
| "sql_exec now ns (Get_Computer i) = reply (Doc \<circ> Computer_Doc) (sql_get computer_class ns i)"
| "sql_exec now ns (Get_Task i) = reply (Doc \<circ> Task_Doc) (sql_get task_class ns i)"
| "sql_exec now ns (Get_Run i) = reply (Doc \<circ> Run_Doc) (sql_get run_class ns i)"
| "sql_exec now ns (Get_Grant i) = reply (Doc \<circ> Grant_Doc) (sql_get grant_class ns i)"
| "sql_exec now ns (Get_Command i) = reply (Doc \<circ> Command_Doc) (sql_get command_class ns i)"
| "sql_exec now ns (Get_Runtime_Credential i) =
     reply (Doc \<circ> Runtime_Credential_Doc) (sql_get runtime_credential_class ns i)"
| "sql_exec now ns (Get_Run_Credential i) =
     reply (Doc \<circ> Run_Credential_Doc) (sql_get run_credential_class ns i)"
| "sql_exec now ns List_Computers = reply (Docs \<circ> map Computer_Doc) (sql_list computer_class ns None)"
| "sql_exec now ns List_Tasks = reply (Docs \<circ> map Task_Doc) (sql_list task_class ns None)"
| "sql_exec now ns List_Runs = reply (Docs \<circ> map Run_Doc) (sql_list run_class ns None)"
| "sql_exec now ns (List_Workspaces p) =
     reply (Docs \<circ> map Workspace_Doc) (sql_list workspace_class ns p)"
| "sql_exec now ns (List_Grants p) = reply (Docs \<circ> map Grant_Doc) (sql_list grant_class ns p)"
| "sql_exec now ns (List_Commands p) = reply (Docs \<circ> map Command_Doc) (sql_list command_class ns p)"
| "sql_exec now ns (List_Audit_Events p) = reply (Docs \<circ> map Audit_Doc) (sql_list audit_class ns p)"
| "sql_exec now ns (Consume_Registration_Credential h) =
     reply Flag (sql_consume_registration_credential False ns h now)"
| "sql_exec now ns (Create_Task_Run t r wss) =
     reply (\<lambda>(t, r, wss). Created t r wss) (sql_create_task_run False now ns t r wss)"
| "sql_exec now ns (Update_Run i f) = reply (Doc \<circ> Run_Doc) (sql_update_run False now ns i f)"
| "sql_exec now ns (Update_Grant i f) =
     reply (\<lambda>(g, r). Granted g r) (sql_update_grant False now ns i f)"
| "sql_exec now ns (Delete_Task tid) = reply (\<lambda>_. Done) (sql_delete_task False ns tid)"
| "sql_exec now ns (Claim_Run locked cid lease expires) =
     reply Claimed (sql_claim_run False locked now ns cid lease expires)"
| "sql_exec now ns (Prune a b) = reply Count (sql_prune False ns a b)"

fun local_exec :: "time \<Rightarrow> store_call \<Rightarrow> (local_store, store_reply) comp" where
  "local_exec now (Save_Computer d) = reply (Doc \<circ> Computer_Doc) (save_computer now d)"
| "local_exec now (Save_Task d) = reply (Doc \<circ> Task_Doc) (save_task now d)"
| "local_exec now (Save_Run d) = reply (Doc \<circ> Run_Doc) (save_run now d)"
| "local_exec now (Save_Workspace d) = reply (Doc \<circ> Workspace_Doc) (save_workspace now d)"
| "local_exec now (Save_Grant d) = reply (Doc \<circ> Grant_Doc) (save_grant d)"
| "local_exec now (Save_Command d) = reply (Doc \<circ> Command_Doc) (save_command d)"
| "local_exec now (Save_Runtime_Credential d) =
     reply (Doc \<circ> Runtime_Credential_Doc) (save_runtime_credential d)"
| "local_exec now (Save_Registration_Credential d) =
     reply (Doc \<circ> Registration_Credential_Doc) (save_registration_credential d)"
| "local_exec now (Save_Run_Credential d) = reply (Doc \<circ> Run_Credential_Doc) (save_run_credential d)"
| "local_exec now (Save_Audit_Event d) = reply (Doc \<circ> Audit_Doc) (save_audit_event d)"
| "local_exec now (Get_Computer i) = reply (Doc \<circ> Computer_Doc) (get_computer i)"
| "local_exec now (Get_Task i) = reply (Doc \<circ> Task_Doc) (get_task i)"
| "local_exec now (Get_Run i) = reply (Doc \<circ> Run_Doc) (get_run i)"
| "local_exec now (Get_Grant i) = reply (Doc \<circ> Grant_Doc) (get_grant i)"
| "local_exec now (Get_Command i) = reply (Doc \<circ> Command_Doc) (get_command i)"
| "local_exec now (Get_Runtime_Credential i) =
     reply (Doc \<circ> Runtime_Credential_Doc) (get_runtime_credential i)"
| "local_exec now (Get_Run_Credential i) = reply (Doc \<circ> Run_Credential_Doc) (get_run_credential i)"
| "local_exec now List_Computers = reply (Docs \<circ> map Computer_Doc) list_computers"
| "local_exec now List_Tasks = reply (Docs \<circ> map Task_Doc) list_tasks"
| "local_exec now List_Runs = reply (Docs \<circ> map Run_Doc) list_runs"
| "local_exec now (List_Workspaces p) = reply (Docs \<circ> map Workspace_Doc) (list_workspaces p)"
| "local_exec now (List_Grants p) = reply (Docs \<circ> map Grant_Doc) (list_grants p)"
| "local_exec now (List_Commands p) = reply (Docs \<circ> map Command_Doc) (list_commands p)"
| "local_exec now (List_Audit_Events p) = reply (Docs \<circ> map Audit_Doc) (list_audit_events p)"
| "local_exec now (Consume_Registration_Credential h) =
     reply Flag (consume_registration_credential h now)"
| "local_exec now (Create_Task_Run t r wss) =
     reply (\<lambda>(t, r, wss). Created t r wss) (create_task_run t r wss)"
| "local_exec now (Update_Run i f) = reply (Doc \<circ> Run_Doc) (update_run now i f)"
| "local_exec now (Update_Grant i f) = reply (\<lambda>(g, r). Granted g r) (update_grant i f)"
| "local_exec now (Delete_Task tid) = reply (\<lambda>_. Done) (delete_task tid)"
| "local_exec now (Claim_Run locked cid lease expires) =
     reply Claimed (claim_run now cid lease expires)"
| "local_exec now (Prune a b) = reply Count (prune a b)"

section \<open>Tenants\<close>

definition own :: "string \<Rightarrow> sql_table \<Rightarrow> sql_table" where
  "own ns t = filter (\<lambda>row. row_ns row = ns) t"

definition others :: "string \<Rightarrow> sql_table \<Rightarrow> sql_table" where
  "others ns t = filter (\<lambda>row. row_ns row \<noteq> ns) t"

text \<open>A computation of a tenant depends only on the tenant's rows and leaves all other rows as they are.\<close>

definition isolated :: "string \<Rightarrow> (sql_table, 'a) comp \<Rightarrow> bool" where
  "isolated ns m \<longleftrightarrow> (\<forall>t. m (own ns t) = (fst (m t), own ns (snd (m t))) \<and>
     others ns (snd (m t)) = others ns t)"

lemma isolatedI:
  assumes "\<And>t. m (own ns t) = (fst (m t), own ns (snd (m t)))" "\<And>t. others ns (snd (m t)) = others ns t"
  shows "isolated ns m"
  using assms by (simp add: isolated_def)

lemma isolated_pure [intro]:
  "isolated ns (sreturn x)" "isolated ns (sraise e)" "isolated ns (slift r)" "isolated ns (sguard b e)"
  by (simp_all add: isolated_def)

lemma isolated_sbind [intro]:
  assumes "isolated ns m" and "\<And>x. isolated ns (f x)"
  shows "isolated ns (sbind m f)"
proof (rule isolatedI)
  fix t
  obtain r u where u: "m t = (r, u)" by (cases "m t")
  have m: "m (own ns t) = (r, own ns u)" "others ns u = others ns t"
    using assms(1) u unfolding isolated_def by (metis fst_conv snd_conv)+
  have f: "f x (own ns u) = (fst (f x u), own ns (snd (f x u)))" "others ns (snd (f x u)) = others ns u" for x
    using assms(2) [of x] unfolding isolated_def by auto
  show "sbind m f (own ns t) = (fst (sbind m f t), own ns (snd (sbind m f t)))"
    using m f u by (cases r) (simp_all add: sbind_def)
  show "others ns (snd (sbind m f t)) = others ns t"
    using m f u by (cases r) (simp_all add: sbind_def)
qed

lemma isolated_stry_key [intro]: "isolated ns m \<Longrightarrow> isolated ns (stry_key m)"
  unfolding isolated_def stry_key_def
  by (rule allI, erule_tac x=t in allE) (auto split: prod.splits sum.splits error.splits)

lemma isolated_case_option [intro]:
  "isolated ns m \<Longrightarrow> (\<And>x. isolated ns (f x)) \<Longrightarrow> isolated ns (case opt of None \<Rightarrow> m | Some x \<Rightarrow> f x)"
  by (cases opt) simp_all

lemma isolated_case_prod [intro]:
  "(\<And>x y. isolated ns (f x y)) \<Longrightarrow> isolated ns (case p of (x, y) \<Rightarrow> f x y)"
  by (cases p) simp

lemma isolated_if [intro]: "isolated ns m \<Longrightarrow> isolated ns m' \<Longrightarrow> isolated ns (if b then m else m')"
  by simp

lemma isolated_smapM [intro]: "(\<And>x. isolated ns (f x)) \<Longrightarrow> isolated ns (smapM f xs)"
  by (induction xs) (auto intro!: isolated_sbind isolated_pure)

lemma isolated_session [intro]: "isolated ns m \<Longrightarrow> isolated ns (sql_session active m)"
  unfolding isolated_def sql_session_def
  by (rule allI, erule_tac x=t in allE) (auto split: prod.splits sum.splits)

lemma find_own: "find (row_at ns coll i) (own ns t) = find (row_at ns coll i) t"
  by (induction t) (auto simp: own_def row_at_def)

lemma isolated_statements [intro]:
  "isolated ns (sql_fetch ns coll i)"
  "isolated ns (sql_select ns P)"
  "isolated ns (sql_delete ns P)"
  "row_ns row = ns \<Longrightarrow> isolated ns (sql_insert row)"
  "(\<And>row. row_ns (f row) = row_ns row) \<Longrightarrow> isolated ns (sql_update ns coll i f)"
proof -
  show "isolated ns (sql_fetch ns coll i)" by (rule isolatedI) (simp_all add: sql_fetch_def find_own)
  show "isolated ns (sql_select ns P)"
    by (rule isolatedI) (auto simp: sql_select_def own_def intro: filter_cong)
  show "isolated ns (sql_delete ns P)"
    by (rule isolatedI) (auto simp: sql_delete_def own_def others_def conj_commute intro!: filter_cong)
  show "row_ns row = ns \<Longrightarrow> isolated ns (sql_insert row)"
    by (rule isolatedI) (simp_all add: sql_insert_def own_def others_def)
  assume f: "\<And>row. row_ns (f row) = row_ns row"
  have m: "own ns (map (\<lambda>row. if row_at ns coll i row then f row else row) t) =
      map (\<lambda>row. if row_at ns coll i row then f row else row) (own ns t)" for t
    using f by (induction t) (auto simp: own_def)
  have o: "others ns (map (\<lambda>row. if row_at ns coll i row then f row else row) t) = others ns t" for t
    using f by (induction t) (auto simp: others_def row_at_def)
  show "isolated ns (sql_update ns coll i f)"
    by (rule isolatedI) (simp_all add: sql_update_def m o)
qed

lemma row_ns_writes [simp]:
  "row_ns (new_row c now ns d) = ns" "row_ns (write_row c now d row) = row_ns row"
  "row_ns (rewrite_row c now d row) = row_ns row"
  by (simp_all add: new_row_def write_row_def rewrite_row_def apply_projection_def)

lemma isolated_documents [intro]:
  "isolated ns (require_collection coll)" "isolated ns (sql_add c now ns d)" "isolated ns (sql_save c now ns d)"
  "isolated ns (sql_get c ns i)" "isolated ns (sql_list c ns p)" "isolated ns (locked_row c ns i)"
  "isolated ns (add_new label c now ns d)"
  unfolding require_collection_def sql_add_def sql_save_def sql_get_def sql_list_def locked_row_def add_new_def
  by (intro isolated_sbind isolated_case_option isolated_smapM isolated_pure isolated_statements; simp)+

lemma isolated_update_run_with:
  assumes "\<And>r. isolated ns (f r)"
  shows "isolated ns (sql_update_run_with active now ns i f)"
  unfolding sql_update_run_with_def Let_def
  by (intro isolated_session isolated_sbind isolated_case_prod isolated_if isolated_pure isolated_documents
      isolated_statements assms; simp)

lemma isolated_composites [intro]:
  "isolated ns (sql_update_grant active now ns i f)"
  "isolated ns (sql_consume_registration_credential active ns h now)"
  "isolated ns (sql_save_audit_event active now ns a)"
  "isolated ns (sql_create_task_run active now ns task r wss)"
  "isolated ns (sql_delete_task active ns tid)"
  "isolated ns (sql_prune active ns x y)"
  "isolated ns (sql_claim_run active locked now ns cid lease expires)"
  "isolated ns (sql_update_run active now ns i g)"
  unfolding sql_update_grant_def sql_consume_registration_credential_def sql_save_audit_event_def
    sql_create_task_run_def sql_delete_task_def sql_prune_def prune_row_def sql_claim_run_def
    sql_update_run_def Let_def
  by (intro isolated_session isolated_sbind isolated_case_option isolated_case_prod isolated_if isolated_smapM
      isolated_stry_key isolated_pure isolated_documents isolated_statements isolated_update_run_with; simp)+

lemma isolated_exec: "isolated ns (sql_exec now ns call)"
  by (cases call) (auto simp: reply_def sql_save_computer_def sql_save_task_def sql_save_run_def
      sql_save_workspace_def intro!: isolated_sbind isolated_pure)

end
