(* ===== verification/Sql_Refinement.thy ===== *)
theory Sql_Refinement
  imports Sql_Calls
begin

text \<open>
  What a tenant's documents are, collection by collection and id by id, read off the table and off the local
  store; the invariant of the table; and the proof that both stores implement the same operations on it.
\<close>

section \<open>The table invariant\<close>

fun doc_coll :: "sql_doc \<Rightarrow> string" where
  "doc_coll (Computer_Doc _) = ''computers''"
| "doc_coll (Task_Doc _) = ''tasks''"
| "doc_coll (Run_Doc _) = ''runs''"
| "doc_coll (Workspace_Doc _) = ''workspaces''"
| "doc_coll (Grant_Doc _) = ''grants''"
| "doc_coll (Command_Doc _) = ''commands''"
| "doc_coll (Runtime_Credential_Doc _) = ''runtime_credentials''"
| "doc_coll (Registration_Credential_Doc _) = ''registration_credentials''"
| "doc_coll (Run_Credential_Doc _) = ''run_credentials''"
| "doc_coll (Audit_Doc _) = ''audit''"

fun doc_id :: "sql_doc \<Rightarrow> string" where
  "doc_id (Computer_Doc d) = comp_id d"
| "doc_id (Task_Doc d) = task_id d"
| "doc_id (Run_Doc d) = run_id d"
| "doc_id (Workspace_Doc d) = ws_id d"
| "doc_id (Grant_Doc d) = grant_id d"
| "doc_id (Command_Doc d) = cmd_id d"
| "doc_id (Runtime_Credential_Doc d) = rc_id d"
| "doc_id (Registration_Credential_Doc d) = reg_id d"
| "doc_id (Run_Credential_Doc d) = tc_id d"
| "doc_id (Audit_Doc d) = audit_id d"

text \<open>The columns of a row are those of its payload.\<close>

definition row_ok :: "sql_row \<Rightarrow> bool" where
  "row_ok row \<longleftrightarrow> row_coll row = doc_coll (row_payload row) \<and> row_id row = doc_id (row_payload row) \<and>
     apply_projection (row_payload row) row = row"

definition row_key :: "sql_row \<Rightarrow> string \<times> string \<times> string" where
  "row_key row = (row_ns row, row_coll row, row_id row)"

definition table_wf :: "sql_table \<Rightarrow> bool" where
  "table_wf t \<longleftrightarrow> distinct (map row_key t) \<and> list_all row_ok t"

text \<open>What every class of documents provides.\<close>

definition class_ok :: "'d sql_class \<Rightarrow> bool" where
  "class_ok c \<longleftrightarrow> sc_coll c \<in> set SQL_COLLECTIONS \<and>
     (\<forall>d. sc_unwrap c (sc_wrap c d) = Some d \<and> doc_coll (sc_wrap c d) = sc_coll c \<and>
        doc_id (sc_wrap c d) = m_id (sc_model c) d) \<and>
     (\<forall>x. doc_coll x = sc_coll c \<longrightarrow> (\<exists>d. x = sc_wrap c d))"

lemma classes_ok [simp]:
  "class_ok computer_class" "class_ok task_class" "class_ok run_class" "class_ok workspace_class"
  "class_ok grant_class" "class_ok command_class" "class_ok runtime_credential_class"
  "class_ok registration_credential_class" "class_ok run_credential_class" "class_ok audit_class"
  unfolding class_ok_def class_defs model_defs SQL_COLLECTIONS_def
  by (simp_all, (intro allI, rename_tac x, case_tac x, simp_all)+)

lemma class_coll [simp]:
  "sc_coll computer_class = ''computers''" "sc_coll task_class = ''tasks''" "sc_coll run_class = ''runs''"
  "sc_coll workspace_class = ''workspaces''" "sc_coll grant_class = ''grants''"
  "sc_coll command_class = ''commands''" "sc_coll runtime_credential_class = ''runtime_credentials''"
  "sc_coll registration_credential_class = ''registration_credentials''"
  "sc_coll run_credential_class = ''run_credentials''" "sc_coll audit_class = ''audit''"
  by (simp_all add: class_defs)

lemma class_wrap [simp]:
  "sc_wrap computer_class = Computer_Doc" "sc_wrap task_class = Task_Doc" "sc_wrap run_class = Run_Doc"
  "sc_wrap workspace_class = Workspace_Doc" "sc_wrap grant_class = Grant_Doc"
  "sc_wrap command_class = Command_Doc" "sc_wrap runtime_credential_class = Runtime_Credential_Doc"
  "sc_wrap registration_credential_class = Registration_Credential_Doc"
  "sc_wrap run_credential_class = Run_Credential_Doc" "sc_wrap audit_class = Audit_Doc"
  by (simp_all add: class_defs)

lemma class_model [simp]:
  "sc_model computer_class = computer_model" "sc_model task_class = task_model"
  "sc_model run_class = run_model" "sc_model workspace_class = workspace_model"
  "sc_model grant_class = grant_model" "sc_model command_class = command_model"
  "sc_model runtime_credential_class = runtime_credential_model"
  "sc_model registration_credential_class = registration_credential_model"
  "sc_model run_credential_class = run_credential_model" "sc_model audit_class = audit_model"
  by (simp_all add: class_defs)

lemma model_id [simp]:
  "m_id computer_model = comp_id" "m_id task_model = task_id" "m_id run_model = run_id"
  "m_id workspace_model = ws_id" "m_id grant_model = grant_id" "m_id command_model = cmd_id"
  "m_id runtime_credential_model = rc_id" "m_id registration_credential_model = reg_id"
  "m_id run_credential_model = tc_id" "m_id audit_model = audit_id"
  by (simp_all add: model_defs)

lemma class_okD:
  assumes "class_ok c"
  shows "sc_coll c \<in> set SQL_COLLECTIONS" "sc_unwrap c (sc_wrap c d) = Some d"
    "doc_coll (sc_wrap c d) = sc_coll c" "doc_id (sc_wrap c d) = m_id (sc_model c) d"
  using assms by (auto simp: class_ok_def)

lemma class_ok_doc: "class_ok c \<Longrightarrow> doc_coll x = sc_coll c \<Longrightarrow> \<exists>d. x = sc_wrap c d"
  by (auto simp: class_ok_def)

section \<open>The documents of a tenant\<close>

type_synonym documents = "string \<Rightarrow> string \<Rightarrow> sql_doc option"

definition sql_docs :: "string \<Rightarrow> sql_table \<Rightarrow> documents" where
  "sql_docs ns t coll i = map_option row_payload (find (row_at ns coll i) t)"

definition put_doc :: "sql_doc \<Rightarrow> documents \<Rightarrow> documents" where
  "put_doc d v = v(doc_coll d := (v (doc_coll d))(doc_id d \<mapsto> d))"

definition keep_docs :: "(sql_doc \<Rightarrow> bool) \<Rightarrow> documents \<Rightarrow> documents" where
  "keep_docs P v = (\<lambda>coll i. case v coll i of None \<Rightarrow> None | Some d \<Rightarrow> if P d then Some d else None)"

lemma find_append: "find P (xs @ ys) = (case find P xs of None \<Rightarrow> find P ys | Some x \<Rightarrow> Some x)"
  by (induction xs) simp_all

lemma find_map_same: "(\<And>x. P (g x) = P x) \<Longrightarrow> find P (map g xs) = map_option g (find P xs)"
  by (induction xs) simp_all

lemma find_row_SomeD:
  "find (row_at ns coll i) t = Some row \<Longrightarrow> row \<in> set t \<and> row_ns row = ns \<and> row_coll row = coll \<and> row_id row = i"
  by (auto simp: find_Some_iff row_at_def)

lemma row_at_key: "row_at ns coll i row \<longleftrightarrow> row_key row = (ns, coll, i)"
  by (simp add: row_at_def row_key_def)

lemma find_filter_key:
  assumes "distinct (map row_key t)"
  shows "find (row_at ns coll i) (filter Q t) =
    (case find (row_at ns coll i) t of None \<Rightarrow> None | Some row \<Rightarrow> if Q row then Some row else None)"
  using assms
proof (induction t)
  case (Cons x t)
  have "find (row_at ns coll i) (filter Q t) = None" if "row_at ns coll i x"
    using Cons.prems that by (auto simp: find_None_iff row_at_key) (metis image_eqI)
  then show ?case using Cons by (auto split: option.splits)
qed simp

lemma find_row_mem:
  assumes "table_wf t" "row \<in> set t"
  shows "find (row_at (row_ns row) (row_coll row) (row_id row)) t = Some row"
proof -
  have "distinct (map row_key t)" using assms(1) by (simp add: table_wf_def)
  then show ?thesis using assms(2)
    by (induction t) (auto simp: row_at_key, auto simp: row_key_def rev_image_eqI)
qed

lemma sql_docs_row:
  assumes "table_wf t" "sql_docs ns t coll i = Some d"
  shows "doc_coll d = coll" "doc_id d = i"
proof -
  obtain row where row: "find (row_at ns coll i) t = Some row" "d = row_payload row"
    using assms(2) by (auto simp: sql_docs_def)
  have "row_ok row" using find_row_SomeD [OF row(1)] assms(1) by (auto simp: table_wf_def list_all_iff)
  then show "doc_coll d = coll" "doc_id d = i"
    using find_row_SomeD [OF row(1)] row(2) by (auto simp: row_ok_def)
qed

lemma row_ok_new: "class_ok c \<Longrightarrow> row_ok (new_row c now ns d)"
  by (simp add: row_ok_def new_row_def apply_projection_def class_okD)

lemma row_ok_write:
  "class_ok c \<Longrightarrow> row_coll row = sc_coll c \<Longrightarrow> row_id row = m_id (sc_model c) d \<Longrightarrow> row_ok (write_row c now d row)"
  by (simp add: row_ok_def write_row_def rewrite_row_def apply_projection_def class_okD)

lemma row_key_writes [simp]:
  "row_key (write_row c now d row) = row_key row" "row_key (rewrite_row c now d row) = row_key row"
  "row_key (new_row c now ns d) = (ns, sc_coll c, m_id (sc_model c) d)"
  by (simp_all add: row_key_def write_row_def rewrite_row_def new_row_def apply_projection_def)

lemma row_payload_writes [simp]:
  "row_payload (write_row c now d row) = sc_wrap c d" "row_payload (rewrite_row c now d row) = sc_wrap c d"
  "row_payload (new_row c now ns d) = sc_wrap c d"
  by (simp_all add: write_row_def rewrite_row_def new_row_def apply_projection_def)

text \<open>The three ways the code changes the table.\<close>

lemma insert_docs:
  assumes wf: "table_wf t" and c: "class_ok c"
    and new: "find (row_at ns (sc_coll c) (m_id (sc_model c) d)) t = None"
  shows "table_wf (t @ [new_row c now ns d])"
    and "sql_docs ns (t @ [new_row c now ns d]) = put_doc (sc_wrap c d) (sql_docs ns t)"
proof -
  have "(ns, sc_coll c, m_id (sc_model c) d) \<notin> row_key ` set t"
    using new by (auto simp: find_None_iff row_at_key)
  then show "table_wf (t @ [new_row c now ns d])"
    using wf row_ok_new [OF c] by (simp add: table_wf_def)
  show "sql_docs ns (t @ [new_row c now ns d]) = put_doc (sc_wrap c d) (sql_docs ns t)"
    using new by (auto simp: sql_docs_def put_doc_def fun_eq_iff find_append row_at_key class_okD [OF c]
        split: option.splits)
qed

lemma update_docs:
  assumes wf: "table_wf t" and c: "class_ok c" and i: "i = m_id (sc_model c) d"
    and old: "find (row_at ns (sc_coll c) i) t = Some row"
    and f: "\<And>r. row_key (f r) = row_key r" "\<And>r. row_payload (f r) = sc_wrap c d" "row_ok (f row)"
  shows "table_wf (map (\<lambda>r. if row_at ns (sc_coll c) i r then f r else r) t)"
    and "sql_docs ns (map (\<lambda>r. if row_at ns (sc_coll c) i r then f r else r) t) =
      put_doc (sc_wrap c d) (sql_docs ns t)"
proof -
  let ?g = "\<lambda>r. if row_at ns (sc_coll c) i r then f r else r"
  have key: "row_key (?g r) = row_key r" for r by (simp add: f)
  have same: "r = row" if "r \<in> set t" "row_at ns (sc_coll c) i r" for r
    using find_row_mem [OF wf that(1)] old that(2) by (simp add: row_at_def)
  have "map row_key (map ?g t) = map row_key t" using key by simp
  then have "distinct (map row_key (map ?g t))" using wf by (simp only: table_wf_def)
  moreover have "list_all row_ok (map ?g t)" using wf same f(3) by (auto simp: table_wf_def list_all_iff)
  ultimately show "table_wf (map ?g t)" by (simp add: table_wf_def)
  have fm: "find (row_at ns coll j) (map ?g t) = map_option ?g (find (row_at ns coll j) t)" for coll j
    by (rule find_map_same) (simp add: row_at_key f)
  show "sql_docs ns (map ?g t) = put_doc (sc_wrap c d) (sql_docs ns t)"
  proof (intro ext)
    fix coll j
    show "sql_docs ns (map ?g t) coll j = put_doc (sc_wrap c d) (sql_docs ns t) coll j"
    proof (cases "coll = sc_coll c \<and> j = i")
      case True
      have "row_at ns (sc_coll c) i row" using find_row_SomeD [OF old] by (simp add: row_at_def)
      then have "sql_docs ns (map ?g t) (sc_coll c) i = Some (sc_wrap c d)"
        by (simp add: sql_docs_def fm old f)
      then show ?thesis using True by (simp add: put_doc_def class_okD [OF c] i)
    next
      case False
      have "map_option row_payload (map_option ?g (find (row_at ns coll j) t)) =
          map_option row_payload (find (row_at ns coll j) t)"
        using False by (cases "find (row_at ns coll j) t") (auto dest!: find_row_SomeD simp: row_at_def)
      then have "sql_docs ns (map ?g t) coll j = sql_docs ns t coll j" by (simp only: sql_docs_def fm)
      then show ?thesis using False by (auto simp: put_doc_def class_okD [OF c] i)
    qed
  qed
qed

lemma delete_docs:
  assumes wf: "table_wf t" and P: "\<And>row. row \<in> set t \<Longrightarrow> row_ns row = ns \<Longrightarrow> P row = Q (row_payload row)"
  shows "table_wf (filter (\<lambda>row. \<not> (row_ns row = ns \<and> P row)) t)"
    and "sql_docs ns (filter (\<lambda>row. \<not> (row_ns row = ns \<and> P row)) t) = keep_docs (\<lambda>d. \<not> Q d) (sql_docs ns t)"
proof -
  have d: "distinct (map row_key t)" using wf by (simp add: table_wf_def)
  then show "table_wf (filter (\<lambda>row. \<not> (row_ns row = ns \<and> P row)) t)"
    using wf by (auto simp: table_wf_def list_all_iff intro: distinct_map_filter)
  show "sql_docs ns (filter (\<lambda>row. \<not> (row_ns row = ns \<and> P row)) t) = keep_docs (\<lambda>d. \<not> Q d) (sql_docs ns t)"
    using P by (auto simp: sql_docs_def keep_docs_def find_filter_key [OF d] fun_eq_iff
        dest!: find_row_SomeD split: option.splits)
qed

section \<open>Documents of the table\<close>

lemma sql_get_docs:
  assumes wf: "table_wf t" and c: "class_ok c"
  shows "sql_get c ns i t =
    (case sql_docs ns t (sc_coll c) i of
       None \<Rightarrow> Inl (KeyError (m_name (sc_model c) @ '' not found''))
     | Some x \<Rightarrow> (case sc_unwrap c x of None \<Rightarrow> Inl (ValidationError (m_name (sc_model c)))
         | Some d \<Rightarrow> if m_valid (sc_model c) d then Inr d else Inl (ValidationError (m_name (sc_model c)))), t)"
  by (auto simp: sql_get_def require_collection_def class_okD [OF c] sql_docs_def sql_fetch_def sbind_def
      validate_row_def split: option.splits)

lemma sql_save_docs:
  assumes wf: "table_wf t" and c: "class_ok c"
  shows "\<exists>t'. sql_save c now ns d t = (Inr d, t') \<and> table_wf t' \<and>
    sql_docs ns t' = put_doc (sc_wrap c d) (sql_docs ns t)"
proof (cases "find (row_at ns (sc_coll c) (m_id (sc_model c) d)) t")
  case None
  then show ?thesis using insert_docs [OF wf c None, of now]
    by (simp add: sql_save_def require_collection_def class_okD [OF c] sql_fetch_def sbind_def sql_add_def
        sql_insert_def)
next
  case (Some row)
  have ok: "row_ok (write_row c now d row)"
    using find_row_SomeD [OF Some] by (auto intro: row_ok_write [OF c])
  show ?thesis using update_docs [OF wf c refl Some, of "write_row c now d"] ok Some
    by (simp add: sql_save_def require_collection_def class_okD [OF c] sql_fetch_def sbind_def sql_update_def)
qed

section \<open>Documents of the local store\<close>

definition local_docs :: "local_store \<Rightarrow> documents" where
  "local_docs s coll i =
     (if coll = ''computers'' then map_option Computer_Doc (map_of (docs (computers s)) i)
      else if coll = ''tasks'' then map_option Task_Doc (map_of (docs (tasks s)) i)
      else if coll = ''runs'' then map_option Run_Doc (map_of (docs (runs s)) i)
      else if coll = ''workspaces'' then map_option Workspace_Doc (map_of (docs (workspaces s)) i)
      else if coll = ''grants'' then map_option Grant_Doc (map_of (docs (grants s)) i)
      else if coll = ''commands'' then map_option Command_Doc (map_of (docs (commands s)) i)
      else if coll = ''runtime_credentials'' then
        map_option Runtime_Credential_Doc (map_of (docs (runtime_credentials s)) i)
      else if coll = ''registration_credentials'' then
        map_option Registration_Credential_Doc (map_of (docs (registration_credentials s)) i)
      else if coll = ''run_credentials'' then
        map_option Run_Credential_Doc (map_of (docs (run_credentials s)) i)
      else if coll = ''audit'' then map_option Audit_Doc (map_of (docs (audit s)) i)
      else None)"

fun doc_valid :: "sql_doc \<Rightarrow> bool" where
  "doc_valid (Computer_Doc d) = valid_computer d"
| "doc_valid (Task_Doc d) = valid_task d"
| "doc_valid (Run_Doc d) = valid_run d"
| "doc_valid (Workspace_Doc d) = valid_workspace d"
| "doc_valid (Grant_Doc d) = valid_grant d"
| "doc_valid (Command_Doc d) = valid_command d"
| "doc_valid (Runtime_Credential_Doc d) = valid_runtime_credential d"
| "doc_valid (Registration_Credential_Doc d) = valid_registration_credential d"
| "doc_valid (Run_Credential_Doc d) = valid_run_credential d"
| "doc_valid (Audit_Doc d) = valid_audit_event d"

definition docs_valid :: "documents \<Rightarrow> bool" where
  "docs_valid v \<longleftrightarrow> (\<forall>coll i d. v coll i = Some d \<longrightarrow> doc_valid d)"

lemma docs_validD: "docs_valid v \<Longrightarrow> v coll i = Some d \<Longrightarrow> doc_valid d"
  unfolding docs_valid_def by blast

lemma docs_valid_put: "docs_valid v \<Longrightarrow> doc_valid d \<Longrightarrow> docs_valid (put_doc d v)"
  by (auto simp: docs_valid_def put_doc_def split: if_splits)

lemma docs_valid_keep: "docs_valid v \<Longrightarrow> docs_valid (keep_docs P v)"
  by (auto simp: docs_valid_def keep_docs_def split: option.splits if_splits)

lemma model_valid [simp]:
  "m_valid computer_model = valid_computer" "m_valid task_model = valid_task" "m_valid run_model = valid_run"
  "m_valid workspace_model = valid_workspace" "m_valid grant_model = valid_grant"
  "m_valid command_model = valid_command" "m_valid runtime_credential_model = valid_runtime_credential"
  "m_valid registration_credential_model = valid_registration_credential"
  "m_valid run_credential_model = valid_run_credential" "m_valid audit_model = valid_audit_event"
  by (simp_all add: model_defs)

lemma local_docs_simps [simp]:
  "local_docs s ''computers'' i = map_option Computer_Doc (map_of (docs (computers s)) i)"
  "local_docs s ''tasks'' i = map_option Task_Doc (map_of (docs (tasks s)) i)"
  "local_docs s ''runs'' i = map_option Run_Doc (map_of (docs (runs s)) i)"
  "local_docs s ''workspaces'' i = map_option Workspace_Doc (map_of (docs (workspaces s)) i)"
  "local_docs s ''grants'' i = map_option Grant_Doc (map_of (docs (grants s)) i)"
  "local_docs s ''commands'' i = map_option Command_Doc (map_of (docs (commands s)) i)"
  "local_docs s ''runtime_credentials'' i =
     map_option Runtime_Credential_Doc (map_of (docs (runtime_credentials s)) i)"
  "local_docs s ''registration_credentials'' i =
     map_option Registration_Credential_Doc (map_of (docs (registration_credentials s)) i)"
  "local_docs s ''run_credentials'' i = map_option Run_Credential_Doc (map_of (docs (run_credentials s)) i)"
  "local_docs s ''audit'' i = map_option Audit_Doc (map_of (docs (audit s)) i)"
  by (simp_all add: local_docs_def)

lemma local_docs_update:
  "local_docs (s\<lparr>computers := c1\<rparr>) = (local_docs s)(''computers'' := (\<lambda>i. map_option Computer_Doc (map_of (docs c1) i)))"
  "local_docs (s\<lparr>tasks := c2\<rparr>) = (local_docs s)(''tasks'' := (\<lambda>i. map_option Task_Doc (map_of (docs c2) i)))"
  "local_docs (s\<lparr>runs := c3\<rparr>) = (local_docs s)(''runs'' := (\<lambda>i. map_option Run_Doc (map_of (docs c3) i)))"
  "local_docs (s\<lparr>workspaces := c4\<rparr>) =
     (local_docs s)(''workspaces'' := (\<lambda>i. map_option Workspace_Doc (map_of (docs c4) i)))"
  "local_docs (s\<lparr>grants := c5\<rparr>) = (local_docs s)(''grants'' := (\<lambda>i. map_option Grant_Doc (map_of (docs c5) i)))"
  "local_docs (s\<lparr>commands := c6\<rparr>) =
     (local_docs s)(''commands'' := (\<lambda>i. map_option Command_Doc (map_of (docs c6) i)))"
  "local_docs (s\<lparr>runtime_credentials := c7\<rparr>) =
     (local_docs s)(''runtime_credentials'' := (\<lambda>i. map_option Runtime_Credential_Doc (map_of (docs c7) i)))"
  "local_docs (s\<lparr>registration_credentials := c8\<rparr>) =
     (local_docs s)(''registration_credentials'' := (\<lambda>i. map_option Registration_Credential_Doc (map_of (docs c8) i)))"
  "local_docs (s\<lparr>run_credentials := c9\<rparr>) =
     (local_docs s)(''run_credentials'' := (\<lambda>i. map_option Run_Credential_Doc (map_of (docs c9) i)))"
  "local_docs (s\<lparr>audit := c10\<rparr>) = (local_docs s)(''audit'' := (\<lambda>i. map_option Audit_Doc (map_of (docs c10) i)))"
  by (auto simp: local_docs_def fun_eq_iff)

section \<open>The simulation\<close>

definition sim :: "string \<Rightarrow> local_store \<Rightarrow> sql_table \<Rightarrow> bool" where
  "sim ns s t \<longleftrightarrow> store_inv s \<and> table_wf t \<and> docs_valid (local_docs s) \<and> sql_docs ns t = local_docs s"

text \<open>A local computation and a computation on the table that return the same and end in related states.\<close>

definition matches :: "string \<Rightarrow> (local_store, 'a) comp \<Rightarrow> (sql_table, 'a) comp \<Rightarrow> local_store \<Rightarrow> sql_table \<Rightarrow> bool"
  where "matches ns m n s t \<longleftrightarrow> fst (n t) = fst (m s) \<and> sim ns (snd (m s)) (snd (n t))"

lemma matches_sbind:
  assumes "matches ns m n s t"
    and "\<And>x s' t'. m s = (Inr x, s') \<Longrightarrow> n t = (Inr x, t') \<Longrightarrow> sim ns s' t' \<Longrightarrow> matches ns (f x) (g x) s' t'"
  shows "matches ns (sbind m f) (sbind n g) s t"
proof -
  obtain r s' where m: "m s = (r, s')" by (cases "m s")
  obtain t' where n: "n t = (r, t')" using assms(1) m by (cases "n t") (auto simp: matches_def)
  have sim: "sim ns s' t'" using assms(1) m n by (simp add: matches_def)
  show ?thesis
  proof (cases r)
    case (Inl e)
    then show ?thesis using m n sim by (simp add: matches_def)
  next
    case (Inr x)
    then show ?thesis using assms(2) [of x s' t'] m n sim by (simp add: matches_def)
  qed
qed

lemma matches_pure [simp]:
  "matches ns (sreturn x) (sreturn x) s t \<longleftrightarrow> sim ns s t" "matches ns (sraise e) (sraise e) s t \<longleftrightarrow> sim ns s t"
  "matches ns (slift r) (slift r) s t \<longleftrightarrow> sim ns s t"
  by (simp_all add: matches_def)

lemma matches_reply: "matches ns m n s t \<Longrightarrow> matches ns (reply f m) (reply f n) s t"
  unfolding reply_def by (rule matches_sbind) simp_all

lemma matches_session:
  assumes "sim ns s t" and "fst (n t) = fst (m s)"
    and "\<And>x. fst (m s) = Inr x \<Longrightarrow> sim ns (snd (m s)) (snd (n t))"
    and "\<And>e. fst (m s) = Inl e \<Longrightarrow> snd (m s) = s"
  shows "matches ns m (sql_session False n) s t"
proof -
  obtain r s' where m: "m s = (r, s')" by (cases "m s")
  obtain t' where n: "n t = (r, t')" using assms(2) m by (cases "n t") auto
  show ?thesis using assms m n by (cases r) (auto simp: matches_def sql_session_def)
qed

lemma sim_put:
  assumes "sim ns s t" "class_ok c" "doc_valid (sc_wrap c d)" "m s = (Inr d, s')" "store_inv s'"
    "local_docs s' = put_doc (sc_wrap c d) (local_docs s)"
  shows "matches ns m (sql_save c now ns d) s t"
  using sql_save_docs [of t c now ns d] assms by (auto simp: sim_def matches_def docs_valid_put)

end
