(* ===== verification/Sql_Simulation.thy ===== *)
theory Sql_Simulation
  imports Sql_Refinement
begin

text \<open>
  The simulation, call by call: from related states the table and the local store give the same reply (the
  same documents in some order, for a listing) and end in related states.
\<close>

section \<open>Saving and reading one document\<close>

lemma matches_zoom_save:
  assumes "sim ns s t" "class_ok c" "doc_valid (sc_wrap c d)" "path_ok (m_id (sc_model c) d)"
    and "store_inv (snd (zoom g u (coll_save (sc_model c) d) s))"
    and "\<And>c'. map_of (docs c') = (map_of (docs (g s)))(m_id (sc_model c) d \<mapsto> d) \<Longrightarrow>
      local_docs (u (\<lambda>_. c') s) = put_doc (sc_wrap c d) (local_docs s)"
  shows "matches ns (zoom g u (coll_save (sc_model c) d)) (sql_save c now ns d) s t"
proof (rule sim_put [OF assms(1,2,3) _ assms(5)])
  show "zoom g u (coll_save (sc_model c) d) s = (Inr d, snd (zoom g u (coll_save (sc_model c) d) s))"
    using assms(4) by (simp add: zoom_def coll_save_def)
  show "local_docs (snd (zoom g u (coll_save (sc_model c) d) s)) = put_doc (sc_wrap c d) (local_docs s)"
    using assms(4,6) by (simp add: zoom_snd coll_save_view)
qed

lemma put_doc_fun: "put_doc d v = v(doc_coll d := (\<lambda>i. if i = doc_id d then Some d else v (doc_coll d) i))"
  by (auto simp: put_doc_def fun_eq_iff)

lemma sim_store_inv: "sim ns s t \<Longrightarrow> store_inv s"
  by (simp add: sim_def)

lemma matches_saves:
  assumes "sim ns s t"
  shows "path_ok (comp_id d1) \<Longrightarrow> valid_computer d1 \<Longrightarrow>
      matches ns (on_computers (coll_save computer_model d1)) (sql_save computer_class now ns d1) s t"
    and "path_ok (task_id d2) \<Longrightarrow> valid_task d2 \<Longrightarrow>
      matches ns (on_tasks (coll_save task_model d2)) (sql_save task_class now ns d2) s t"
    and "path_ok (run_id d3) \<Longrightarrow> valid_run d3 \<Longrightarrow>
      matches ns (on_runs (coll_save run_model d3)) (sql_save run_class now ns d3) s t"
    and "path_ok (ws_id d4) \<Longrightarrow> valid_workspace d4 \<Longrightarrow>
      matches ns (on_workspaces (coll_save workspace_model d4)) (sql_save workspace_class now ns d4) s t"
    and "path_ok (grant_id d5) \<Longrightarrow> valid_grant d5 \<Longrightarrow>
      matches ns (on_grants (coll_save grant_model d5)) (sql_save grant_class now ns d5) s t"
    and "path_ok (cmd_id d6) \<Longrightarrow> valid_command d6 \<Longrightarrow>
      matches ns (on_commands (coll_save command_model d6)) (sql_save command_class now ns d6) s t"
    and "path_ok (rc_id d7) \<Longrightarrow> valid_runtime_credential d7 \<Longrightarrow>
      matches ns (on_runtime_credentials (coll_save runtime_credential_model d7))
        (sql_save runtime_credential_class now ns d7) s t"
    and "path_ok (reg_id d8) \<Longrightarrow> valid_registration_credential d8 \<Longrightarrow>
      matches ns (on_registration_credentials (coll_save registration_credential_model d8))
        (sql_save registration_credential_class now ns d8) s t"
    and "path_ok (tc_id d9) \<Longrightarrow> valid_run_credential d9 \<Longrightarrow>
      matches ns (on_run_credentials (coll_save run_credential_model d9))
        (sql_save run_credential_class now ns d9) s t"
proof -
  note inv = keepsD [OF keeps_zoom_inv(1) [OF keeps_coll_save] sim_store_inv [OF assms]]
    keepsD [OF keeps_zoom_inv(2) [OF keeps_coll_save] sim_store_inv [OF assms]]
    keepsD [OF keeps_zoom_inv(3) [OF keeps_coll_save] sim_store_inv [OF assms]]
    keepsD [OF keeps_zoom_inv(4) [OF keeps_coll_save] sim_store_inv [OF assms]]
    keepsD [OF keeps_zoom_inv(5) [OF keeps_coll_save] sim_store_inv [OF assms]]
    keepsD [OF keeps_zoom_inv(6) [OF keeps_coll_save] sim_store_inv [OF assms]]
    keepsD [OF keeps_zoom_inv(7) [OF keeps_coll_save] sim_store_inv [OF assms]]
    keepsD [OF keeps_zoom_inv(8) [OF keeps_coll_save] sim_store_inv [OF assms]]
    keepsD [OF keeps_zoom_inv(9) [OF keeps_coll_save] sim_store_inv [OF assms]]
  show "path_ok (comp_id d1) \<Longrightarrow> valid_computer d1 \<Longrightarrow>
      matches ns (on_computers (coll_save computer_model d1)) (sql_save computer_class now ns d1) s t"
    using matches_zoom_save [OF assms, of computer_class d1 computers computers_update now] inv(1)
    by (auto simp: local_docs_update put_doc_fun fun_eq_iff)
  show "path_ok (task_id d2) \<Longrightarrow> valid_task d2 \<Longrightarrow>
      matches ns (on_tasks (coll_save task_model d2)) (sql_save task_class now ns d2) s t"
    using matches_zoom_save [OF assms, of task_class d2 tasks tasks_update now] inv(2)
    by (auto simp: local_docs_update put_doc_fun fun_eq_iff)
  show "path_ok (run_id d3) \<Longrightarrow> valid_run d3 \<Longrightarrow>
      matches ns (on_runs (coll_save run_model d3)) (sql_save run_class now ns d3) s t"
    using matches_zoom_save [OF assms, of run_class d3 runs runs_update now] inv(3)
    by (auto simp: local_docs_update put_doc_fun fun_eq_iff)
  show "path_ok (ws_id d4) \<Longrightarrow> valid_workspace d4 \<Longrightarrow>
      matches ns (on_workspaces (coll_save workspace_model d4)) (sql_save workspace_class now ns d4) s t"
    using matches_zoom_save [OF assms, of workspace_class d4 workspaces workspaces_update now] inv(4)
    by (auto simp: local_docs_update put_doc_fun fun_eq_iff)
  show "path_ok (grant_id d5) \<Longrightarrow> valid_grant d5 \<Longrightarrow>
      matches ns (on_grants (coll_save grant_model d5)) (sql_save grant_class now ns d5) s t"
    using matches_zoom_save [OF assms, of grant_class d5 grants grants_update now] inv(5)
    by (auto simp: local_docs_update put_doc_fun fun_eq_iff)
  show "path_ok (cmd_id d6) \<Longrightarrow> valid_command d6 \<Longrightarrow>
      matches ns (on_commands (coll_save command_model d6)) (sql_save command_class now ns d6) s t"
    using matches_zoom_save [OF assms, of command_class d6 commands commands_update now] inv(6)
    by (auto simp: local_docs_update put_doc_fun fun_eq_iff)
  show "path_ok (rc_id d7) \<Longrightarrow> valid_runtime_credential d7 \<Longrightarrow>
      matches ns (on_runtime_credentials (coll_save runtime_credential_model d7))
        (sql_save runtime_credential_class now ns d7) s t"
    using matches_zoom_save [OF assms, of runtime_credential_class d7 runtime_credentials
        runtime_credentials_update now] inv(7)
    by (auto simp: local_docs_update put_doc_fun fun_eq_iff)
  show "path_ok (reg_id d8) \<Longrightarrow> valid_registration_credential d8 \<Longrightarrow>
      matches ns (on_registration_credentials (coll_save registration_credential_model d8))
        (sql_save registration_credential_class now ns d8) s t"
    using matches_zoom_save [OF assms, of registration_credential_class d8 registration_credentials
        registration_credentials_update now] inv(8)
    by (auto simp: local_docs_update put_doc_fun fun_eq_iff)
  show "path_ok (tc_id d9) \<Longrightarrow> valid_run_credential d9 \<Longrightarrow>
      matches ns (on_run_credentials (coll_save run_credential_model d9))
        (sql_save run_credential_class now ns d9) s t"
    using matches_zoom_save [OF assms, of run_credential_class d9 run_credentials run_credentials_update now] inv(9)
    by (auto simp: local_docs_update put_doc_fun fun_eq_iff)
qed

text \<open>Reading: the row found under a collection and an id carries the document of the local store.\<close>

definition class_docs :: "'d sql_class \<Rightarrow> documents \<Rightarrow> string \<Rightarrow> 'd option" where
  "class_docs c v i = (case v (sc_coll c) i of None \<Rightarrow> None | Some x \<Rightarrow> sc_unwrap c x)"

lemma class_docs_local [simp]:
  "class_docs computer_class (local_docs s) = map_of (docs (computers s))"
  "class_docs task_class (local_docs s) = map_of (docs (tasks s))"
  "class_docs run_class (local_docs s) = map_of (docs (runs s))"
  "class_docs workspace_class (local_docs s) = map_of (docs (workspaces s))"
  "class_docs grant_class (local_docs s) = map_of (docs (grants s))"
  "class_docs command_class (local_docs s) = map_of (docs (commands s))"
  "class_docs runtime_credential_class (local_docs s) = map_of (docs (runtime_credentials s))"
  "class_docs registration_credential_class (local_docs s) = map_of (docs (registration_credentials s))"
  "class_docs run_credential_class (local_docs s) = map_of (docs (run_credentials s))"
  "class_docs audit_class (local_docs s) = map_of (docs (audit s))"
  by (auto simp: class_docs_def fun_eq_iff class_defs local_docs_def split: option.splits)

lemma find_class_docs:
  assumes "table_wf t" "class_ok c"
  shows "find (row_at ns (sc_coll c) i) t = None \<Longrightarrow> class_docs c (sql_docs ns t) i = None"
    and "find (row_at ns (sc_coll c) i) t = Some row \<Longrightarrow>
      \<exists>d. class_docs c (sql_docs ns t) i = Some d \<and> row_payload row = sc_wrap c d \<and>
        m_id (sc_model c) d = i \<and> row_ok row \<and>
        validate_row c row = (if m_valid (sc_model c) d then Inr d else Inl (ValidationError (m_name (sc_model c))))"
proof -
  show "find (row_at ns (sc_coll c) i) t = None \<Longrightarrow> class_docs c (sql_docs ns t) i = None"
    by (simp add: class_docs_def sql_docs_def)
  assume f: "find (row_at ns (sc_coll c) i) t = Some row"
  have r: "row \<in> set t" "row_coll row = sc_coll c" "row_id row = i" using find_row_SomeD [OF f] by auto
  then have ok: "row_ok row" using assms(1) by (auto simp: table_wf_def list_all_iff)
  then have "doc_coll (row_payload row) = sc_coll c" using r by (simp add: row_ok_def)
  then obtain d where d: "row_payload row = sc_wrap c d" using class_ok_doc [OF assms(2)] by blast
  then have "m_id (sc_model c) d = i" using ok r class_okD(4) [OF assms(2), of d] by (simp add: row_ok_def)
  then show "\<exists>d. class_docs c (sql_docs ns t) i = Some d \<and> row_payload row = sc_wrap c d \<and>
        m_id (sc_model c) d = i \<and> row_ok row \<and>
        validate_row c row = (if m_valid (sc_model c) d then Inr d else Inl (ValidationError (m_name (sc_model c))))"
    using d f ok class_okD(2) [OF assms(2), of d]
    by (auto simp: class_docs_def sql_docs_def validate_row_def)
qed

lemma sql_get_lookup:
  assumes "sim ns s t" "class_ok c"
  shows "sql_get c ns i t = (lookup_doc (sc_model c) i (class_docs c (local_docs s)), t)"
proof -
  have wf: "table_wf t" and eq: "sql_docs ns t = local_docs s" using assms(1) by (simp_all add: sim_def)
  show ?thesis
  proof (cases "find (row_at ns (sc_coll c) i) t")
    case None
    then show ?thesis using find_class_docs(1) [OF wf assms(2) None]
      by (simp add: sql_get_def require_collection_def class_okD [OF assms(2)] sql_fetch_def sbind_def
          lookup_doc_def eq)
  next
    case (Some row)
    then show ?thesis using find_class_docs(2) [OF wf assms(2) Some]
      by (auto simp: sql_get_def require_collection_def class_okD [OF assms(2)] sql_fetch_def sbind_def
          lookup_doc_def eq)
  qed
qed

lemma matches_zoom_get:
  assumes "sim ns s t" "class_ok c" "path_ok i" "\<And>c. c = g s \<Longrightarrow> u (\<lambda>_. c) s = s"
    "class_docs c (local_docs s) = map_of (docs (g s))"
  shows "matches ns (zoom g u (coll_get (sc_model c) i)) (sql_get c ns i) s t"
  using assms by (simp add: matches_def zoom_def coll_get_def sql_get_lookup)

lemma matches_gets:
  assumes "sim ns s t" "path_ok i"
  shows "matches ns (get_computer i) (sql_get computer_class ns i) s t"
    and "matches ns (get_task i) (sql_get task_class ns i) s t"
    and "matches ns (get_run i) (sql_get run_class ns i) s t"
    and "matches ns (get_grant i) (sql_get grant_class ns i) s t"
    and "matches ns (get_command i) (sql_get command_class ns i) s t"
    and "matches ns (get_runtime_credential i) (sql_get runtime_credential_class ns i) s t"
    and "matches ns (get_run_credential i) (sql_get run_credential_class ns i) s t"
  using matches_zoom_get [OF assms(1) _ assms(2), of computer_class computers computers_update]
    matches_zoom_get [OF assms(1) _ assms(2), of task_class tasks tasks_update]
    matches_zoom_get [OF assms(1) _ assms(2), of run_class runs runs_update]
    matches_zoom_get [OF assms(1) _ assms(2), of grant_class grants grants_update]
    matches_zoom_get [OF assms(1) _ assms(2), of command_class commands commands_update]
    matches_zoom_get [OF assms(1) _ assms(2), of runtime_credential_class runtime_credentials
      runtime_credentials_update]
    matches_zoom_get [OF assms(1) _ assms(2), of run_credential_class run_credentials run_credentials_update]
  by (simp_all add: op_defs)

section \<open>Listings\<close>

lemma smapM_slift:
  "(\<And>x. x \<in> set xs \<Longrightarrow> f x = Inr (g x)) \<Longrightarrow> smapM (\<lambda>x. slift (f x)) xs s = (Inr (map g xs), s)"
  by (induction xs) (simp_all add: sbind_def)

lemma distinct_map_key: "distinct (map k xs) \<Longrightarrow> distinct (map k (sorted_desc g xs))"
  by (metis distinct_map distinct_sorted_desc set_sorted_desc)

lemma class_valid: "doc_valid (Computer_Doc d1) = m_valid computer_model d1"
    "doc_valid (Task_Doc d2) = m_valid task_model d2" "doc_valid (Run_Doc d3) = m_valid run_model d3"
    "doc_valid (Workspace_Doc d4) = m_valid workspace_model d4" "doc_valid (Grant_Doc d5) = m_valid grant_model d5"
    "doc_valid (Command_Doc d6) = m_valid command_model d6" "doc_valid (Audit_Doc d7) = m_valid audit_model d7"
  by simp_all

lemma row_ok_columns:
  assumes "row_ok row"
  shows "row_parent row = projected_parent (row_payload row)"
    and "row_computer row = (case row_payload row of Run_Doc r \<Rightarrow> Some (run_computer_id r) | _ \<Rightarrow> None)"
    and "row_status row = (case row_payload row of Run_Doc r \<Rightarrow> Some (run_status r) | _ \<Rightarrow> None)"
proof -
  let ?p = "apply_projection (row_payload row) row"
  have eq: "?p = row" using assms by (simp add: row_ok_def)
  have "row_parent ?p = projected_parent (row_payload row)"
    "row_computer ?p = (case row_payload row of Run_Doc r \<Rightarrow> Some (run_computer_id r) | _ \<Rightarrow> None)"
    "row_status ?p = (case row_payload row of Run_Doc r \<Rightarrow> Some (run_status r) | _ \<Rightarrow> None)"
    by (simp_all add: apply_projection_def)
  then show "row_parent row = projected_parent (row_payload row)"
    "row_computer row = (case row_payload row of Run_Doc r \<Rightarrow> Some (run_computer_id r) | _ \<Rightarrow> None)"
    "row_status row = (case row_payload row of Run_Doc r \<Rightarrow> Some (run_status r) | _ \<Rightarrow> None)"
    unfolding eq .
qed

lemma sql_list_view:
  assumes wf: "table_wf t" and c: "class_ok c"
    and valid: "\<And>i d. class_docs c (sql_docs ns t) i = Some d \<Longrightarrow> p = None \<or> projected_parent (sc_wrap c d) = p \<Longrightarrow>
      m_valid (sc_model c) d"
  shows "\<exists>ds. sql_list c ns p t = (Inr ds, t) \<and> distinct (map (m_id (sc_model c)) ds) \<and>
    set ds = {d. class_docs c (sql_docs ns t) (m_id (sc_model c) d) = Some d \<and>
      (p = None \<or> projected_parent (sc_wrap c d) = p)}"
proof -
  let ?P = "\<lambda>row. row_ns row = ns \<and> row_coll row = sc_coll c \<and> (p = None \<or> row_parent row = p)"
  let ?rows = "sorted_desc row_updated (filter ?P t)"
  let ?g = "\<lambda>row. the (sc_unwrap c (row_payload row))"
  have row: "class_docs c (sql_docs ns t) (row_id row) = Some (?g row) \<and> row_payload row = sc_wrap c (?g row) \<and>
      m_id (sc_model c) (?g row) = row_id row \<and> row_ok row \<and> (p = None \<or> row_parent row = p \<longrightarrow> validate_row c row = Inr (?g row))"
    if "row \<in> set t" "row_ns row = ns" "row_coll row = sc_coll c" for row
  proof -
    have f: "find (row_at ns (sc_coll c) (row_id row)) t = Some row"
      using find_row_mem [OF wf that(1)] that by simp
    obtain d where d: "class_docs c (sql_docs ns t) (row_id row) = Some d" "row_payload row = sc_wrap c d"
        "m_id (sc_model c) d = row_id row" "row_ok row"
        "validate_row c row = (if m_valid (sc_model c) d then Inr d else Inl (ValidationError (m_name (sc_model c))))"
      using find_class_docs(2) [OF wf c f] by blast
    have "m_valid (sc_model c) d" if "p = None \<or> row_parent row = p"
      using valid [OF d(1)] that row_ok_columns(1) [OF d(4)] d(2) by auto
    moreover have "?g row = d" using d(2) class_okD(2) [OF c, of d] by simp
    ultimately show ?thesis using d by simp
  qed
  have list: "sql_list c ns p t = (Inr (map ?g ?rows), t)"
    using smapM_slift [of ?rows "validate_row c" ?g t] row
    by (simp add: sql_list_def require_collection_def class_okD [OF c] sbind_def sql_select_def)
  have ids: "map (m_id (sc_model c)) (map ?g ?rows) = map row_id ?rows" using row by auto
  have "distinct (map row_key (filter ?P t))" using wf by (simp add: table_wf_def distinct_map_filter)
  then have "distinct (map row_id (filter ?P t))" by (simp add: distinct_map inj_on_def row_key_def)
  then have dist: "distinct (map (m_id (sc_model c)) (map ?g ?rows))" unfolding ids by (rule distinct_map_key)
  have "set (map ?g ?rows) = {d. class_docs c (sql_docs ns t) (m_id (sc_model c) d) = Some d \<and>
      (p = None \<or> projected_parent (sc_wrap c d) = p)}" (is "?L = ?R")
  proof (intro set_eqI iffI)
    fix d assume "d \<in> ?L"
    then obtain r where r: "r \<in> set t" "?P r" "d = ?g r" by auto
    have "row_parent r = projected_parent (sc_wrap c d)"
      using row [OF r(1)] r row_ok_columns(1) [of r] by simp
    then show "d \<in> ?R" using row [OF r(1)] r by auto
  next
    fix d assume d: "d \<in> ?R"
    let ?i = "m_id (sc_model c) d"
    have "class_docs c (sql_docs ns t) ?i = Some d" using d by simp
    then obtain r where f: "find (row_at ns (sc_coll c) ?i) t = Some r"
      using find_class_docs(1) [OF wf c, of ns ?i] by (cases "find (row_at ns (sc_coll c) ?i) t") auto
    note r = find_row_SomeD [OF f]
    have g: "?g r = d" using row [of r] r d by simp
    have "row_parent r = projected_parent (sc_wrap c d)"
      using row [of r] r g row_ok_columns(1) [of r] by simp
    then have "r \<in> set ?rows" using r d by auto
    then show "d \<in> ?L" using g by force
  qed
  then show ?thesis using list dist by blast
qed

lemma sql_list_docs:
  assumes sim: "sim ns s t" and c: "class_ok c"
    and valid: "\<And>d. doc_valid (sc_wrap c d) = m_valid (sc_model c) d"
  shows "\<exists>ds. sql_list c ns p t = (Inr ds, t) \<and> distinct (map (m_id (sc_model c)) ds) \<and>
    set ds = {d. class_docs c (local_docs s) (m_id (sc_model c) d) = Some d \<and>
      (p = None \<or> projected_parent (sc_wrap c d) = p)}"
proof -
  have wf: "table_wf t" and eq: "sql_docs ns t = local_docs s" using sim by (simp_all add: sim_def)
  have "m_valid (sc_model c) d" if q: "class_docs c (sql_docs ns t) i = Some d" for i d
  proof -
    obtain row where row: "find (row_at ns (sc_coll c) i) t = Some row"
      using q by (cases "find (row_at ns (sc_coll c) i) t") (simp_all add: class_docs_def sql_docs_def)
    have "row_payload row = sc_wrap c d" using find_class_docs(2) [OF wf c row] q by auto
    then have "local_docs s (sc_coll c) i = Some (sc_wrap c d)" using row eq [symmetric] by (simp add: sql_docs_def)
    moreover have "docs_valid (local_docs s)" using sim by (simp add: sim_def)
    ultimately show ?thesis using docs_validD valid by blast
  qed
  then show ?thesis using sql_list_view [OF wf c, of ns p] eq by simp
qed

text \<open>A collection of a tenant keeps the contract of a document collection.\<close>

lemma sql_contract:
  assumes c: "class_ok c"
  shows "document_store (sql_save c now ns) (sql_get c ns) (\<lambda>i. sql_delete ns (row_at ns (sc_coll c) i))
    (\<lambda>p. sql_list c ns (Some p)) (\<lambda>t. class_docs c (sql_docs ns t)) table_wf (m_id (sc_model c))
    (\<lambda>d. projected_parent (sc_wrap c d)) (m_valid (sc_model c)) (\<lambda>_. True)"
proof
  fix t :: sql_table and d
  assume "table_wf t"
  then obtain t' where t': "sql_save c now ns d t = (Inr d, t')" "table_wf t'"
      "sql_docs ns t' = put_doc (sc_wrap c d) (sql_docs ns t)" using sql_save_docs [OF _ c] by blast
  then show "\<exists>t'. sql_save c now ns d t = (Inr d, t') \<and> table_wf t' \<and>
      class_docs c (sql_docs ns t') = (class_docs c (sql_docs ns t))(m_id (sc_model c) d \<mapsto> d)"
    by (auto simp: class_docs_def put_doc_def class_okD [OF c] fun_eq_iff)
next
  fix t :: sql_table and i
  assume wf: "table_wf t"
  have d: "distinct (map row_key t)" using wf by (simp add: table_wf_def)
  let ?t = "filter (\<lambda>row. \<not> (row_ns row = ns \<and> row_at ns (sc_coll c) i row)) t"
  have "class_docs c (sql_docs ns ?t) = (class_docs c (sql_docs ns t))(i := None)"
    by (auto simp: class_docs_def sql_docs_def fun_eq_iff find_filter_key [OF d] row_at_def
        dest!: find_row_SomeD split: option.splits)
  moreover have "table_wf ?t" using wf by (auto simp: table_wf_def list_all_iff intro: distinct_map_filter)
  ultimately show "\<exists>t'. sql_delete ns (row_at ns (sc_coll c) i) t = (Inr (), t') \<and> table_wf t' \<and>
      class_docs c (sql_docs ns t') = (class_docs c (sql_docs ns t))(i := None)"
    by (simp add: sql_delete_def)
next
  fix t :: sql_table and p
  assume "table_wf t" "\<forall>i d. class_docs c (sql_docs ns t) i = Some d \<longrightarrow>
      projected_parent (sc_wrap c d) = Some p \<longrightarrow> m_valid (sc_model c) d"
  then show "\<exists>ds. sql_list c ns (Some p) t = (Inr ds, t) \<and> distinct (map (m_id (sc_model c)) ds) \<and>
      set ds = {d. class_docs c (sql_docs ns t) (m_id (sc_model c) d) = Some d \<and> projected_parent (sc_wrap c d) = Some p}"
    using sql_list_view [OF _ c, of t ns "Some p"] by simp
next
  fix t :: sql_table and i d
  assume wf: "table_wf t" and d: "class_docs c (sql_docs ns t) i = Some d"
  obtain row where row: "find (row_at ns (sc_coll c) i) t = Some row"
    using d by (cases "find (row_at ns (sc_coll c) i) t") (simp_all add: class_docs_def sql_docs_def)
  note f = find_class_docs(2) [OF wf c row]
  show "m_id (sc_model c) d = i \<and> True" using f d by auto
  assume "m_valid (sc_model c) d"
  then show "sql_get c ns i t = (Inr d, t)" using f d row
    by (auto simp: sql_get_def require_collection_def class_okD [OF c] sql_fetch_def sbind_def)
next
  fix t :: sql_table and i
  assume wf: "table_wf t" and n: "class_docs c (sql_docs ns t) i = None"
  then have "find (row_at ns (sc_coll c) i) t = None"
    using find_class_docs(2) [OF wf c, of ns i] by (cases "find (row_at ns (sc_coll c) i) t") auto
  then show "\<exists>k. sql_get c ns i t = (Inl (KeyError k), t)"
    by (simp add: sql_get_def require_collection_def class_okD [OF c] sql_fetch_def sbind_def)
qed

interpretation sql_run_docs: document_store "sql_save run_class now ns" "sql_get run_class ns"
  "\<lambda>i. sql_delete ns (row_at ns (sc_coll run_class) i)" "\<lambda>p. sql_list run_class ns (Some p)"
  "\<lambda>t. class_docs run_class (sql_docs ns t)" table_wf "m_id (sc_model run_class)"
  "\<lambda>d. projected_parent (sc_wrap run_class d)" "m_valid (sc_model run_class)" "\<lambda>_. True" for now ns
  by (rule sql_contract) simp

interpretation sql_grant_docs: document_store "sql_save grant_class now ns" "sql_get grant_class ns"
  "\<lambda>i. sql_delete ns (row_at ns (sc_coll grant_class) i)" "\<lambda>p. sql_list grant_class ns (Some p)"
  "\<lambda>t. class_docs grant_class (sql_docs ns t)" table_wf "m_id (sc_model grant_class)"
  "\<lambda>d. projected_parent (sc_wrap grant_class d)" "m_valid (sc_model grant_class)" "\<lambda>_. True" for now ns
  by (rule sql_contract) simp

text \<open>A reply of one store and of the other: equal, or the same documents in some order, each once.\<close>

definition same_reply :: "store_reply result \<Rightarrow> store_reply result \<Rightarrow> bool" where
  "same_reply a b = (case (a, b) of
     (Inr (Docs xs), Inr (Docs ys)) \<Rightarrow> set xs = set ys \<and> distinct xs \<and> distinct ys
   | _ \<Rightarrow> a = b)"

definition simulates ::
  "string \<Rightarrow> (local_store, store_reply) comp \<Rightarrow> (sql_table, store_reply) comp \<Rightarrow> local_store \<Rightarrow> sql_table \<Rightarrow> bool"
  where "simulates ns m n s t \<longleftrightarrow> same_reply (fst (n t)) (fst (m s)) \<and> sim ns (snd (m s)) (snd (n t))"

lemma matches_simulates:
  assumes "matches ns m n s t" and "\<And>x. \<not> (\<exists>xs. f x = Docs xs)"
  shows "simulates ns (reply f m) (reply f n) s t"
proof -
  have "matches ns (reply f m) (reply f n) s t" by (rule matches_reply [OF assms(1)])
  moreover have "fst (reply f m s) \<noteq> Inr (Docs xs)" for xs
    using assms(2) by (auto simp: reply_def sbind_def split: prod.splits sum.splits)
  then have "same_reply (fst (reply f m s)) (fst (reply f m s))"
    by (auto simp: same_reply_def split: sum.splits store_reply.splits)
  ultimately show ?thesis by (simp add: simulates_def matches_def)
qed

lemma simulates_list:
  assumes sim: "sim ns s t" and c: "class_ok c"
    and valid: "\<And>d. doc_valid (sc_wrap c d) = m_valid (sc_model c) d"
    and inv: "coll_inv (sc_model c) (g s)" and docs: "class_docs c (local_docs s) = map_of (docs (g s))"
    and same: "u (\<lambda>_. g s) s = s"
    and list: "\<exists>ds. m (g s) = (Inr ds, g s) \<and> distinct (map (m_id (sc_model c)) ds) \<and>
      set ds = {d. map_of (docs (g s)) (m_id (sc_model c) d) = Some d \<and>
        (p = None \<or> projected_parent (sc_wrap c d) = p)}"
  shows "simulates ns (reply (Docs \<circ> map (sc_wrap c)) (zoom g u m)) (reply (Docs \<circ> map (sc_wrap c)) (sql_list c ns p)) s t"
proof -
  obtain xs where xs: "sql_list c ns p t = (Inr xs, t)" "distinct (map (m_id (sc_model c)) xs)"
      "set xs = {d. map_of (docs (g s)) (m_id (sc_model c) d) = Some d \<and>
        (p = None \<or> projected_parent (sc_wrap c d) = p)}"
    using sql_list_docs [OF sim c valid, of p] docs by auto
  obtain ys where ys: "m (g s) = (Inr ys, g s)" "distinct (map (m_id (sc_model c)) ys)" "set ys = set xs"
    using list xs(3) by auto
  have wrap: "distinct (map (sc_wrap c) ds)" if "distinct (map (m_id (sc_model c)) ds)" for ds
    using that by (simp add: distinct_map inj_on_def) (metis class_okD(2) [OF c] option.inject)
  show ?thesis using xs ys wrap [OF xs(2)] wrap [OF ys(2)] same sim
    by (simp add: simulates_def same_reply_def reply_def sbind_def zoom_def)
qed

lemma coll_list_view:
  assumes inv: "coll_inv m c" and v: "\<forall>i d. map_of (docs c) i = Some d \<longrightarrow> m_valid m d"
  shows "\<exists>ds. coll_list m c = (Inr ds, c) \<and> distinct (map (m_id m) ds) \<and>
    set ds = {d. map_of (docs c) (m_id m d) = Some d}"
proof -
  have d: "distinct (map fst (docs c))" and i: "\<And>i d. map_of (docs c) i = Some d \<Longrightarrow> m_id m d = i"
    using inv unfolding coll_inv_def by blast+
  have all: "filter (m_valid m) (map snd (docs c)) = map snd (docs c)"
    using v d by (auto intro!: filter_True)
  have ids: "map (m_id m) (map snd (docs c)) = map fst (docs c)" using i d by auto
  have "distinct (map (m_id m) (sorted_desc (m_stamp m) (map snd (docs c))))"
    by (rule distinct_map_key) (simp only: ids d)
  moreover have "snd ` set (docs c) = {d. map_of (docs c) (m_id m d) = Some d}"
  proof (intro set_eqI iffI)
    fix x assume "x \<in> snd ` set (docs c)"
    then obtain k where "(k, x) \<in> set (docs c)" by auto
    then have "map_of (docs c) k = Some x" using d by simp
    then show "x \<in> {d. map_of (docs c) (m_id m d) = Some d}" using i by fastforce
  next
    fix x assume "x \<in> {d. map_of (docs c) (m_id m d) = Some d}"
    then show "x \<in> snd ` set (docs c)" using map_of_SomeD by force
  qed
  ultimately show ?thesis unfolding coll_list_def all by simp
qed

lemma sim_valid:
  assumes "sim ns s t"
  shows "map_of (docs (computers s)) i = Some d1 \<Longrightarrow> valid_computer d1"
    "map_of (docs (tasks s)) i = Some d2 \<Longrightarrow> valid_task d2"
    "map_of (docs (runs s)) i = Some d3 \<Longrightarrow> valid_run d3"
    "map_of (docs (workspaces s)) i = Some d4 \<Longrightarrow> valid_workspace d4"
    "map_of (docs (grants s)) i = Some d5 \<Longrightarrow> valid_grant d5"
    "map_of (docs (commands s)) i = Some d6 \<Longrightarrow> valid_command d6"
    "map_of (docs (runtime_credentials s)) i = Some d7 \<Longrightarrow> valid_runtime_credential d7"
    "map_of (docs (registration_credentials s)) i = Some d8 \<Longrightarrow> valid_registration_credential d8"
    "map_of (docs (run_credentials s)) i = Some d9 \<Longrightarrow> valid_run_credential d9"
    "map_of (docs (audit s)) i = Some d10 \<Longrightarrow> valid_audit_event d10"
proof -
  have v: "docs_valid (local_docs s)" using assms by (simp add: sim_def)
  show "map_of (docs (computers s)) i = Some d1 \<Longrightarrow> valid_computer d1"
    using docs_validD [OF v, of "''computers''" i "Computer_Doc d1"] by simp
  show "map_of (docs (tasks s)) i = Some d2 \<Longrightarrow> valid_task d2"
    using docs_validD [OF v, of "''tasks''" i "Task_Doc d2"] by simp
  show "map_of (docs (runs s)) i = Some d3 \<Longrightarrow> valid_run d3"
    using docs_validD [OF v, of "''runs''" i "Run_Doc d3"] by simp
  show "map_of (docs (workspaces s)) i = Some d4 \<Longrightarrow> valid_workspace d4"
    using docs_validD [OF v, of "''workspaces''" i "Workspace_Doc d4"] by simp
  show "map_of (docs (grants s)) i = Some d5 \<Longrightarrow> valid_grant d5"
    using docs_validD [OF v, of "''grants''" i "Grant_Doc d5"] by simp
  show "map_of (docs (commands s)) i = Some d6 \<Longrightarrow> valid_command d6"
    using docs_validD [OF v, of "''commands''" i "Command_Doc d6"] by simp
  show "map_of (docs (runtime_credentials s)) i = Some d7 \<Longrightarrow> valid_runtime_credential d7"
    using docs_validD [OF v, of "''runtime_credentials''" i "Runtime_Credential_Doc d7"] by simp
  show "map_of (docs (registration_credentials s)) i = Some d8 \<Longrightarrow> valid_registration_credential d8"
    using docs_validD [OF v, of "''registration_credentials''" i "Registration_Credential_Doc d8"] by simp
  show "map_of (docs (run_credentials s)) i = Some d9 \<Longrightarrow> valid_run_credential d9"
    using docs_validD [OF v, of "''run_credentials''" i "Run_Credential_Doc d9"] by simp
  show "map_of (docs (audit s)) i = Some d10 \<Longrightarrow> valid_audit_event d10"
    using docs_validD [OF v, of "''audit''" i "Audit_Doc d10"] by simp
qed

lemma store_invD:
  assumes "store_inv s"
  shows "coll_inv computer_model (computers s)" "coll_inv task_model (tasks s)" "coll_inv run_model (runs s)"
    "coll_inv workspace_model (workspaces s)" "coll_inv grant_model (grants s)"
    "coll_inv command_model (commands s)" "coll_inv runtime_credential_model (runtime_credentials s)"
    "coll_inv registration_credential_model (registration_credentials s)"
    "coll_inv run_credential_model (run_credentials s)" "coll_inv audit_model (audit s)"
  using assms by (simp_all add: store_inv_def)

lemma class_parent:
  "projected_parent (Workspace_Doc d1) = m_parent workspace_model d1"
  "projected_parent (Grant_Doc d2) = m_parent grant_model d2"
  "projected_parent (Command_Doc d3) = m_parent command_model d3"
  "projected_parent (Run_Credential_Doc d4) = m_parent run_credential_model d4"
  "projected_parent (Audit_Doc d5) = m_parent audit_model d5"
  by (simp_all add: projected_parent_def model_defs)

lemma coll_list_option:
  assumes inv: "coll_inv m c" and v: "\<And>i d. map_of (docs c) i = Some d \<Longrightarrow> m_valid m d" and ix: "m_indexed m"
  shows "\<exists>ds. (case p of Some i \<Rightarrow> coll_children m i | None \<Rightarrow> coll_list m) c = (Inr ds, c) \<and>
    distinct (map (m_id m) ds) \<and>
    set ds = {d. map_of (docs c) (m_id m d) = Some d \<and> (p = None \<or> m_parent m d = p)}"
proof (cases p)
  case None
  then show ?thesis using coll_list_view [OF inv] v by simp
next
  case (Some i)
  then show ?thesis using coll_children_view [OF inv ix, of i] v by simp
qed

lemma simulates_lists:
  assumes sim: "sim ns s t"
  shows "simulates ns (local_exec now List_Computers) (sql_exec now ns List_Computers) s t"
    "simulates ns (local_exec now List_Tasks) (sql_exec now ns List_Tasks) s t"
    "simulates ns (local_exec now List_Runs) (sql_exec now ns List_Runs) s t"
    "simulates ns (local_exec now (List_Workspaces p)) (sql_exec now ns (List_Workspaces p)) s t"
    "simulates ns (local_exec now (List_Grants p)) (sql_exec now ns (List_Grants p)) s t"
    "simulates ns (local_exec now (List_Commands p)) (sql_exec now ns (List_Commands p)) s t"
    "simulates ns (local_exec now (List_Audit_Events p)) (sql_exec now ns (List_Audit_Events p)) s t"
proof -
  note inv = store_invD [OF sim_store_inv [OF sim]]
  note v = sim_valid [OF sim]
  show "simulates ns (local_exec now List_Computers) (sql_exec now ns List_Computers) s t"
    using simulates_list [OF sim, of computer_class computers computers_update "coll_list computer_model" None]
      inv(1) coll_list_view [OF inv(1)] v(1) by (simp add: list_computers_def)
  show "simulates ns (local_exec now List_Tasks) (sql_exec now ns List_Tasks) s t"
    using simulates_list [OF sim, of task_class tasks tasks_update "coll_list task_model" None]
      inv(2) coll_list_view [OF inv(2)] v(2) by (simp add: list_tasks_def)
  show "simulates ns (local_exec now List_Runs) (sql_exec now ns List_Runs) s t"
    using simulates_list [OF sim, of run_class runs runs_update "coll_list run_model" None]
      inv(3) coll_list_view [OF inv(3)] v(3) by (simp add: list_runs_def)
  show "simulates ns (local_exec now (List_Workspaces p)) (sql_exec now ns (List_Workspaces p)) s t"
    using simulates_list [OF sim, of workspace_class workspaces workspaces_update
        "case p of Some i \<Rightarrow> coll_children workspace_model i | None \<Rightarrow> coll_list workspace_model" p]
      inv(4) coll_list_option [OF inv(4), of p] v(4) by (simp add: list_workspaces_def class_parent)
  show "simulates ns (local_exec now (List_Grants p)) (sql_exec now ns (List_Grants p)) s t"
    using simulates_list [OF sim, of grant_class grants grants_update
        "case p of Some i \<Rightarrow> coll_children grant_model i | None \<Rightarrow> coll_list grant_model" p]
      inv(5) coll_list_option [OF inv(5), of p] v(5) by (simp add: list_grants_def class_parent)
  show "simulates ns (local_exec now (List_Commands p)) (sql_exec now ns (List_Commands p)) s t"
    using simulates_list [OF sim, of command_class commands commands_update
        "case p of Some i \<Rightarrow> coll_children command_model i | None \<Rightarrow> coll_list command_model" p]
      inv(6) coll_list_option [OF inv(6), of p] v(6) by (simp add: list_commands_def class_parent)
  show "simulates ns (local_exec now (List_Audit_Events p)) (sql_exec now ns (List_Audit_Events p)) s t"
    using simulates_list [OF sim, of audit_class audit audit_update
        "case p of Some i \<Rightarrow> coll_children audit_model i | None \<Rightarrow> coll_list audit_model" p]
      inv(10) coll_list_option [OF inv(10), of p] v(10) by (simp add: list_audit_events_def class_parent)
qed

section \<open>Rewriting one document\<close>

lemma local_save_docs:
  "path_ok (task_id d1) \<Longrightarrow> local_docs (snd (on_tasks (coll_save task_model d1) s)) = put_doc (Task_Doc d1) (local_docs s)"
  "path_ok (run_id d2) \<Longrightarrow> local_docs (snd (on_runs (coll_save run_model d2) s)) = put_doc (Run_Doc d2) (local_docs s)"
  "path_ok (ws_id d3) \<Longrightarrow>
     local_docs (snd (on_workspaces (coll_save workspace_model d3) s)) = put_doc (Workspace_Doc d3) (local_docs s)"
  "path_ok (grant_id d4) \<Longrightarrow> local_docs (snd (on_grants (coll_save grant_model d4) s)) = put_doc (Grant_Doc d4) (local_docs s)"
  "path_ok (reg_id d5) \<Longrightarrow>
     local_docs (snd (on_registration_credentials (coll_save registration_credential_model d5) s)) =
       put_doc (Registration_Credential_Doc d5) (local_docs s)"
  "path_ok (audit_id d6) \<Longrightarrow> local_docs (snd (on_audit (coll_save audit_model d6) s)) = put_doc (Audit_Doc d6) (local_docs s)"
  by (auto simp: zoom_snd coll_save_view local_docs_update put_doc_fun fun_eq_iff)

lemma local_save_result:
  "path_ok (m_id m d) \<Longrightarrow> zoom g u (coll_save m d) s = (Inr d, snd (zoom g u (coll_save m d) s))"
  by (simp add: zoom_def coll_save_def)

lemma sim_update:
  assumes "sim ns s t" "class_ok c" "find (row_at ns (sc_coll c) i) t = Some row" "i = m_id (sc_model c) d"
    and "\<And>r. row_key (f r) = row_key r" "\<And>r. row_payload (f r) = sc_wrap c d" "row_ok (f row)"
    and "doc_valid (sc_wrap c d)" "store_inv s'" "local_docs s' = put_doc (sc_wrap c d) (local_docs s)"
  shows "sim ns s' (snd (sql_update ns (sc_coll c) i f t))"
  using update_docs [of t c i d ns row f] assms by (auto simp: sim_def sql_update_def docs_valid_put)

lemma sim_write:
  assumes "sim ns s t" "class_ok c" "find (row_at ns (sc_coll c) i) t = Some row" "m_id (sc_model c) d = i"
    and "doc_valid (sc_wrap c d)" "store_inv s'" "local_docs s' = put_doc (sc_wrap c d) (local_docs s)"
  shows "sim ns s' (snd (sql_update ns (sc_coll c) i (write_row c now d) t))"
proof (rule sim_update [OF assms(1,2,3) assms(4) [symmetric] _ _ _ assms(5,6,7)])
  show "row_ok (write_row c now d row)"
    using row_ok_write [OF assms(2)] find_row_SomeD [OF assms(3)] assms(4) by simp
qed simp_all

lemma sim_insert:
  assumes "sim ns s t" "class_ok c" "find (row_at ns (sc_coll c) (m_id (sc_model c) d)) t = None"
    and "doc_valid (sc_wrap c d)" "store_inv s'" "local_docs s' = put_doc (sc_wrap c d) (local_docs s)"
  shows "sim ns s' (t @ [new_row c now ns d])"
  using insert_docs [of t c ns d now] assms by (auto simp: sim_def docs_valid_put)

lemma find_sim:
  assumes "sim ns s t" "class_ok c"
  shows "class_docs c (local_docs s) i = None \<Longrightarrow> find (row_at ns (sc_coll c) i) t = None"
    and "class_docs c (local_docs s) i = Some d \<Longrightarrow>
      \<exists>row. find (row_at ns (sc_coll c) i) t = Some row \<and> row_payload row = sc_wrap c d \<and>
        m_id (sc_model c) d = i \<and> row_ok row \<and>
        validate_row c row = (if m_valid (sc_model c) d then Inr d else Inl (ValidationError (m_name (sc_model c))))"
proof -
  have wf: "table_wf t" and eq: "sql_docs ns t = local_docs s" using assms(1) by (simp_all add: sim_def)
  show "class_docs c (local_docs s) i = None \<Longrightarrow> find (row_at ns (sc_coll c) i) t = None"
    using find_class_docs(2) [OF wf assms(2), of ns i] eq
    by (cases "find (row_at ns (sc_coll c) i) t") auto
  assume d: "class_docs c (local_docs s) i = Some d"
  then obtain row where f: "find (row_at ns (sc_coll c) i) t = Some row"
    using find_class_docs(1) [OF wf assms(2), of ns i] eq by (cases "find (row_at ns (sc_coll c) i) t") auto
  then show "\<exists>row. find (row_at ns (sc_coll c) i) t = Some row \<and> row_payload row = sc_wrap c d \<and>
        m_id (sc_model c) d = i \<and> row_ok row \<and>
        validate_row c row = (if m_valid (sc_model c) d then Inr d else Inl (ValidationError (m_name (sc_model c))))"
    using find_class_docs(2) [OF wf assms(2) f] d eq by auto
qed

lemma matches_update_run:
  assumes sim: "sim ns s t" and i: "path_ok i"
    and f: "\<And>r r'. map_of (docs (runs s)) i = Some r \<Longrightarrow> f r = Inr r' \<Longrightarrow>
      run_id r' = i \<and> valid_run (r'\<lparr>run_updated_at := now\<rparr>)"
  shows "matches ns (update_run now i f) (sql_update_run False now ns i f) s t"
proof (cases "map_of (docs (runs s)) i")
  case None
  have "find (row_at ns ''runs'' i) t = None" using find_sim(1) [OF sim, of run_class i] None by simp
  then show ?thesis using None i sim
    by (simp add: matches_def update_run_def update_run_with_def get_run_def zoom_def coll_get_def lookup_doc_def
        sbind_def sql_update_run_def sql_update_run_with_def sql_session_def locked_row_def sql_fetch_def)
next
  case (Some r)
  have v: "valid_run r" using sim_valid(3) [OF sim Some] .
  obtain row where row: "find (row_at ns ''runs'' i) t = Some row" "row_payload row = Run_Doc r" "row_ok row"
      "run_id r = i" "validate_row run_class row = Inr r"
    using find_sim(2) [OF sim, of run_class i r] Some v by auto
  have get: "get_run i s = (Inr r, s)"
    using Some i v by (simp add: get_run_def zoom_def coll_get_def lookup_doc_def)
  show ?thesis
  proof (cases "f r")
    case (Inl e)
    then show ?thesis using get row sim
      by (simp add: matches_def update_run_def update_run_with_def sbind_def sql_update_run_def
          sql_update_run_with_def sql_session_def locked_row_def sql_fetch_def)
  next
    case (Inr r')
    let ?r = "r'\<lparr>run_updated_at := now\<rparr>"
    let ?s = "snd (on_runs (coll_save run_model ?r) s)"
    have r': "run_id r' = i" "valid_run ?r" using f [OF Some Inr] by auto
    have save: "save_run now r' s = (Inr ?r, ?s)"
      unfolding save_run_def using local_save_result [of run_model ?r] r' i by simp
    have inv: "store_inv ?s" using keepsD [OF keeps_zoom_inv(3) [OF keeps_coll_save] sim_store_inv [OF sim]] .
    have docs: "local_docs ?s = put_doc (sc_wrap run_class ?r) (local_docs s)"
      using local_save_docs(2) [of ?r s] r'(1) i by simp
    have "sim ns ?s (snd (sql_update ns (sc_coll run_class) i (write_row run_class now ?r) t))"
      by (rule sim_write [OF sim _ _ _ _ inv docs, where row = row]) (simp_all add: row r')
    then have end_: "sim ns ?s (snd (sql_update ns ''runs'' i (write_row run_class now ?r) t))" by simp
    have l: "update_run now i f s = (if r' = r then (Inr r, s) else (Inr ?r, ?s))"
      using Inr get save by (simp add: update_run_def update_run_with_def sbind_def)
    have "sql_update_run False now ns i f t = (if r' = r then (Inr r, t)
        else (Inr ?r, snd (sql_update ns ''runs'' i (write_row run_class now ?r) t)))"
      using Inr row by (simp add: sbind_def sql_update_run_def sql_update_def
          sql_update_run_with_def sql_session_def locked_row_def sql_fetch_def Let_def)
    then show ?thesis using l end_ sim by (simp add: matches_def)
  qed
qed

lemma no_run: "doc_coll x \<noteq> ''runs'' \<Longrightarrow> (case x of Run_Doc r \<Rightarrow> Some (g r) | _ \<Rightarrow> None) = None"
  by (cases x) simp_all

lemma row_ok_rewrite:
  assumes "row_ok row" "class_ok c" "row_coll row = sc_coll c" "row_id row = m_id (sc_model c) d"
    and "projected_parent (sc_wrap c d) = projected_parent (row_payload row)"
    and "sc_coll c \<noteq> ''runs''"
  shows "row_ok (rewrite_row c now d row)"
proof -
  have p: "doc_coll (row_payload row) \<noteq> ''runs''" "doc_coll (sc_wrap c d) \<noteq> ''runs''"
    using assms(1,3,6) class_okD(3) [OF assms(2)] by (simp_all add: row_ok_def)
  have "row_parent row = projected_parent (row_payload row)" "row_computer row = None" "row_status row = None"
    using row_ok_columns [OF assms(1)] no_run [OF p(1)] by simp_all
  then show ?thesis
    using assms(3,4,5) no_run [OF p(2), of run_computer_id] no_run [OF p(2), of run_status] class_okD(3,4) [OF assms(2)]
    by (cases row) (simp add: row_ok_def rewrite_row_def apply_projection_def)
qed

lemma sim_rewrite:
  assumes "sim ns s t" "class_ok c" "find (row_at ns (sc_coll c) i) t = Some row" "m_id (sc_model c) d = i"
    and "row_ok row" "projected_parent (sc_wrap c d) = projected_parent (row_payload row)" "sc_coll c \<noteq> ''runs''"
    and "doc_valid (sc_wrap c d)" "store_inv s'" "local_docs s' = put_doc (sc_wrap c d) (local_docs s)"
  shows "sim ns s' (snd (sql_update ns (sc_coll c) i (rewrite_row c now d) t))"
proof (rule sim_update [OF assms(1,2,3) assms(4) [symmetric] _ _ _ assms(8,9,10)])
  show "row_ok (rewrite_row c now d row)"
    using row_ok_rewrite [OF assms(5,2) _ _ assms(6,7)] find_row_SomeD [OF assms(3)] assms(4) by simp
qed simp_all

lemma matches_update_grant:
  assumes sim: "sim ns s t" and i: "path_ok i"
    and run: "\<And>g. map_of (docs (grants s)) i = Some g \<Longrightarrow> path_ok (grant_run_id g)"
    and f: "\<And>g r g'. map_of (docs (grants s)) i = Some g \<Longrightarrow> map_of (docs (runs s)) (grant_run_id g) = Some r \<Longrightarrow>
      f g r = Inr g' \<Longrightarrow> grant_id g' = i \<and> grant_run_id g' = grant_run_id g \<and> valid_grant g'"
  shows "matches ns (update_grant i f) (sql_update_grant False now ns i f) s t"
proof (cases "map_of (docs (grants s)) i")
  case None
  have "find (row_at ns ''grants'' i) t = None" using find_sim(1) [OF sim, of grant_class i] None by simp
  then show ?thesis using None i sim
    by (simp add: matches_def update_grant_def get_grant_def zoom_def coll_get_def lookup_doc_def
        sbind_def sql_update_grant_def sql_session_def locked_row_def sql_fetch_def)
next
  case (Some g)
  have v: "valid_grant g" using sim_valid(5) [OF sim Some] .
  obtain row where row: "find (row_at ns ''grants'' i) t = Some row" "row_payload row = Grant_Doc g" "row_ok row"
      "validate_row grant_class row = Inr g"
    using find_sim(2) [OF sim, of grant_class i g] Some v by auto
  have get: "get_grant i s = (Inr g, s)"
    using Some i v by (simp add: get_grant_def zoom_def coll_get_def lookup_doc_def)
  let ?j = "grant_run_id g"
  show ?thesis
  proof (cases "map_of (docs (runs s)) ?j")
    case None
    have "find (row_at ns ''runs'' ?j) t = None" using find_sim(1) [OF sim, of run_class ?j] None by simp
    then show ?thesis using None get row sim run [OF Some]
      by (simp add: matches_def update_grant_def get_run_def zoom_def coll_get_def lookup_doc_def
          sbind_def sql_update_grant_def sql_session_def locked_row_def sql_fetch_def)
  next
    case r: (Some r)
    have "valid_run r" using sim_valid(3) [OF sim r] .
    then obtain rrow where rrow: "find (row_at ns ''runs'' ?j) t = Some rrow" "validate_row run_class rrow = Inr r"
      and getr: "get_run ?j s = (Inr r, s)"
      using find_sim(2) [OF sim, of run_class ?j r] r run [OF Some]
      by (auto simp: get_run_def zoom_def coll_get_def lookup_doc_def)
    show ?thesis
    proof (cases "f g r")
      case (Inl e)
      then show ?thesis using get getr row rrow sim
        by (simp add: matches_def update_grant_def sbind_def sql_update_grant_def sql_session_def locked_row_def
            sql_fetch_def)
    next
      case (Inr g')
      let ?s = "snd (on_grants (coll_save grant_model g') s)"
      have g': "grant_id g' = i" "grant_run_id g' = ?j" "valid_grant g'" using f [OF Some r Inr] by auto
      have save: "save_grant g' s = (Inr g', ?s)"
        unfolding save_grant_def using local_save_result [of grant_model g'] g' i by simp
      have inv: "store_inv ?s" using keepsD [OF keeps_zoom_inv(5) [OF keeps_coll_save] sim_store_inv [OF sim]] .
      have docs: "local_docs ?s = put_doc (sc_wrap grant_class g') (local_docs s)"
        using local_save_docs(4) [of g' s] g'(1) i by simp
      have "sim ns ?s (snd (sql_update ns (sc_coll grant_class) i (rewrite_row grant_class now g') t))"
        by (rule sim_rewrite [OF sim _ _ _ row(3) _ _ _ inv docs])
          (simp_all add: row g' projected_parent_def)
      then have end_: "sim ns ?s (snd (sql_update ns ''grants'' i (rewrite_row grant_class now g') t))" by simp
      have l: "update_grant i f s = (Inr (g', r), ?s)"
        using Inr get getr save by (simp add: update_grant_def sbind_def)
      have "sql_update_grant False now ns i f t =
          (Inr (g', r), snd (sql_update ns ''grants'' i (rewrite_row grant_class now g') t))"
        using Inr row rrow by (simp add: sbind_def sql_update_grant_def sql_update_def sql_session_def
            locked_row_def sql_fetch_def)
      then show ?thesis using l end_ by (simp add: matches_def)
    qed
  qed
qed

lemma matches_consume:
  assumes sim: "sim ns s t" and h: "path_ok h"
  shows "matches ns (consume_registration_credential h now) (sql_consume_registration_credential False ns h now) s t"
proof (cases "map_of (docs (registration_credentials s)) h")
  case None
  have "find (row_at ns ''registration_credentials'' h) t = None"
    using find_sim(1) [OF sim, of registration_credential_class h] None by simp
  then show ?thesis using None h sim
    by (simp add: matches_def consume_registration_credential_def zoom_def coll_get_def lookup_doc_def stry_key_def
        sbind_def sql_consume_registration_credential_def sql_session_def locked_row_def sql_fetch_def)
next
  case (Some c)
  let ?c = "c\<lparr>reg_consumed_at := Some now\<rparr>"
  let ?s = "snd (on_registration_credentials (coll_save registration_credential_model ?c) s)"
  have v: "valid_registration_credential c" using sim_valid(8) [OF sim Some] .
  then obtain row where row: "find (row_at ns ''registration_credentials'' h) t = Some row"
      "row_payload row = Registration_Credential_Doc c" "row_ok row" "reg_id c = h"
      "validate_row registration_credential_class row = Inr c"
    using find_sim(2) [OF sim, of registration_credential_class h c] Some by auto
  have inv: "store_inv ?s" using keepsD [OF keeps_zoom_inv(8) [OF keeps_coll_save] sim_store_inv [OF sim]] .
  have docs: "local_docs ?s = put_doc (sc_wrap registration_credential_class ?c) (local_docs s)"
    using local_save_docs(5) [of ?c s] row(4) h by simp
  have "sim ns ?s (snd (sql_update ns (sc_coll registration_credential_class) h
      (rewrite_row registration_credential_class now ?c) t))"
    by (rule sim_rewrite [OF sim _ _ _ row(3) _ _ _ inv docs])
      (use v in \<open>simp_all add: row projected_parent_def valid_registration_credential_def\<close>)
  then have end_: "sim ns ?s (snd (sql_update ns ''registration_credentials'' h
      (rewrite_row registration_credential_class now ?c) t))" by simp
  have l: "consume_registration_credential h now s =
      (if reg_consumed_at c \<noteq> None \<or> reg_expires_at c \<le> now then (Inr False, s) else (Inr True, ?s))"
    using Some h v row(4) by (simp add: consume_registration_credential_def zoom_def coll_get_def lookup_doc_def
        stry_key_def sbind_def coll_save_def)
  have "sql_consume_registration_credential False ns h now t =
      (if reg_consumed_at c \<noteq> None \<or> reg_expires_at c \<le> now then (Inr False, t)
       else (Inr True, snd (sql_update ns ''registration_credentials'' h
         (rewrite_row registration_credential_class now ?c) t)))"
    using row by (simp add: sql_consume_registration_credential_def sql_session_def locked_row_def sql_fetch_def
        stry_key_def sbind_def sql_update_def)
  then show ?thesis using l end_ sim by (simp add: matches_def)
qed

lemma matches_save_audit_event:
  assumes sim: "sim ns s t" and i: "path_ok (audit_id a)" and v: "valid_audit_event a"
  shows "matches ns (save_audit_event a) (sql_save_audit_event False now ns a) s t"
proof (cases "map_of (docs (audit s)) (audit_id a)")
  case None
  have f: "find (row_at ns ''audit'' (audit_id a)) t = None"
    using find_sim(1) [OF sim, of audit_class "audit_id a"] None by simp
  let ?s = "snd (on_audit (coll_save audit_model a) s)"
  have inv: "store_inv ?s" using keepsD [OF keeps_zoom_inv(10) [OF keeps_coll_save] sim_store_inv [OF sim]] .
  have docs: "local_docs ?s = put_doc (sc_wrap audit_class a) (local_docs s)"
    using local_save_docs(6) [of a s] i by simp
  have "sim ns ?s (t @ [new_row audit_class now ns a])"
    by (rule sim_insert [OF sim _ _ _ inv docs]) (simp_all add: f v)
  moreover have "save_audit_event a s = (Inr a, ?s)"
    using None i by (simp add: save_audit_event_def zoom_def coll_get_def lookup_doc_def stry_key_def sbind_def
        coll_save_def)
  moreover have "sql_save_audit_event False now ns a t = (Inr a, t @ [new_row audit_class now ns a])"
    using f by (simp add: sql_save_audit_event_def sql_session_def sql_fetch_def sbind_def sql_add_def
        require_collection_def SQL_COLLECTIONS_def sql_insert_def)
  ultimately show ?thesis by (simp add: matches_def)
next
  case (Some b)
  then obtain row where "find (row_at ns ''audit'' (audit_id a)) t = Some row"
    using find_sim(2) [OF sim, of audit_class "audit_id a" b] by auto
  then show ?thesis using Some i sim sim_valid(10) [OF sim Some]
    by (simp add: matches_def save_audit_event_def zoom_def coll_get_def lookup_doc_def stry_key_def sbind_def
        sql_save_audit_event_def sql_session_def sql_fetch_def)
qed

section \<open>Creating a task with its run and workspaces\<close>

lemma add_new_present:
  assumes "sim ns s t" "class_ok c" "class_docs c (local_docs s) (m_id (sc_model c) d) \<noteq> None"
  shows "add_new label c now ns d t = (Inl (StateConflict (label @ '' already exists'')), t)"
  using assms find_sim(2) [OF assms(1,2), of "m_id (sc_model c) d"]
  by (auto simp: add_new_def sql_fetch_def sbind_def)

lemma add_new_absent:
  assumes "sim ns s t" "class_ok c" "class_docs c (local_docs s) (m_id (sc_model c) d) = None"
    and "doc_valid (sc_wrap c d)" "store_inv s'" "local_docs s' = put_doc (sc_wrap c d) (local_docs s)"
  shows "\<exists>t'. add_new label c now ns d t = (Inr (), t') \<and> sim ns s' t'"
  using find_sim(1) [OF assms(1,2,3)] sim_insert [OF assms(1,2) _ assms(4,5,6)] class_okD(1) [OF assms(2)]
  by (simp add: add_new_def sql_fetch_def sbind_def sql_add_def require_collection_def sql_insert_def)

definition new_workspaces :: "execution_workspace list \<Rightarrow> bool" where
  "new_workspaces wss \<longleftrightarrow> distinct (map ws_id wss) \<and> (\<forall>w \<in> set wss. path_ok (ws_id w) \<and> valid_workspace w)"

lemma add_workspace:
  assumes sim: "sim ns s t" and w: "path_ok (ws_id w)" "valid_workspace w"
    and new: "map_of (docs (workspaces s)) (ws_id w) = None"
  shows "\<exists>s' t'. on_workspaces (coll_save workspace_model w) s = (Inr w, s') \<and>
    add_new ''workspace'' workspace_class now ns w t = (Inr (), t') \<and> sim ns s' t' \<and>
    map_of (docs (workspaces s')) = (map_of (docs (workspaces s)))(ws_id w \<mapsto> w)"
proof -
  let ?s = "snd (on_workspaces (coll_save workspace_model w) s)"
  have inv: "store_inv ?s" using keepsD [OF keeps_zoom_inv(4) [OF keeps_coll_save] sim_store_inv [OF sim]] .
  have docs: "local_docs ?s = put_doc (sc_wrap workspace_class w) (local_docs s)"
    using local_save_docs(3) [of w s] w by simp
  have "\<exists>t'. add_new ''workspace'' workspace_class now ns w t = (Inr (), t') \<and> sim ns ?s t'"
    by (rule add_new_absent [OF sim _ _ _ inv docs]) (simp_all add: new w)
  moreover have "on_workspaces (coll_save workspace_model w) s = (Inr w, ?s)"
    using local_save_result [of workspace_model w] w by simp
  moreover have "map_of (docs (workspaces ?s)) = (map_of (docs (workspaces s)))(ws_id w \<mapsto> w)"
    using w by (simp add: zoom_snd coll_save_view)
  ultimately show ?thesis by blast
qed

lemma add_workspaces:
  assumes "sim ns s t" "new_workspaces wss" "\<forall>w \<in> set wss. map_of (docs (workspaces s)) (ws_id w) = None"
  shows "\<exists>us vs s' t'. smapM (\<lambda>w. on_workspaces (coll_save workspace_model w)) wss s = (Inr us, s') \<and>
    smapM (add_new ''workspace'' workspace_class now ns) wss t = (Inr vs, t') \<and> sim ns s' t'"
  using assms
proof (induction wss arbitrary: s t)
  case (Cons w wss)
  obtain s1 t1 where 1: "on_workspaces (coll_save workspace_model w) s = (Inr w, s1)"
      "add_new ''workspace'' workspace_class now ns w t = (Inr (), t1)" "sim ns s1 t1"
      "map_of (docs (workspaces s1)) = (map_of (docs (workspaces s)))(ws_id w \<mapsto> w)"
    using add_workspace [OF Cons.prems(1), of w now] Cons.prems(2,3) by (auto simp: new_workspaces_def)
  have "new_workspaces wss" "\<forall>v \<in> set wss. map_of (docs (workspaces s1)) (ws_id v) = None"
    using Cons.prems(2,3) 1(4) by (auto simp: new_workspaces_def) (metis image_eqI)
  then obtain us vs s' t' where "smapM (\<lambda>w. on_workspaces (coll_save workspace_model w)) wss s1 = (Inr us, s')"
      "smapM (add_new ''workspace'' workspace_class now ns) wss t1 = (Inr vs, t')" "sim ns s' t'"
    using Cons.IH [OF 1(3)] by blast
  then show ?case using 1 by (simp add: sbind_def)
qed simp

lemma add_workspaces_conflict:
  assumes "sim ns s t" "new_workspaces wss" "\<exists>w \<in> set wss. map_of (docs (workspaces s)) (ws_id w) \<noteq> None"
  shows "\<exists>t'. smapM (add_new ''workspace'' workspace_class now ns) wss t =
    (Inl (StateConflict ''workspace already exists''), t')"
  using assms
proof (induction wss arbitrary: s t)
  case (Cons w wss)
  show ?case
  proof (cases "map_of (docs (workspaces s)) (ws_id w)")
    case None
    obtain s1 t1 where 1: "add_new ''workspace'' workspace_class now ns w t = (Inr (), t1)" "sim ns s1 t1"
        "map_of (docs (workspaces s1)) = (map_of (docs (workspaces s)))(ws_id w \<mapsto> w)"
      using add_workspace [OF Cons.prems(1), of w now] Cons.prems(2) None by (auto simp: new_workspaces_def)
    have "new_workspaces wss" "\<exists>v \<in> set wss. map_of (docs (workspaces s1)) (ws_id v) \<noteq> None"
      using Cons.prems(2,3) None 1(3) by (auto simp: new_workspaces_def simp del: map_of_eq_Some_iff)
    then show ?thesis using Cons.IH [OF 1(2)] 1(1) by (auto simp: sbind_def)
  next
    case (Some v)
    then show ?thesis using add_new_present [OF Cons.prems(1), of workspace_class w "''workspace''" now]
      by (simp add: sbind_def)
  qed
qed simp

lemma check_new_all_ok:
  "\<forall>d \<in> set ds. path_ok (m_id m d) \<Longrightarrow> check_new_all label m ds c =
     (if \<exists>d \<in> set ds. map_of (docs c) (m_id m d) \<noteq> None then Inl (StateConflict (label @ '' already exists''))
      else Inr ())"
  by (induction ds) (auto simp: check_new_def)

lemma matches_create_task_run:
  assumes sim: "sim ns s t" and tk: "path_ok (task_id tk)" "valid_task tk" and r: "path_ok (run_id r)" "valid_run r"
    and ws: "new_workspaces wss"
  shows "matches ns (create_task_run tk r wss) (sql_create_task_run False now ns tk r wss) s t"
proof -
  define s1 where "s1 = snd (on_tasks (coll_save task_model tk) s)"
  define s2 where "s2 = snd (on_runs (coll_save run_model r) s1)"
  have inv1: "store_inv s1" unfolding s1_def using keepsD [OF keeps_zoom_inv(2) [OF keeps_coll_save] sim_store_inv [OF sim]] .
  have inv2: "store_inv s2" unfolding s2_def using keepsD [OF keeps_zoom_inv(3) [OF keeps_coll_save] inv1] .
  have docs1: "local_docs s1 = put_doc (sc_wrap task_class tk) (local_docs s)"
    using local_save_docs(1) [of tk s] tk by (simp add: s1_def)
  have docs2: "local_docs s2 = put_doc (sc_wrap run_class r) (local_docs s1)"
    using local_save_docs(2) [of r s1] r by (simp add: s2_def)
  have l1: "on_tasks (coll_save task_model tk) s = (Inr tk, s1)"
    unfolding s1_def using local_save_result [of task_model tk] tk by simp
  have l2: "on_runs (coll_save run_model r) s1 = (Inr r, s2)"
    unfolding s2_def using local_save_result [of run_model r] r by simp
  have same: "runs s1 = runs s" "workspaces s2 = workspaces s" by (simp_all add: s1_def s2_def zoom_snd)
  have wp: "\<forall>w \<in> set wss. path_ok (m_id workspace_model w)" using ws by (auto simp: new_workspaces_def)
  note defs = matches_def create_task_run_def sql_create_task_run_def sql_session_def sbind_def check_new_def tk r
    check_new_all_ok [OF wp]
  consider (task) "map_of (docs (tasks s)) (task_id tk) \<noteq> None"
    | (run) "map_of (docs (tasks s)) (task_id tk) = None" "map_of (docs (runs s)) (run_id r) \<noteq> None"
    | (free) "map_of (docs (tasks s)) (task_id tk) = None" "map_of (docs (runs s)) (run_id r) = None" by blast
  then show ?thesis
  proof cases
    case task
    then show ?thesis using add_new_present [OF sim, of task_class tk "''task''" now] sim by (simp add: defs)
  next
    case run
    obtain t1 where t1: "add_new ''task'' task_class now ns tk t = (Inr (), t1)" "sim ns s1 t1"
      using add_new_absent [OF sim _ _ _ inv1 docs1, of "''task''" now] run(1) tk by auto
    have "add_new ''run'' run_class now ns r t1 = (Inl (StateConflict ''run already exists''), t1)"
      using add_new_present [OF t1(2), of run_class r "''run''" now] run(2) same by simp
    then show ?thesis using t1 run sim by (simp add: defs)
  next
    case free
    obtain t1 where t1: "add_new ''task'' task_class now ns tk t = (Inr (), t1)" "sim ns s1 t1"
      using add_new_absent [OF sim _ _ _ inv1 docs1, of "''task''" now] free(1) tk by auto
    obtain t2 where t2: "add_new ''run'' run_class now ns r t1 = (Inr (), t2)" "sim ns s2 t2"
      using add_new_absent [OF t1(2) _ _ _ inv2 docs2, of "''run''" now] free(2) same r by auto
    show ?thesis
    proof (cases "\<exists>w \<in> set wss. map_of (docs (workspaces s)) (ws_id w) \<noteq> None")
      case True
      then obtain t3 where "smapM (add_new ''workspace'' workspace_class now ns) wss t2 =
          (Inl (StateConflict ''workspace already exists''), t3)"
        using add_workspaces_conflict [OF t2(2) ws, of now] same by auto
      then show ?thesis using True t1 t2 free sim by (simp add: defs)
    next
      case False
      then obtain us vs s3 t3 where 3: "smapM (\<lambda>w. on_workspaces (coll_save workspace_model w)) wss s2 = (Inr us, s3)"
          "smapM (add_new ''workspace'' workspace_class now ns) wss t2 = (Inr vs, t3)" "sim ns s3 t3"
        using add_workspaces [OF t2(2) ws, of now] same by auto
      have l: "create_task_run tk r wss s = (Inr (tk, r, wss), s3)"
        using False free l1 l2 3(1) by (simp add: defs)
      have "sql_create_task_run False now ns tk r wss t = (Inr (tk, r, wss), t3)"
        using t1 t2 3(2) by (simp add: defs)
      then show ?thesis using l 3(3) by (simp add: matches_def)
    qed
  qed
qed

section \<open>Deleting a task\<close>

definition task_owned :: "string \<Rightarrow> string set \<Rightarrow> sql_doc \<Rightarrow> bool" where
  "task_owned tid R d \<longleftrightarrow> (\<exists>i \<in> R. projected_parent d = Some i) \<or> (doc_coll d = ''runs'' \<and> doc_id d \<in> R) \<or>
     (doc_coll d = ''tasks'' \<and> doc_id d = tid)"

lemma keep_docs_keep: "keep_docs P (keep_docs Q v) = keep_docs (\<lambda>d. Q d \<and> P d) v"
  by (auto simp: keep_docs_def fun_eq_iff split: option.splits)

lemma delete_statement:
  assumes "table_wf t" and "\<And>row. row \<in> set t \<Longrightarrow> row_ns row = ns \<Longrightarrow> row_ok row \<Longrightarrow> P row = Q (row_payload row)"
  shows "\<exists>t'. sql_delete ns P t = (Inr (), t') \<and> table_wf t' \<and> sql_docs ns t' = keep_docs (\<lambda>d. \<not> Q d) (sql_docs ns t)"
proof -
  have ok: "row \<in> set t \<Longrightarrow> row_ok row" for row using assms(1) by (simp add: table_wf_def list_all_iff)
  then show ?thesis using delete_docs [OF assms(1), of ns P Q] assms(2) by (simp add: sql_delete_def)
qed

lemma sql_delete_nothing: "(\<And>row. \<not> P row) \<Longrightarrow> sql_delete ns P t = (Inr (), t)"
  by (simp add: sql_delete_def)

lemma sql_delete_task_docs:
  assumes sim: "sim ns s t"
  shows "\<exists>t'. sql_delete_task False ns tid t = (Inr (), t') \<and> table_wf t' \<and>
    sql_docs ns t' = keep_docs (\<lambda>d. \<not> task_owned tid (runs_of s tid) d) (local_docs s)"
proof -
  have wf: "table_wf t" and eq: "sql_docs ns t = local_docs s" using sim by (simp_all add: sim_def)
  let ?rows = "filter (\<lambda>row. row_ns row = ns \<and> row_coll row = ''runs'' \<and> row_parent row = Some tid) t"
  let ?R = "runs_of s tid"
  have R: "set (map row_id ?rows) = ?R"
  proof (intro set_eqI iffI)
    fix i assume "i \<in> set (map row_id ?rows)"
    then obtain row where row: "row \<in> set t" "row_ns row = ns" "row_coll row = ''runs''" "row_parent row = Some tid"
      "i = row_id row" by auto
    have f: "find (row_at ns (sc_coll run_class) i) t = Some row" using find_row_mem [OF wf row(1)] row by simp
    obtain r where r: "class_docs run_class (sql_docs ns t) i = Some r" "row_payload row = Run_Doc r" "row_ok row"
      using find_class_docs(2) [OF wf _ f] by auto
    then have "run_task_id r = tid" using row_ok_columns(1) [OF r(3)] row(4) by (simp add: projected_parent_def)
    then show "i \<in> ?R" using r(1) eq by (auto simp: runs_of_def simp del: map_of_eq_Some_iff)
  next
    fix i assume "i \<in> ?R"
    then obtain r where r: "map_of (docs (runs s)) i = Some r" "run_task_id r = tid"
      by (auto simp: runs_of_def simp del: map_of_eq_Some_iff)
    then obtain row where row: "find (row_at ns ''runs'' i) t = Some row" "row_payload row = Run_Doc r" "row_ok row"
      using find_sim(2) [OF sim, of run_class i r] by auto
    then have "row \<in> set ?rows" using find_row_SomeD [OF row(1)] row_ok_columns(1) [OF row(3)] r(2)
      by (simp add: projected_parent_def)
    then show "i \<in> set (map row_id ?rows)" using find_row_SomeD [OF row(1)] by force
  qed
  let ?Q1 = "\<lambda>d. \<exists>i \<in> ?R. projected_parent d = Some i"
  let ?Q2 = "\<lambda>d. doc_coll d = ''runs'' \<and> doc_id d \<in> ?R"
  obtain t1 where t1: "sql_delete ns (\<lambda>row. \<exists>i \<in> ?R. row_parent row = Some i) t = (Inr (), t1)" "table_wf t1"
      "sql_docs ns t1 = keep_docs (\<lambda>d. \<not> ?Q1 d) (sql_docs ns t)"
    using delete_statement [OF wf, of ns "\<lambda>row. \<exists>i \<in> ?R. row_parent row = Some i" ?Q1] row_ok_columns(1) by auto
  obtain t2 where t2: "sql_delete ns (\<lambda>row. row_coll row = ''runs'' \<and> row_id row \<in> ?R) t1 = (Inr (), t2)" "table_wf t2"
      "sql_docs ns t2 = keep_docs (\<lambda>d. \<not> ?Q2 d) (sql_docs ns t1)"
    using delete_statement [OF t1(2), of ns "\<lambda>row. row_coll row = ''runs'' \<and> row_id row \<in> ?R" ?Q2]
    by (auto simp: row_ok_def)
  obtain t3 where t3: "sql_delete ns (\<lambda>row. row_coll row = ''tasks'' \<and> row_id row = tid) t2 = (Inr (), t3)" "table_wf t3"
      "sql_docs ns t3 = keep_docs (\<lambda>d. \<not> (doc_coll d = ''tasks'' \<and> doc_id d = tid)) (sql_docs ns t2)"
    using delete_statement [OF t2(2), of ns "\<lambda>row. row_coll row = ''tasks'' \<and> row_id row = tid"
        "\<lambda>d. doc_coll d = ''tasks'' \<and> doc_id d = tid"] by (auto simp: row_ok_def)
  have skip: "t1 = t \<and> t2 = t" if "map row_id ?rows = []"
    using t1(1) t2(1) R that by (auto simp: sql_delete_def)
  have "sql_delete_task False ns tid t = (Inr (), t3)"
  proof (cases "map row_id ?rows = []")
    case True
    then show ?thesis using t3(1) skip
      by (simp add: sql_delete_task_def sql_session_def sbind_def sql_select_def Let_def)
  next
    case False
    then show ?thesis using t1(1) t2(1) t3(1)
      by (simp add: sql_delete_task_def sql_session_def sbind_def sql_select_def Let_def R [symmetric])
  qed
  moreover have "sql_docs ns t3 = keep_docs (\<lambda>d. \<not> task_owned tid ?R d) (local_docs s)"
    unfolding t3(3) t2(3) t1(3) keep_docs_keep eq task_owned_def by (rule arg_cong2 [of _ _ _ _ keep_docs]) auto
  ultimately show ?thesis using t3(2) by blast
qed

lemma drop_owned_docs:
  assumes "\<And>d. projected_parent (W d) = m_parent m d" "\<And>d. doc_coll (W d) \<noteq> ''runs''" "\<And>d. doc_coll (W d) \<noteq> ''tasks''"
  shows "map_option W (drop_owned m R v i) =
    (case map_option W (v i) of None \<Rightarrow> None | Some d \<Rightarrow> if \<not> task_owned tid R d then Some d else None)"
  using assms by (auto simp: drop_owned_def task_owned_def split: option.splits)

lemma local_docs_eqI:
  assumes "\<And>i. local_docs s ''computers'' i = v ''computers'' i"
    "\<And>i. local_docs s ''runtime_credentials'' i = v ''runtime_credentials'' i"
    "\<And>i. local_docs s ''registration_credentials'' i = v ''registration_credentials'' i"
    "\<And>i. local_docs s ''workspaces'' i = v ''workspaces'' i" "\<And>i. local_docs s ''grants'' i = v ''grants'' i"
    "\<And>i. local_docs s ''commands'' i = v ''commands'' i"
    "\<And>i. local_docs s ''run_credentials'' i = v ''run_credentials'' i"
    "\<And>i. local_docs s ''audit'' i = v ''audit'' i" "\<And>i. local_docs s ''runs'' i = v ''runs'' i"
    "\<And>i. local_docs s ''tasks'' i = v ''tasks'' i"
    "\<And>coll i. coll \<notin> set SQL_COLLECTIONS \<Longrightarrow> v coll i = None"
  shows "local_docs s = v"
proof (intro ext)
  fix coll i
  have none: "local_docs s coll i = None" if "coll \<notin> set SQL_COLLECTIONS"
    using that by (simp add: local_docs_def SQL_COLLECTIONS_def)
  have "\<forall>k \<in> set SQL_COLLECTIONS. local_docs s k i = v k i"
    by (simp only: SQL_COLLECTIONS_def list.set ball_simps assms simp_thms)
  then show "local_docs s coll i = v coll i"
    using none assms(11) [of coll i] by (cases "coll \<in> set SQL_COLLECTIONS") simp_all
qed

lemma local_delete_task_docs:
  assumes inv: "store_inv s" and valid: "owned_valid s" and tid: "path_ok tid"
    and apart: "\<And>i r. map_of (docs (runs s)) i = Some r \<Longrightarrow> run_task_id r \<notin> runs_of s tid"
  shows "\<exists>s'. delete_task tid s = (Inr (), s') \<and> store_inv s' \<and>
    local_docs s' = keep_docs (\<lambda>d. \<not> task_owned tid (runs_of s tid) d) (local_docs s)"
proof -
  let ?R = "runs_of s tid"
  obtain s' where s': "delete_task tid s = (Inr (), s')" "store_inv s'"
      "map_of (docs (tasks s')) = (map_of (docs (tasks s)))(tid := None)"
      "erased ?R s (s'\<lparr>tasks := tasks s\<rparr>)"
    using delete_task_erased [OF inv valid tid] by blast
  have runs: "map_of (docs (runs s')) = (\<lambda>i. if i \<in> ?R then None else map_of (docs (runs s)) i)"
    and own: "map_of (docs (workspaces s')) = drop_owned workspace_model ?R (map_of (docs (workspaces s)))"
      "map_of (docs (grants s')) = drop_owned grant_model ?R (map_of (docs (grants s)))"
      "map_of (docs (commands s')) = drop_owned command_model ?R (map_of (docs (commands s)))"
      "map_of (docs (run_credentials s')) = drop_owned run_credential_model ?R (map_of (docs (run_credentials s)))"
      "map_of (docs (audit s')) = drop_owned audit_model ?R (map_of (docs (audit s)))"
    and same: "computers s' = computers s" "runtime_credentials s' = runtime_credentials s"
      "registration_credentials s' = registration_credentials s"
    using s'(4) by (simp_all add: erased_def)
  have ids: "run_id r = i" if "map_of (docs (runs s)) i = Some r" for i r
    using run_docs.view_key [OF store_invD(3) [OF inv] that] by simp
  have tids: "task_id k = i" if "map_of (docs (tasks s)) i = Some k" for i k
    using store_invD(2) [OF inv] that unfolding coll_inv_def by (simp del: map_of_eq_Some_iff)
  have no_parent: "projected_parent (Computer_Doc d1) = None" "projected_parent (Task_Doc d2) = None"
    "projected_parent (Runtime_Credential_Doc d3) = None" "projected_parent (Registration_Credential_Doc d4) = None"
    for d1 d2 d3 d4 by (simp_all add: projected_parent_def)
  have run_owned: "task_owned tid ?R (Run_Doc r) \<longleftrightarrow> i \<in> ?R" if "map_of (docs (runs s)) i = Some r" for i r
    using apart [OF that] ids [OF that] by (simp add: task_owned_def projected_parent_def)
  have task_owned': "task_owned tid ?R (Task_Doc k) \<longleftrightarrow> i = tid" if "map_of (docs (tasks s)) i = Some k" for i k
    using tids [OF that] no_parent by (simp add: task_owned_def)
  have none_owned: "\<not> task_owned tid ?R (Computer_Doc d1)" "\<not> task_owned tid ?R (Runtime_Credential_Doc d2)"
    "\<not> task_owned tid ?R (Registration_Credential_Doc d3)" for d1 d2 d3
    by (simp_all add: task_owned_def no_parent)
  have drop: "map_option Workspace_Doc (drop_owned workspace_model ?R v1 i) = (case map_option Workspace_Doc (v1 i) of
        None \<Rightarrow> None | Some d \<Rightarrow> if \<not> task_owned tid ?R d then Some d else None)"
      "map_option Grant_Doc (drop_owned grant_model ?R v2 i) = (case map_option Grant_Doc (v2 i) of
        None \<Rightarrow> None | Some d \<Rightarrow> if \<not> task_owned tid ?R d then Some d else None)"
      "map_option Command_Doc (drop_owned command_model ?R v3 i) = (case map_option Command_Doc (v3 i) of
        None \<Rightarrow> None | Some d \<Rightarrow> if \<not> task_owned tid ?R d then Some d else None)"
      "map_option Run_Credential_Doc (drop_owned run_credential_model ?R v4 i) =
        (case map_option Run_Credential_Doc (v4 i) of
        None \<Rightarrow> None | Some d \<Rightarrow> if \<not> task_owned tid ?R d then Some d else None)"
      "map_option Audit_Doc (drop_owned audit_model ?R v5 i) = (case map_option Audit_Doc (v5 i) of
        None \<Rightarrow> None | Some d \<Rightarrow> if \<not> task_owned tid ?R d then Some d else None)"
    for v1 v2 v3 v4 v5 i
    by (rule drop_owned_docs; simp add: class_parent)+
  let ?v = "keep_docs (\<lambda>d. \<not> task_owned tid ?R d) (local_docs s)"
  have "local_docs s' = ?v"
  proof (rule local_docs_eqI)
    show "local_docs s' ''computers'' i = ?v ''computers'' i"
      "local_docs s' ''runtime_credentials'' i = ?v ''runtime_credentials'' i"
      "local_docs s' ''registration_credentials'' i = ?v ''registration_credentials'' i" for i
      by (simp_all add: keep_docs_def same none_owned split: option.splits)
    show "local_docs s' ''workspaces'' i = ?v ''workspaces'' i" "local_docs s' ''grants'' i = ?v ''grants'' i"
      "local_docs s' ''commands'' i = ?v ''commands'' i"
      "local_docs s' ''run_credentials'' i = ?v ''run_credentials'' i"
      "local_docs s' ''audit'' i = ?v ''audit'' i" for i
      unfolding keep_docs_def local_docs_simps own drop by (rule refl)+
    show "local_docs s' ''runs'' i = ?v ''runs'' i" for i
      using run_owned [of i] by (cases "map_of (docs (runs s)) i") (simp_all add: keep_docs_def runs)
    show "local_docs s' ''tasks'' i = ?v ''tasks'' i" for i
      using task_owned' [of i] by (cases "map_of (docs (tasks s)) i") (simp_all add: keep_docs_def s'(3))
    show "?v coll i = None" if "coll \<notin> set SQL_COLLECTIONS" for coll i
      using that by (simp add: keep_docs_def local_docs_def SQL_COLLECTIONS_def)
  qed
  then show ?thesis using s'(1,2) by blast
qed

lemma matches_delete_task:
  assumes sim: "sim ns s t" and tid: "path_ok tid"
    and apart: "\<And>i r. map_of (docs (runs s)) i = Some r \<Longrightarrow> run_task_id r \<notin> runs_of s tid"
  shows "matches ns (delete_task tid) (sql_delete_task False ns tid) s t"
proof -
  have "owned_valid s"
    using sim_valid [OF sim] by (simp add: owned_valid_def valid_docs_def del: map_of_eq_Some_iff)
  then obtain s' where s': "delete_task tid s = (Inr (), s')" "store_inv s'"
      "local_docs s' = keep_docs (\<lambda>d. \<not> task_owned tid (runs_of s tid) d) (local_docs s)"
    using local_delete_task_docs [OF sim_store_inv [OF sim] _ tid] apart by blast
  obtain t' where "sql_delete_task False ns tid t = (Inr (), t')" "table_wf t'"
      "sql_docs ns t' = keep_docs (\<lambda>d. \<not> task_owned tid (runs_of s tid) d) (local_docs s)"
    using sql_delete_task_docs [OF sim] by blast
  then show ?thesis using s' sim by (simp add: matches_def sim_def docs_valid_keep)
qed

section \<open>The simulation\<close>

text \<open>What the control plane guarantees of a call: ids are well-formed, documents satisfy their constraints,
  an update keeps the identity of its document, and no run of a task doubles as a task. Claiming and
  pruning are left out: claiming orders waiting runs by the row's age on the table and by the run's age in the
  local store.\<close>

fun call_ok :: "time \<Rightarrow> store_call \<Rightarrow> local_store \<Rightarrow> bool" where
  "call_ok now (Save_Computer d) s = (path_ok (comp_id d) \<and> valid_computer (d\<lparr>comp_updated_at := now\<rparr>))"
| "call_ok now (Save_Task d) s = (path_ok (task_id d) \<and> valid_task (d\<lparr>task_updated_at := now\<rparr>))"
| "call_ok now (Save_Run d) s = (path_ok (run_id d) \<and> valid_run (d\<lparr>run_updated_at := now\<rparr>))"
| "call_ok now (Save_Workspace d) s = (path_ok (ws_id d) \<and> valid_workspace (d\<lparr>ws_updated_at := now\<rparr>))"
| "call_ok now (Save_Grant d) s = (path_ok (grant_id d) \<and> valid_grant d)"
| "call_ok now (Save_Command d) s = (path_ok (cmd_id d) \<and> valid_command d)"
| "call_ok now (Save_Runtime_Credential d) s = (path_ok (rc_id d) \<and> valid_runtime_credential d)"
| "call_ok now (Save_Registration_Credential d) s = (path_ok (reg_id d) \<and> valid_registration_credential d)"
| "call_ok now (Save_Run_Credential d) s = (path_ok (tc_id d) \<and> valid_run_credential d)"
| "call_ok now (Save_Audit_Event d) s = (path_ok (audit_id d) \<and> valid_audit_event d)"
| "call_ok now (Get_Computer i) s = path_ok i"
| "call_ok now (Get_Task i) s = path_ok i"
| "call_ok now (Get_Run i) s = path_ok i"
| "call_ok now (Get_Grant i) s = path_ok i"
| "call_ok now (Get_Command i) s = path_ok i"
| "call_ok now (Get_Runtime_Credential i) s = path_ok i"
| "call_ok now (Get_Run_Credential i) s = path_ok i"
| "call_ok now (Consume_Registration_Credential h) s = path_ok h"
| "call_ok now (Create_Task_Run tk r wss) s = (path_ok (task_id tk) \<and> valid_task tk \<and> path_ok (run_id r) \<and>
     valid_run r \<and> new_workspaces wss)"
| "call_ok now (Update_Run i f) s = (path_ok i \<and> (case map_of (docs (runs s)) i of None \<Rightarrow> True
     | Some r \<Rightarrow> (case f r of Inl _ \<Rightarrow> True
         | Inr r' \<Rightarrow> run_id r' = i \<and> valid_run (r'\<lparr>run_updated_at := now\<rparr>))))"
| "call_ok now (Update_Grant i f) s = (path_ok i \<and> (case map_of (docs (grants s)) i of None \<Rightarrow> True
     | Some g \<Rightarrow> path_ok (grant_run_id g) \<and> (case map_of (docs (runs s)) (grant_run_id g) of None \<Rightarrow> True
         | Some r \<Rightarrow> (case f g r of Inl _ \<Rightarrow> True
             | Inr g' \<Rightarrow> grant_id g' = i \<and> grant_run_id g' = grant_run_id g \<and> valid_grant g'))))"
| "call_ok now (Delete_Task tid) s = (path_ok tid \<and>
     list_all (\<lambda>(i, r). list_all (\<lambda>(j, q). \<not> (run_task_id q = tid \<and> run_task_id r = j)) (docs (runs s))) (docs (runs s)))"
| "call_ok now (Claim_Run locked cid lease expires) s = False"
| "call_ok now (Prune a b) s = False"
| "call_ok now _ s = True"

lemma delete_ok_apart:
  assumes "call_ok now (Delete_Task tid) s" "map_of (docs (runs s)) i = Some r"
  shows "run_task_id r \<notin> runs_of s tid"
proof
  assume "run_task_id r \<in> runs_of s tid"
  then obtain q where "map_of (docs (runs s)) (run_task_id r) = Some q" "run_task_id q = tid"
    unfolding runs_of_def by blast
  moreover from this have "(run_task_id r, q) \<in> set (docs (runs s))" "(i, r) \<in> set (docs (runs s))"
    using assms(2) by (blast dest: map_of_SomeD)+
  ultimately show False using assms(1) unfolding call_ok.simps list_all_iff by blast
qed

lemma simulates_saves:
  assumes sim: "sim ns s t"
  shows "call_ok now (Save_Computer d1) s \<Longrightarrow>
      simulates ns (local_exec now (Save_Computer d1)) (sql_exec now ns (Save_Computer d1)) s t"
    "call_ok now (Save_Task d2) s \<Longrightarrow> simulates ns (local_exec now (Save_Task d2)) (sql_exec now ns (Save_Task d2)) s t"
    "call_ok now (Save_Run d3) s \<Longrightarrow> simulates ns (local_exec now (Save_Run d3)) (sql_exec now ns (Save_Run d3)) s t"
    "call_ok now (Save_Workspace d4) s \<Longrightarrow>
      simulates ns (local_exec now (Save_Workspace d4)) (sql_exec now ns (Save_Workspace d4)) s t"
    "call_ok now (Save_Grant d5) s \<Longrightarrow> simulates ns (local_exec now (Save_Grant d5)) (sql_exec now ns (Save_Grant d5)) s t"
    "call_ok now (Save_Command d6) s \<Longrightarrow>
      simulates ns (local_exec now (Save_Command d6)) (sql_exec now ns (Save_Command d6)) s t"
    "call_ok now (Save_Runtime_Credential d7) s \<Longrightarrow>
      simulates ns (local_exec now (Save_Runtime_Credential d7)) (sql_exec now ns (Save_Runtime_Credential d7)) s t"
    "call_ok now (Save_Registration_Credential d8) s \<Longrightarrow> simulates ns
      (local_exec now (Save_Registration_Credential d8)) (sql_exec now ns (Save_Registration_Credential d8)) s t"
    "call_ok now (Save_Run_Credential d9) s \<Longrightarrow>
      simulates ns (local_exec now (Save_Run_Credential d9)) (sql_exec now ns (Save_Run_Credential d9)) s t"
    "call_ok now (Save_Audit_Event d10) s \<Longrightarrow>
      simulates ns (local_exec now (Save_Audit_Event d10)) (sql_exec now ns (Save_Audit_Event d10)) s t"
  unfolding local_exec.simps sql_exec.simps sql_save_computer_def sql_save_task_def sql_save_run_def
    sql_save_workspace_def op_defs
  by (rule matches_simulates; simp add: matches_saves [OF sim] matches_save_audit_event [OF sim])+

lemma simulates_gets:
  assumes sim: "sim ns s t"
  shows "call_ok now (Get_Computer i) s \<Longrightarrow> simulates ns (local_exec now (Get_Computer i)) (sql_exec now ns (Get_Computer i)) s t"
    "call_ok now (Get_Task i) s \<Longrightarrow> simulates ns (local_exec now (Get_Task i)) (sql_exec now ns (Get_Task i)) s t"
    "call_ok now (Get_Run i) s \<Longrightarrow> simulates ns (local_exec now (Get_Run i)) (sql_exec now ns (Get_Run i)) s t"
    "call_ok now (Get_Grant i) s \<Longrightarrow> simulates ns (local_exec now (Get_Grant i)) (sql_exec now ns (Get_Grant i)) s t"
    "call_ok now (Get_Command i) s \<Longrightarrow> simulates ns (local_exec now (Get_Command i)) (sql_exec now ns (Get_Command i)) s t"
    "call_ok now (Get_Runtime_Credential i) s \<Longrightarrow>
      simulates ns (local_exec now (Get_Runtime_Credential i)) (sql_exec now ns (Get_Runtime_Credential i)) s t"
    "call_ok now (Get_Run_Credential i) s \<Longrightarrow>
      simulates ns (local_exec now (Get_Run_Credential i)) (sql_exec now ns (Get_Run_Credential i)) s t"
  unfolding local_exec.simps sql_exec.simps
  by (rule matches_simulates; simp add: matches_gets [OF sim])+

lemma simulates_updates:
  assumes sim: "sim ns s t"
  shows "call_ok now (Update_Run i f) s \<Longrightarrow> simulates ns (local_exec now (Update_Run i f)) (sql_exec now ns (Update_Run i f)) s t"
    "call_ok now (Update_Grant i g) s \<Longrightarrow>
      simulates ns (local_exec now (Update_Grant i g)) (sql_exec now ns (Update_Grant i g)) s t"
    "call_ok now (Delete_Task i) s \<Longrightarrow> simulates ns (local_exec now (Delete_Task i)) (sql_exec now ns (Delete_Task i)) s t"
proof -
  assume ok: "call_ok now (Update_Run i f) s"
  have "matches ns (update_run now i f) (sql_update_run False now ns i f) s t"
    by (rule matches_update_run [OF sim]) (use ok in \<open>simp_all split: option.splits sum.splits\<close>)
  then show "simulates ns (local_exec now (Update_Run i f)) (sql_exec now ns (Update_Run i f)) s t"
    by (simp add: matches_simulates)
next
  assume ok: "call_ok now (Update_Grant i g) s"
  have "matches ns (update_grant i g) (sql_update_grant False now ns i g) s t"
    by (rule matches_update_grant [OF sim]) (use ok in \<open>simp_all split: option.splits sum.splits\<close>)
  then show "simulates ns (local_exec now (Update_Grant i g)) (sql_exec now ns (Update_Grant i g)) s t"
    using matches_simulates [of ns _ _ s t "\<lambda>(g, r). Granted g r"] by (simp add: split_beta)
next
  assume ok: "call_ok now (Delete_Task i) s"
  then have "matches ns (delete_task i) (sql_delete_task False ns i) s t"
    using matches_delete_task [OF sim] delete_ok_apart by simp
  then show "simulates ns (local_exec now (Delete_Task i)) (sql_exec now ns (Delete_Task i)) s t"
    by (simp add: matches_simulates)
qed

lemma simulates_call:
  assumes sim: "sim ns s t" and ok: "call_ok now call s"
  shows "simulates ns (local_exec now call) (sql_exec now ns call) s t"
proof (cases call)
  case (Consume_Registration_Credential h)
  then show ?thesis using matches_simulates [OF matches_consume [OF sim, of h now], of Flag] ok by simp
next
  case (Create_Task_Run tk r wss)
  then show ?thesis using ok
      matches_simulates [OF matches_create_task_run [OF sim, of tk r wss now], of "\<lambda>(t, r, wss). Created t r wss"]
    by (simp add: split_beta)
qed (use ok simulates_lists [OF sim] simulates_saves [OF sim] simulates_gets [OF sim] simulates_updates [OF sim]
    in \<open>simp_all only: call_ok.simps simp_thms\<close>)

end
