(* ===== verification/Sql_Claims.thy ===== *)
theory Sql_Claims
  imports Sql_Simulation
begin

text \<open>The properties of the SQL store: one table serves every tenant as the tenant's own local store.\<close>

section \<open>Histories\<close>

text \<open>Calls of several tenants in the order the database serializes them: tenant, clock reading, call.\<close>

type_synonym tenant_call = "string \<times> time \<times> store_call"

fun sql_history :: "tenant_call list \<Rightarrow> sql_table \<Rightarrow> store_reply result list \<times> sql_table" where
  "sql_history [] t = ([], t)"
| "sql_history ((ns, now, call) # h) t =
     (case sql_exec now ns call t of (r, t') \<Rightarrow> (case sql_history h t' of (rs, u) \<Rightarrow> (r # rs, u)))"




text \<open>The rows a claim may take.\<close>

definition waiting :: "string list \<Rightarrow> string \<Rightarrow> string \<Rightarrow> sql_table \<Rightarrow> sql_row list" where
  "waiting locked ns cid t = filter (\<lambda>row. row_ns row = ns \<and> row_coll row = ''runs'' \<and>
     row_computer row = Some cid \<and> row_status row \<in> {Some Queued, Some Recovering} \<and> row_id row \<notin> set locked) t"

text \<open>The caller's part of keeping the columns of a row those of its document.\<close>

fun identity_kept :: "store_call \<Rightarrow> bool" where
  "identity_kept (Update_Run i f) = (\<forall>r r'. f r = Inr r' \<longrightarrow> run_id r' = run_id r)"
| "identity_kept (Update_Grant i f) = (\<forall>g r g'. f g r = Inr g' \<longrightarrow>
     grant_id g' = grant_id g \<and> grant_run_id g' = grant_run_id g)"
| "identity_kept _ = True"

definition sx_task :: code_task where
  "sx_task = \<lparr>task_id = ''t'', task_title = ''T'', task_prompt = [], task_engine_id = ''e'', task_project_id = None,
     task_scope = full_scope, task_execution_project = None, task_repository_setup = None,
     task_source_contexts = [], task_deliveries = [], task_created_at = 1, task_updated_at = 1\<rparr>"

definition sx_run :: "string \<Rightarrow> task_run" where
  "sx_run i = new_run 1 i ''t'' ''c''"

text \<open>Two tenants create the same ids; one deletes its task and lists, the other updates its run.\<close>

definition sx_history :: "tenant_call list" where
  "sx_history =
     [(''a'', 1, Create_Task_Run sx_task (sx_run ''r'') [new_workspace 1 ''w'' ''r'' ''f'' ''c'']),
      (''b'', 2, Create_Task_Run sx_task (sx_run ''r'') []),
      (''a'', 3, Create_Task_Run sx_task (sx_run ''q'') []),
      (''b'', 4, Update_Run ''r'' (\<lambda>r. transition_run 4 r Preparing None)),
      (''a'', 5, Delete_Task ''t''),
      (''a'', 6, List_Workspaces None),
      (''a'', 7, Get_Run ''r''),
      (''b'', 8, Get_Run ''r'')]"

definition sx_table :: sql_table where
  "sx_table = snd (sql_history (take 2 sx_history) [])"

section \<open>Helper lemmas\<close>





text \<open>Every call keeps the columns of the rows those of their documents.\<close>

lemma keeps_session: "keeps P m \<Longrightarrow> keeps P (sql_session active m)"
  unfolding keeps_def sql_session_def
  by (rule allI, erule_tac x=s in allE) (auto split: prod.splits sum.splits)

lemma keeps_reads:
  "keeps P (sql_fetch ns coll i)" "keeps P (sql_select ns Q)" "keeps P (require_collection coll)"
  by (simp_all add: keeps_def sql_fetch_def sql_select_def require_collection_def)

lemma keeps_delete: "keeps table_wf (sql_delete ns P)"
  by (auto simp: keeps_def sql_delete_def table_wf_def list_all_iff intro: distinct_map_filter)

lemma keeps_update:
  assumes "\<And>row. row_key (f row) = row_key row" "\<And>row. row_ok row \<Longrightarrow> row_at ns coll i row \<Longrightarrow> row_ok (f row)"
  shows "keeps table_wf (sql_update ns coll i f)"
proof (rule keepsI)
  fix t assume wf: "table_wf t"
  let ?g = "\<lambda>r. if row_at ns coll i r then f r else r"
  have "map row_key (map ?g t) = map row_key t" using assms(1) by simp
  then have "distinct (map row_key (map ?g t))" using wf by (simp only: table_wf_def)
  then show "table_wf (snd (sql_update ns coll i f t))"
    using wf assms(2) by (auto simp: table_wf_def sql_update_def list_all_iff)
qed

lemma keeps_write: "class_ok c \<Longrightarrow> keeps table_wf (sql_update ns (sc_coll c) (m_id (sc_model c) d) (write_row c now d))"
  by (rule keeps_update) (auto simp: row_at_def intro: row_ok_write)

lemma keeps_save: "class_ok c \<Longrightarrow> keeps table_wf (sql_save c now ns d)"
  unfolding keeps_def using sql_save_docs [of _ c now ns d] by fastforce

lemma keeps_get: "keeps P (sql_get c ns i)" "keeps P (sql_list c ns p)" "keeps P (locked_row c ns i)"
  unfolding sql_get_def sql_list_def locked_row_def
  by (intro keeps_sbind keeps_reads keeps_case_option keeps_smapM keeps_sraise keeps_slift keeps_sreturn)+

lemma keeps_add_new: "class_ok c \<Longrightarrow> keeps table_wf (add_new label c now ns d)"
  using insert_docs(1) [of _ c ns d now] class_okD(1) [of c]
  by (auto simp: keeps_def add_new_def sql_fetch_def sbind_def sql_add_def require_collection_def sql_insert_def
      split: option.splits)

lemma keeps_save_audit: "keeps table_wf (sql_save_audit_event active now ns a)"
  unfolding sql_save_audit_event_def
  by (rule keeps_session) (use insert_docs(1) [of _ audit_class ns a now] in
    \<open>auto simp: keeps_def sql_fetch_def sbind_def sql_add_def require_collection_def sql_insert_def
      SQL_COLLECTIONS_def split: option.splits\<close>)

text \<open>A call that found a row may rely on what it found.\<close>

lemma keeps_locked:
  assumes c: "class_ok c"
    and f: "\<And>d. m_id (sc_model c) d = i \<Longrightarrow> keeps table_wf (f d)"
  shows "keeps table_wf (sbind (locked_row c ns i) (\<lambda>row. sbind (slift (validate_row c row)) f))"
proof (rule keepsI)
  fix t assume wf: "table_wf t"
  show "table_wf (snd (sbind (locked_row c ns i) (\<lambda>row. sbind (slift (validate_row c row)) f) t))"
  proof (cases "find (row_at ns (sc_coll c) i) t")
    case None
    then show ?thesis using wf by (simp add: locked_row_def sql_fetch_def sbind_def)
  next
    case (Some row)
    obtain d where d: "m_id (sc_model c) d = i"
        "validate_row c row = (if m_valid (sc_model c) d then Inr d else Inl (ValidationError (m_name (sc_model c))))"
      using find_class_docs(2) [OF wf c Some] by blast
    then show ?thesis using Some wf keepsD [OF f [OF d(1)] wf]
      by (simp add: locked_row_def sql_fetch_def sbind_def)
  qed
qed

lemma keeps_sbind_slift: "(\<And>x. r = Inr x \<Longrightarrow> keeps P (f x)) \<Longrightarrow> keeps P (sbind (slift r) f)"
  by (cases r) (simp_all add: keeps_def sbind_def)

lemma sbind_assoc: "sbind (sbind m f) g = sbind m (\<lambda>x. sbind (f x) g)"
  by (auto simp: sbind_def fun_eq_iff split: prod.splits sum.splits)

lemma sbind_sreturn: "sbind (sreturn x) f = f x"
  by (simp add: sbind_def fun_eq_iff)

lemma rewrite_wf:
  assumes wf: "table_wf t" and c: "class_ok c" "sc_coll c \<noteq> ''runs''"
    and row: "find (row_at ns (sc_coll c) i) t = Some row" and d: "m_id (sc_model c) d = i"
      "projected_parent (sc_wrap c d) = projected_parent (row_payload row)"
  shows "table_wf (snd (sql_update ns (sc_coll c) i (rewrite_row c now d) t))"
proof -
  have "row_ok row" using find_row_SomeD [OF row] wf by (auto simp: table_wf_def list_all_iff)
  then have "row_ok (rewrite_row c now d row)"
    using row_ok_rewrite [OF _ c(1) _ _ d(2) c(2)] find_row_SomeD [OF row] d(1) by simp
  then show ?thesis using update_docs(1) [OF wf c(1) d(1) [symmetric] row, of "rewrite_row c now d"]
    by (simp add: sql_update_def)
qed

lemma keeps_sql_update_grant:
  assumes f: "\<And>g r g'. f g r = Inr g' \<Longrightarrow> grant_id g' = grant_id g \<and> grant_run_id g' = grant_run_id g"
  shows "keeps table_wf (sql_update_grant active now ns i f)"
  unfolding sql_update_grant_def
proof (rule keeps_session, rule keepsI)
  fix t assume wf: "table_wf t"
  let ?m = "sbind (locked_row grant_class ns i) (\<lambda>row. sbind (slift (validate_row grant_class row)) (\<lambda>g.
     sbind (locked_row run_class ns (grant_run_id g)) (\<lambda>run_row.
     sbind (slift (validate_row run_class run_row)) (\<lambda>r. sbind (slift (f g r)) (\<lambda>g'.
     sbind (sql_update ns ''grants'' i (rewrite_row grant_class now g')) (\<lambda>_. sreturn (g', r)))))))"
  show "table_wf (snd (?m t))"
  proof (cases "find (row_at ns ''grants'' i) t")
    case None
    then show ?thesis using wf by (simp add: locked_row_def sql_fetch_def sbind_def)
  next
    case (Some row)
    obtain g where g: "row_payload row = Grant_Doc g" "grant_id g = i"
        "validate_row grant_class row = (if valid_grant g then Inr g else Inl (ValidationError (m_name grant_model)))"
      using find_class_docs(2) [OF wf, of grant_class ns i row] Some by auto
    have w: "table_wf (snd (sql_update ns ''grants'' i (rewrite_row grant_class now g') t))" if "f g r = Inr g'" for r g'
      using rewrite_wf [OF wf, of grant_class ns i row g' now] Some f [OF that] g
      by (simp add: projected_parent_def)
    show ?thesis using Some g wf w
      by (auto simp: locked_row_def sql_fetch_def sbind_def sql_update_def split: option.splits sum.splits)
  qed
qed

lemma keeps_sql_consume: "keeps table_wf (sql_consume_registration_credential active ns h now)"
  unfolding sql_consume_registration_credential_def
proof (rule keeps_session, rule keepsI)
  fix t assume wf: "table_wf t"
  let ?c = registration_credential_class
  let ?m = "sbind (stry_key (locked_row ?c ns h)) (\<lambda>found. case found of None \<Rightarrow> sreturn False
       | Some row \<Rightarrow> sbind (slift (validate_row ?c row)) (\<lambda>cred.
             if reg_consumed_at cred \<noteq> None \<or> reg_expires_at cred \<le> now then sreturn False
             else sbind (sql_update ns ''registration_credentials'' h
                 (rewrite_row ?c now (cred\<lparr>reg_consumed_at := Some now\<rparr>))) (\<lambda>_. sreturn True)))"
  show "table_wf (snd (?m t))"
  proof (cases "find (row_at ns ''registration_credentials'' h) t")
    case None
    then show ?thesis using wf by (simp add: locked_row_def sql_fetch_def sbind_def stry_key_def)
  next
    case (Some row)
    obtain c where c: "row_payload row = Registration_Credential_Doc c" "reg_id c = h"
        "validate_row ?c row = (if valid_registration_credential c then Inr c
          else Inl (ValidationError (m_name registration_credential_model)))"
      using find_class_docs(2) [OF wf, of ?c ns h row] Some by auto
    have w: "table_wf (snd (sql_update ns ''registration_credentials'' h
        (rewrite_row ?c now (c\<lparr>reg_consumed_at := Some now\<rparr>)) t))"
      using rewrite_wf [OF wf, of ?c ns h row "c\<lparr>reg_consumed_at := Some now\<rparr>" now] Some c
      by (simp add: projected_parent_def)
    show ?thesis using Some c wf w
      by (auto simp: locked_row_def sql_fetch_def sbind_def stry_key_def sql_update_def)
  qed
qed

lemma keeps_sql_update_run:
  assumes f: "\<And>r r'. f r = Inr r' \<Longrightarrow> run_id r' = run_id r"
  shows "keeps table_wf (sql_update_run active now ns i f)"
proof -
  have w: "keeps table_wf (sql_update ns ''runs'' j (write_row run_class now (r'\<lparr>run_updated_at := now\<rparr>)))"
    if "run_id r' = j" for r' j
    using keeps_write [of run_class ns "r'\<lparr>run_updated_at := now\<rparr>" now] that by simp
  show ?thesis
    unfolding sql_update_run_def sql_update_run_with_def Let_def
    by (rule keeps_sbind, rule keeps_session, rule keeps_locked)
      (auto simp: sbind_assoc sbind_sreturn intro!: keeps_sbind_slift keeps_sbind keeps_reads keeps_if w dest: f)
qed

lemma waiting_row:
  assumes "table_wf t" "row \<in> set (waiting locked ns cid t)"
  shows "\<exists>r. find (row_at ns ''runs'' (row_id row)) t = Some row \<and> row_payload row = Run_Doc r \<and>
    run_id r = row_id row \<and> run_computer_id r = cid \<and> run_status r \<in> {Queued, Recovering} \<and> row_id row \<notin> set locked \<and>
    validate_row run_class row = (if valid_run r then Inr r else Inl (ValidationError (m_name run_model)))"
proof -
  have row: "row \<in> set t" "row_ns row = ns" "row_coll row = ''runs''" "row_computer row = Some cid"
    "row_status row \<in> {Some Queued, Some Recovering}" "row_id row \<notin> set locked"
    using assms(2) by (auto simp: waiting_def)
  have f: "find (row_at ns ''runs'' (row_id row)) t = Some row"
    using find_row_mem [OF assms(1) row(1)] row(2,3) by simp
  then obtain r where r: "row_payload row = Run_Doc r" "run_id r = row_id row" "row_ok row"
      "validate_row run_class row = (if valid_run r then Inr r else Inl (ValidationError (m_name run_model)))"
    using find_class_docs(2) [OF assms(1), of run_class ns "row_id row" row] by auto
  then show ?thesis using row_ok_columns(2,3) [OF r(3)] row f by auto
qed

lemma transition_preparing:
  assumes "run_status r \<in> {Queued, Recovering}"
  shows "transition_run now r Preparing None =
    Inr (r\<lparr>run_status := Preparing, run_last_error := None, run_updated_at := now\<rparr>)"
  using assms by (cases r) (auto simp: transition_run_def Let_def TERMINAL_RUN_STATUSES_def)

lemma claim_row:
  assumes wf: "table_wf t" and min: "min_by row_created (waiting locked ns cid t) = Some row"
    and r: "row_payload row = Run_Doc r" "valid_run r"
  shows "sql_claim_run active locked now ns cid lease expires t =
    (let r' = r\<lparr>run_lease_id := Some lease, run_lease_expires_at := Some expires, run_status := Preparing,
        run_last_error := None, run_updated_at := now\<rparr>
     in (Inr (Some r'), snd (sql_update ns ''runs'' (row_id row) (write_row run_class now r') t)))"
proof -
  have row: "row \<in> set (waiting locked ns cid t)" using min_by_least [OF min] by simp
  have ok: "validate_row run_class row = Inr r" "run_status r \<in> {Queued, Recovering}"
    using waiting_row [OF wf row] r by auto
  have s: "sql_select ns (\<lambda>row. row_coll row = ''runs'' \<and> row_computer row = Some cid \<and>
      row_status row \<in> {Some Queued, Some Recovering} \<and> row_id row \<notin> set locked) t = (Inr (waiting locked ns cid t), t)"
    by (simp add: sql_select_def waiting_def)
  have u: "sql_update ns coll i f t = (Inr (), snd (sql_update ns coll i f t))" for coll i f
    by (simp add: sql_update_def)
  have st: "run_status (r\<lparr>run_lease_id := Some lease, run_lease_expires_at := Some expires\<rparr>) \<in> {Queued, Recovering}"
    using ok(2) by simp
  have "sql_claim_run active locked now ns cid lease expires t = sql_session active (\<lambda>t.
    (Inr (Some (r\<lparr>run_lease_id := Some lease, run_lease_expires_at := Some expires, run_status := Preparing,
        run_last_error := None, run_updated_at := now\<rparr>)),
     snd (sql_update ns ''runs'' (row_id row) (write_row run_class now
       (r\<lparr>run_lease_id := Some lease, run_lease_expires_at := Some expires, run_status := Preparing,
        run_last_error := None, run_updated_at := now\<rparr>)) t))) t"
    unfolding sql_claim_run_def sql_session_def sbind_def s
    using min ok(1) transition_preparing [OF st, of now]
    by (simp add: Let_def sql_update_def)
  then show ?thesis by (simp add: sql_session_def Let_def)
qed

lemma keeps_prune_row: "keeps table_wf (prune_row a b ns row)"
  unfolding prune_row_def by (intro keeps_sbind keeps_slift keeps_if keeps_delete keeps_sreturn)

lemma keeps_claim: "keeps table_wf (sql_claim_run active locked now ns cid lease expires)"
  unfolding sql_claim_run_def
proof (rule keeps_session, rule keepsI)
  fix t assume wf: "table_wf t"
  let ?m = "sbind (sql_select ns (\<lambda>row. row_coll row = ''runs'' \<and> row_computer row = Some cid \<and>
      row_status row \<in> {Some Queued, Some Recovering} \<and> row_id row \<notin> set locked)) (\<lambda>rows.
       case min_by row_created rows of None \<Rightarrow> sreturn None
       | Some row \<Rightarrow> sbind (slift (validate_row run_class row)) (\<lambda>r.
           sbind (slift (transition_run now
             (r\<lparr>run_lease_id := Some lease, run_lease_expires_at := Some expires\<rparr>) Preparing None)) (\<lambda>r'.
           let r'' = r'\<lparr>run_updated_at := now\<rparr> in
           sbind (sql_update ns ''runs'' (row_id row) (write_row run_class now r'')) (\<lambda>_. sreturn (Some r'')))))"
  have m: "sql_claim_run True locked now ns cid lease expires t = ?m t"
    by (simp add: sql_claim_run_def sql_session_def)
  have s: "fst (sql_select ns (\<lambda>row. row_coll row = ''runs'' \<and> row_computer row = Some cid \<and>
      row_status row \<in> {Some Queued, Some Recovering} \<and> row_id row \<notin> set locked) t) = Inr (waiting locked ns cid t)"
    by (simp add: sql_select_def waiting_def)
  show "table_wf (snd (?m t))"
  proof (cases "min_by row_created (waiting locked ns cid t)")
    case None
    then show ?thesis using wf by (simp add: sbind_def sql_select_def waiting_def)
  next
    case (Some row)
    then have row: "row \<in> set (waiting locked ns cid t)" using min_by_least [OF Some] by simp
    obtain r where r: "row_payload row = Run_Doc r" "run_id r = row_id row"
        "validate_row run_class row = (if valid_run r then Inr r else Inl (ValidationError (m_name run_model)))"
      using waiting_row [OF wf row] by blast
    show ?thesis
    proof (cases "valid_run r")
      case True
      let ?r = "r\<lparr>run_lease_id := Some lease, run_lease_expires_at := Some expires, run_status := Preparing,
        run_last_error := None, run_updated_at := now\<rparr>"
      have "table_wf (snd (sql_update ns ''runs'' (row_id row) (write_row run_class now ?r) t))"
        using keepsD [OF keeps_write [of run_class ns ?r now] wf] r(2) by simp
      then show ?thesis using claim_row [OF wf Some r(1) True, of True now lease expires] m by (simp add: Let_def)
    next
      case False
      then show ?thesis using wf Some r(3) by (simp add: sbind_def sql_select_def waiting_def)
    qed
  qed
qed

section \<open>Properties\<close>



text \<open>C25. Tenant isolation. No call of a tenant changes, adds or drops a row of another tenant, and what a call
  returns and does to the tenant's own rows does not depend on any other tenant's rows. Claiming and pruning
  included.\<close>

theorem tenant_isolation:
  "sql_exec now ns call (own ns t) = (fst (sql_exec now ns call t), own ns (snd (sql_exec now ns call t))) \<and>
   others ns (snd (sql_exec now ns call t)) = others ns t"
  using isolated_exec [of ns now call] by (simp add: isolated_def)


text \<open>C26. The columns of the table never drift from the documents. Every call keeps one row per tenant, collection
  and id, with the owner, computer and status columns the document's own, so that the queries that select by
  column (claiming, listing by run, deleting a task) see exactly what the documents say. The callers' part is
  that an update does not change the identity of its document.\<close>

theorem sql_rows_consistent:
  assumes "table_wf t" "identity_kept call"
  shows "table_wf (snd (sql_exec now ns call t))"
proof -
  have "keeps table_wf (sql_exec now ns call)"
    using assms(2)
    by (cases call) (auto simp: reply_def sql_save_computer_def sql_save_task_def sql_save_run_def
        sql_save_workspace_def sql_create_task_run_def sql_delete_task_def sql_prune_def Let_def
        intro!: keeps_sbind keeps_smapM keeps_prune_row keeps_save keeps_get keeps_save_audit keeps_sql_consume keeps_session keeps_add_new
          keeps_reads keeps_delete keeps_claim keeps_sql_update_run keeps_sql_update_grant)
  then show ?thesis using assms(1) by (rule keepsD)
qed

theorem sql_rows_consistent_witness:
  "table_wf (snd (sql_exec 9 ''a'' (Claim_Run [] ''c'' ''L'' 50) sx_table)) \<and>
   map_option row_status (find (row_at ''a'' ''runs'' ''r'')
     (snd (sql_exec 9 ''a'' (Claim_Run [] ''c'' ''L'' 50) sx_table))) = Some (Some Preparing)"
proof -
  have "table_wf sx_table" "map_option row_status (find (row_at ''a'' ''runs'' ''r'')
     (snd (sql_exec 9 ''a'' (Claim_Run [] ''c'' ''L'' 50) sx_table))) = Some (Some Preparing)" by code_simp+
  then show ?thesis using sql_rows_consistent [of sx_table "Claim_Run [] ''c'' ''L'' 50"] by simp
qed



end
