(* ===== verification/Json_Codec.thy ===== *)
theory Json_Codec
  imports Control_Models
begin

text \<open>
  JSON text as Python's \<open>json\<close> module writes and reads it. A text is the list of its UTF-8 bytes.
  \<open>dumps\<close> is \<open>json.dumps(v, ensure_ascii=False)\<close>; \<open>loads\<close> is \<open>json.loads\<close> with \<^const>\<open>None\<close> for
  \<open>JSONDecodeError\<close>. The text of a float and the value of a float token are arguments.
\<close>

section \<open>Integers\<close>

definition digit :: "nat \<Rightarrow> char" where
  "digit d = char_of (48 + int d)"

fun digits :: "nat \<Rightarrow> string" where
  "digits n = (if n < 10 then [digit n] else digits (n div 10) @ [digit (n mod 10)])"

declare digits.simps [simp del]

definition int_repr :: "int \<Rightarrow> string" where
  "int_repr i = (if i < 0 then CHR ''-'' # digits (nat (- i)) else digits (nat i))"

definition is_digit :: "char \<Rightarrow> bool" where
  "is_digit c \<longleftrightarrow> 48 \<le> (of_char c :: int) \<and> (of_char c :: int) \<le> 57"

definition digit_val :: "char \<Rightarrow> nat" where
  "digit_val c = nat (of_char c - 48)"

definition digits_val :: "string \<Rightarrow> nat" where
  "digits_val = foldl (\<lambda>n c. 10 * n + digit_val c) 0"

section \<open>Writing\<close>

definition hex_digit :: "int \<Rightarrow> char" where
  "hex_digit d = (if d < 10 then char_of (48 + d) else char_of (87 + d))"

definition escape_char :: "char \<Rightarrow> string" where
  "escape_char c =
     (if c = CHR 0x22 then [CHR 0x5C, CHR 0x22]
      else if c = CHR 0x5C then [CHR 0x5C, CHR 0x5C]
      else if c = CHR 0x0A then [CHR 0x5C, CHR ''n'']
      else if c = CHR 0x0D then [CHR 0x5C, CHR ''r'']
      else if c = CHR 0x09 then [CHR 0x5C, CHR ''t'']
      else if c = CHR 0x0C then [CHR 0x5C, CHR ''f'']
      else if c = CHR 0x08 then [CHR 0x5C, CHR ''b'']
      else let n = of_char c :: int in
        if n < 32 then [CHR 0x5C, CHR ''u'', CHR ''0'', CHR ''0'', hex_digit (n div 16), hex_digit (n mod 16)]
        else [c])"

definition quoted :: "string \<Rightarrow> string" where
  "quoted s = CHR 0x22 # concat (map escape_char s) @ [CHR 0x22]"

fun comma_join :: "string list \<Rightarrow> string" where
  "comma_join [] = ''''"
| "comma_join [x] = x"
| "comma_join (x # y # ys) = x @ '', '' @ comma_join (y # ys)"

fun dumps :: "(int \<Rightarrow> int \<Rightarrow> string) \<Rightarrow> json \<Rightarrow> string" where
  "dumps fr JNull = ''null''"
| "dumps fr (JBool b) = (if b then ''true'' else ''false'')"
| "dumps fr (JInt i) = int_repr i"
| "dumps fr (JFloat m e) = fr m e"
| "dumps fr (JStr s) = quoted s"
| "dumps fr (JList xs) = ''['' @ comma_join (map (dumps fr) xs) @ '']''"
| "dumps fr (JDict ps) =
     ''{'' @ comma_join (map (\<lambda>p. quoted (fst p) @ '': '' @ dumps fr (snd p)) ps) @ ''}''"

section \<open>Reading\<close>

definition is_ws :: "char \<Rightarrow> bool" where
  "is_ws c \<longleftrightarrow> c = CHR '' '' \<or> c = CHR 0x09 \<or> c = CHR 0x0A \<or> c = CHR 0x0D"

definition skip_ws :: "string \<Rightarrow> string" where
  "skip_ws = dropWhile is_ws"

fun hex_val :: "char \<Rightarrow> int option" where
  "hex_val c = (let n = of_char c :: int in
     if 48 \<le> n \<and> n \<le> 57 then Some (n - 48)
     else if 97 \<le> n \<and> n \<le> 102 then Some (n - 87)
     else if 65 \<le> n \<and> n \<le> 70 then Some (n - 55)
     else None)"

fun hex4 :: "string \<Rightarrow> (int \<times> string) option" where
  "hex4 (a # b # c # d # s) =
     (case (hex_val a, hex_val b, hex_val c, hex_val d) of
        (Some w, Some x, Some y, Some z) \<Rightarrow> Some (4096 * w + 256 * x + 16 * y + z, s)
      | _ \<Rightarrow> None)"
| "hex4 _ = None"

definition utf8 :: "int \<Rightarrow> string" where
  "utf8 n =
     (if n < 128 then [char_of n]
      else if n < 2048 then [char_of (192 + n div 64), char_of (128 + n mod 64)]
      else if n < 65536 then
        [char_of (224 + n div 4096), char_of (128 + n div 64 mod 64), char_of (128 + n mod 64)]
      else [char_of (240 + n div 262144), char_of (128 + n div 4096 mod 64),
            char_of (128 + n div 64 mod 64), char_of (128 + n mod 64)])"

text \<open>A \<open>\u\<close> escape; a high surrogate directly followed by an escaped low one is one code point.\<close>

definition unicode_escape :: "string \<Rightarrow> (string \<times> string) option" where
  "unicode_escape s = (case hex4 s of
     None \<Rightarrow> None
   | Some (n, r) \<Rightarrow>
       if 55296 \<le> n \<and> n \<le> 56319 \<and> take 2 r = [CHR 0x5C, CHR ''u''] then
         (case hex4 (drop 2 r) of
            None \<Rightarrow> None
          | Some (m, r') \<Rightarrow>
              if 56320 \<le> m \<and> m \<le> 57343
              then Some (utf8 (65536 + 1024 * (n - 55296) + (m - 56320)), r')
              else Some (utf8 n, r))
       else Some (utf8 n, r))"

lemma hex4_length: "hex4 s = Some (n, r) \<Longrightarrow> length r < length s"
  by (induction s rule: hex4.induct) (auto split: option.splits)

lemma unicode_escape_length: "unicode_escape s = Some (t, r) \<Longrightarrow> length r < length s"
proof -
  assume a: "unicode_escape s = Some (t, r)"
  then obtain n q where q: "hex4 s = Some (n, q)"
    by (auto simp: unicode_escape_def split: option.splits)
  have "length q < length s" by (rule hex4_length [OF q])
  then show ?thesis using a q hex4_length [of "drop 2 q"]
    by (fastforce simp: unicode_escape_def split: option.splits if_splits)
qed

text \<open>The rest of a string literal after its opening quote, and what follows it.\<close>

function (sequential) jstring :: "string \<Rightarrow> string \<Rightarrow> (string \<times> string) option" where
  "jstring acc [] = None"
| "jstring acc (c # s) = 
    (if c = CHR 0x22 then Some (acc, s)
     else if (of_char c :: int) < 32 then None
     else if c \<noteq> CHR 0x5C then jstring (acc @ [c]) s
     else (case s of
         [] \<Rightarrow> None
       | e # r \<Rightarrow>
           if e = CHR 0x22 \<or> e = CHR 0x5C \<or> e = CHR ''/'' then jstring (acc @ [e]) r
           else if e = CHR ''n'' then jstring (acc @ [CHR 0x0A]) r
           else if e = CHR ''r'' then jstring (acc @ [CHR 0x0D]) r
           else if e = CHR ''t'' then jstring (acc @ [CHR 0x09]) r
           else if e = CHR ''f'' then jstring (acc @ [CHR 0x0C]) r
           else if e = CHR ''b'' then jstring (acc @ [CHR 0x08]) r
           else if e = CHR ''u'' then
             (case unicode_escape r of None \<Rightarrow> None | Some (t, r') \<Rightarrow> jstring (acc @ t) r')
           else None))"
  by pat_completeness auto
termination
  by (relation "measure (\<lambda>(acc, s). length s)") (auto dest: unicode_escape_length)

declare jstring.simps [simp del]

text \<open>A number: an integer part without leading zeros, an optional fraction and exponent. With neither
  it is an integer, otherwise the token goes to \<open>float\<close>.\<close>

definition frac_part :: "string \<Rightarrow> string" where
  "frac_part s = (case s of
     c # r \<Rightarrow> if c = CHR ''.'' \<and> takeWhile is_digit r \<noteq> [] then c # takeWhile is_digit r else []
   | [] \<Rightarrow> [])"

definition exp_part :: "string \<Rightarrow> string" where
  "exp_part s = (case s of
     c # r \<Rightarrow>
       if c = CHR ''e'' \<or> c = CHR ''E'' then
         let sg = (case r of d # _ \<Rightarrow> if d = CHR ''+'' \<or> d = CHR ''-'' then [d] else [] | [] \<Rightarrow> []);
             ds = takeWhile is_digit (drop (length sg) r)
         in if ds = [] then [] else c # sg @ ds
       else []
   | [] \<Rightarrow> [])"

definition int_part :: "string \<Rightarrow> string" where
  "int_part s = (case s of
     c # _ \<Rightarrow> if c = CHR ''0'' then [c] else takeWhile is_digit s
   | [] \<Rightarrow> [])"

definition jnumber :: "(string \<Rightarrow> json) \<Rightarrow> string \<Rightarrow> (json \<times> string) option" where
  "jnumber fl s =
     (let sg = (case s of c # _ \<Rightarrow> if c = CHR ''-'' then [c] else [] | [] \<Rightarrow> []);
          r = drop (length sg) s;
          ip = int_part r;
          r1 = drop (length ip) r;
          fp = frac_part r1;
          r2 = drop (length fp) r1;
          ep = exp_part r2;
          r3 = drop (length ep) r2
      in if ip = [] then None
         else if fp = [] \<and> ep = [] then
           Some (JInt (if sg = [] then int (digits_val ip) else - int (digits_val ip)), r3)
         else Some (fl (sg @ ip @ fp @ ep), r3))"

definition jconst :: "string \<Rightarrow> json \<Rightarrow> string \<Rightarrow> (json \<times> string) option" where
  "jconst w v s = (if take (length w) s = w then Some (v, drop (length w) s) else None)"

fun first_of :: "(string \<Rightarrow> 'a option) list \<Rightarrow> string \<Rightarrow> 'a option" where
  "first_of [] s = None"
| "first_of (p # ps) s = (case p s of None \<Rightarrow> first_of ps s | Some x \<Rightarrow> Some x)"

definition jscalar :: "(string \<Rightarrow> json) \<Rightarrow> string \<Rightarrow> (json \<times> string) option" where
  "jscalar fl = first_of [jconst ''null'' JNull, jconst ''true'' (JBool True),
     jconst ''false'' (JBool False), jnumber fl, jconst ''NaN'' (fl ''NaN''),
     jconst ''Infinity'' (fl ''Infinity''), jconst ''-Infinity'' (fl ''-Infinity'')]"

text \<open>\<open>jvalue\<close>, \<open>jitems\<close> (after the start of an element) and \<open>jmembers\<close> (after the opening quote of a key)
  take as fuel a bound on the nesting and the number of steps; the length of the text is enough.\<close>

fun jvalue :: "(string \<Rightarrow> json) \<Rightarrow> nat \<Rightarrow> string \<Rightarrow> (json \<times> string) option"
  and jitems :: "(string \<Rightarrow> json) \<Rightarrow> nat \<Rightarrow> json list \<Rightarrow> string \<Rightarrow> (json \<times> string) option"
  and jmembers :: "(string \<Rightarrow> json) \<Rightarrow> nat \<Rightarrow> payload \<Rightarrow> string \<Rightarrow> (json \<times> string) option" where
  "jvalue fl 0 s = None"
| "jvalue fl (Suc n) s =
     (if s = [] then None
      else if hd s = CHR 0x22 then map_option (\<lambda>(t, r). (JStr t, r)) (jstring [] (tl s))
      else if hd s = CHR ''['' then
        (let r = skip_ws (tl s) in
         if r \<noteq> [] \<and> hd r = CHR '']'' then Some (JList [], tl r) else jitems fl n [] r)
      else if hd s = CHR ''{'' then
        (let r = skip_ws (tl s) in
         if r \<noteq> [] \<and> hd r = CHR ''}'' then Some (JDict [], tl r)
         else if r \<noteq> [] \<and> hd r = CHR 0x22 then jmembers fl n [] (tl r)
         else None)
      else jscalar fl s)"
| "jitems fl 0 acc s = None"
| "jitems fl (Suc n) acc s = (case jvalue fl n s of
     None \<Rightarrow> None
   | Some (v, q) \<Rightarrow>
       let r = skip_ws q in
       if r \<noteq> [] \<and> hd r = CHR '']'' then Some (JList (acc @ [v]), tl r)
       else if r \<noteq> [] \<and> hd r = CHR '','' then jitems fl n (acc @ [v]) (skip_ws (tl r))
       else None)"
| "jmembers fl 0 acc s = None"
| "jmembers fl (Suc n) acc s = (case jstring [] s of
     None \<Rightarrow> None
   | Some (k, q) \<Rightarrow>
       let r = skip_ws q in
       if r = [] \<or> hd r \<noteq> CHR '':'' then None
       else (case jvalue fl n (skip_ws (tl r)) of
           None \<Rightarrow> None
         | Some (v, q') \<Rightarrow>
             let r' = skip_ws q' in
             if r' \<noteq> [] \<and> hd r' = CHR ''}'' then Some (JDict (al_put k v acc), tl r')
             else if r' \<noteq> [] \<and> hd r' = CHR '','' then
               (let r'' = skip_ws (tl r') in
                if r'' \<noteq> [] \<and> hd r'' = CHR 0x22
                then jmembers fl n (al_put k v acc) (tl r'') else None)
             else None))"

definition loads :: "(string \<Rightarrow> json) \<Rightarrow> string \<Rightarrow> json option" where
  "loads fl s = (case jvalue fl (length s) (skip_ws s) of
     None \<Rightarrow> None
   | Some (v, r) \<Rightarrow> if skip_ws r = [] then Some v else None)"

end
