(* ===== verification/Json_Roundtrip.thy ===== *)
theory Json_Roundtrip
  imports Json_Codec
begin

text \<open>
  Reading what was written: \<open>loads (dumps v) = Some v\<close> for a value without floats whose dicts have no
  repeated key, and what the written text looks like (one line, no surrounding blanks).
\<close>

section \<open>Integers\<close>

lemma of_char_bounds [simp]: "0 \<le> (of_char c :: int)" "(of_char c :: int) < 256"
  by (metis of_char_mod_256 pos_mod_sign zero_less_numeral)
    (metis of_char_mod_256 pos_mod_bound zero_less_numeral)

lemma of_digit [simp]: "d < 10 \<Longrightarrow> (of_char (digit d) :: int) = 48 + int d"
  by (simp add: digit_def)

lemma is_digit_digit [simp]: "d < 10 \<Longrightarrow> is_digit (digit d)"
  by (simp add: is_digit_def)

lemma digit_val_digit [simp]: "d < 10 \<Longrightarrow> digit_val (digit d) = d"
  by (simp add: digit_val_def)

lemma digits_all: "list_all is_digit (digits n)"
proof (induction n rule: digits.induct)
  case (1 n)
  then show ?case by (subst digits.simps) auto
qed

lemma digits_not_Nil [simp]: "digits n \<noteq> []"
  by (subst digits.simps) simp

lemma digits_val_snoc: "digits_val (xs @ [c]) = 10 * digits_val xs + digit_val c"
  by (simp add: digits_val_def)

lemma digits_val_digits [simp]: "digits_val (digits n) = n"
proof (induction n rule: digits.induct)
  case (1 n)
  show ?case
  proof (cases "n < 10")
    case True
    then show ?thesis by (subst digits.simps) (simp add: digits_val_def)
  next
    case False
    then show ?thesis using 1 by (subst digits.simps) (simp add: digits_val_snoc)
  qed
qed

lemma hd_digits: "0 < n \<Longrightarrow> (of_char (hd (digits n)) :: int) \<noteq> 48"
proof (induction n rule: digits.induct)
  case (1 n)
  show ?case
  proof (cases "n < 10")
    case True
    then show ?thesis using 1 by (subst digits.simps) simp
  next
    case False
    then have "0 < n div 10" by simp
    then show ?thesis using 1 False by (subst digits.simps) (simp add: hd_append)
  qed
qed

text \<open>What may follow a value inside a written text.\<close>

definition ends_value :: "string \<Rightarrow> bool" where
  "ends_value r \<longleftrightarrow> r = [] \<or> hd r = CHR '','' \<or> hd r = CHR '']'' \<or> hd r = CHR ''}''"

lemma ends_value_simps [simp]:
  "ends_value []" "ends_value (CHR '','' # r)" "ends_value (CHR '']'' # r)" "ends_value (CHR ''}'' # r)"
  by (simp_all add: ends_value_def)

lemma ends_valueD:
  assumes "ends_value r"
  shows "takeWhile is_digit r = []" "frac_part r = []" "exp_part r = []" "skip_ws r = r"
proof -
  consider "r = []" | s where "r = CHR '','' # s" | s where "r = CHR '']'' # s" | s where "r = CHR ''}'' # s"
    using assms by (cases r) (auto simp: ends_value_def)
  then show "takeWhile is_digit r = []" "frac_part r = []" "exp_part r = []" "skip_ws r = r"
    by (cases; simp add: is_digit_def frac_part_def exp_part_def skip_ws_def is_ws_def)+
qed

lemma digits_0: "digits 0 = [CHR ''0'']"
  using char_of_char [where ?'a = int, of "CHR ''0''"] by (simp add: digits.simps [of 0] digit_def)

lemma int_part_digits:
  assumes "ends_value r"
  shows "int_part (digits n @ r) = digits n"
proof (cases "n = 0")
  case True
  then show ?thesis by (simp add: int_part_def digits_0)
next
  case False
  obtain c ds where ds: "digits n = c # ds" by (cases "digits n") auto
  have "(of_char c :: int) \<noteq> 48" using hd_digits [of n] False ds by simp
  then have "c \<noteq> CHR ''0''" by auto
  moreover have "takeWhile is_digit (digits n @ r) = digits n"
    using digits_all [of n] ends_valueD(1) [OF assms] by (simp add: list_all_iff takeWhile_append2)
  ultimately show ?thesis using ds by (simp add: int_part_def)
qed

lemma digits_hd:
  obtains c ds where "digits n = c # ds" "is_digit c"
  using digits_all [of n] by (cases "digits n") auto

lemma jnumber_int_repr:
  assumes "ends_value r"
  shows "jnumber fl (int_repr i @ r) = Some (JInt i, r)"
proof -
  note ends_valueD [OF assms, simp] int_part_digits [OF assms, simp]
  show ?thesis
  proof (cases "i < 0")
    case True
    then show ?thesis by (simp add: jnumber_def int_repr_def Let_def)
  next
    case False
    obtain c ds where c: "digits (nat i) = c # ds" "is_digit c" by (rule digits_hd)
    then have "c \<noteq> CHR ''-''" by (auto simp: is_digit_def)
    then have "(case digits (nat i) @ r of c # _ \<Rightarrow> if c = CHR ''-'' then [c] else [] | [] \<Rightarrow> []) = []"
      using c by simp
    then show ?thesis using False by (simp add: jnumber_def int_repr_def Let_def)
  qed
qed

lemma int_repr_hd:
  obtains c s where "int_repr i = c # s" "is_digit c \<or> c = CHR ''-''"
proof (cases "i < 0")
  case False
  obtain c ds where "digits (nat i) = c # ds" "is_digit c" by (rule digits_hd)
  then show ?thesis using that False by (simp add: int_repr_def)
qed (simp add: int_repr_def that)

section \<open>Strings\<close>

lemma hex_val_digit [simp]: "0 \<le> d \<Longrightarrow> d < 16 \<Longrightarrow> hex_val (hex_digit d) = Some d"
  by (auto simp: hex_digit_def)

declare hex_val.simps [simp del]

lemma hex_val_0 [simp]: "hex_val (CHR ''0'') = Some 0"
  by (simp add: hex_val.simps)

lemma unicode_escape_control:
  "0 \<le> n \<Longrightarrow> n < 32 \<Longrightarrow>
     unicode_escape (CHR ''0'' # CHR ''0'' # hex_digit (n div 16) # hex_digit (n mod 16) # r) =
     Some ([char_of n], r)"
  by (simp add: unicode_escape_def utf8_def)

lemma jstring_plain:
  "32 \<le> (of_char c :: int) \<Longrightarrow> c \<noteq> CHR 0x22 \<Longrightarrow> c \<noteq> CHR 0x5C \<Longrightarrow>
     jstring acc (c # r) = jstring (acc @ [c]) r"
  by (subst jstring.simps) simp

lemma jstring_escape:
  "jstring acc (CHR 0x5C # e # r) =
     (if e = CHR 0x22 \<or> e = CHR 0x5C \<or> e = CHR ''/'' then jstring (acc @ [e]) r
           else if e = CHR ''n'' then jstring (acc @ [CHR 0x0A]) r
           else if e = CHR ''r'' then jstring (acc @ [CHR 0x0D]) r
           else if e = CHR ''t'' then jstring (acc @ [CHR 0x09]) r
           else if e = CHR ''f'' then jstring (acc @ [CHR 0x0C]) r
           else if e = CHR ''b'' then jstring (acc @ [CHR 0x08]) r
           else if e = CHR ''u'' then
             (case unicode_escape r of None \<Rightarrow> None | Some (t, r') \<Rightarrow> jstring (acc @ t) r')
           else None)"
  by (subst jstring.simps) simp

abbreviation special_chars :: "char set" where
  "special_chars \<equiv> {CHR 0x22, CHR 0x5C, CHR 0x0A, CHR 0x0D, CHR 0x09, CHR 0x0C, CHR 0x08}"

lemma jstring_escape_char: "jstring acc (escape_char c @ r) = jstring (acc @ [c]) r"
proof -
  let ?n = "of_char c :: int"
  consider (special) "c \<in> special_chars"
    | (control) "?n < 32" "c \<notin> special_chars"
    | (plain) "32 \<le> ?n" "c \<notin> special_chars" by linarith
  then show ?thesis
  proof cases
    case special
    then show ?thesis by (elim insertE) (simp_all add: escape_char_def jstring_escape)
  next
    case control
    then have "escape_char c @ r = CHR 0x5C # CHR ''u'' # CHR ''0'' # CHR ''0'' #
        hex_digit (?n div 16) # hex_digit (?n mod 16) # r"
      by (simp add: escape_char_def Let_def)
    then show ?thesis using control by (simp add: jstring_escape unicode_escape_control)
  next
    case plain
    then show ?thesis by (simp add: escape_char_def jstring_plain)
  qed
qed

lemma jstring_escaped:
  "jstring acc (concat (map escape_char s) @ CHR 0x22 # r) = Some (acc @ s, r)"
proof (induction s arbitrary: acc)
  case Nil
  have "jstring acc (CHR 0x22 # r) = Some (acc, r)"
    by (subst jstring.simps) (simp add: Let_def)
  then show ?case by simp
next
  case (Cons c s)
  then show ?case by (simp add: jstring_escape_char)
qed

lemma jstring_quoted: "jstring [] (tl (quoted s @ r)) = Some (s, r)"
  using jstring_escaped [of "[]" s r] by (simp add: quoted_def)

lemma quoted_hd: "quoted s @ r = CHR 0x22 # tl (quoted s @ r)"
  by (simp add: quoted_def)

section \<open>Values\<close>

text \<open>A dict's keys are distinct; floats are left out.\<close>

fun plain_json :: "json \<Rightarrow> bool" where
  "plain_json (JFloat m e) \<longleftrightarrow> False"
| "plain_json (JList xs) \<longleftrightarrow> list_all plain_json xs"
| "plain_json (JDict ps) \<longleftrightarrow> distinct (map fst ps) \<and> list_all (\<lambda>p. plain_json (snd p)) ps"
| "plain_json _ \<longleftrightarrow> True"

abbreviation member_text :: "(int \<Rightarrow> int \<Rightarrow> string) \<Rightarrow> string \<times> json \<Rightarrow> string" where
  "member_text fr p \<equiv> quoted (fst p) @ CHR '':'' # CHR '' '' # dumps fr (snd p)"

lemma comma_join_Cons:
  "comma_join (x # xs) = (if xs = [] then x else x @ '', '' @ comma_join xs)"
  by (cases xs) simp_all

lemma members_quote:
  assumes "ps \<noteq> []"
  obtains t where "comma_join (map (member_text fr) ps) = CHR 0x22 # t"
  using assms by (cases ps; cases "tl ps") (auto simp: quoted_def)

text \<open>A value starts with a character that is no blank and no closing bracket.\<close>

lemma dumps_hd:
  assumes "plain_json v"
  obtains c s where "dumps fr v = c # s" "\<not> is_ws c" "c \<noteq> CHR '']''" "c \<noteq> CHR ''}''"
proof (cases v)
  case (JInt i)
  obtain c s where "int_repr i = c # s" "is_digit c \<or> c = CHR ''-''" by (rule int_repr_hd)
  moreover from this have "c \<noteq> CHR '']''" "c \<noteq> CHR ''}''" "\<not> is_ws c"
    by (auto simp: is_digit_def is_ws_def)
  ultimately show ?thesis using that [of c s] JInt by simp
next
  case (JBool b)
  then show ?thesis using that by (cases b) (auto simp: is_ws_def)
qed (use that assms in \<open>auto simp: is_ws_def quoted_def\<close>)

lemma skip_ws_dumps: "plain_json v \<Longrightarrow> skip_ws (dumps fr v @ r) = dumps fr v @ r"
  by (rule dumps_hd [of v fr]) (auto simp: skip_ws_def)

lemma skip_ws_blank [simp]: "skip_ws (CHR '' '' # r) = skip_ws r"
  by (simp add: skip_ws_def is_ws_def)

lemma skip_ws_quoted [simp]: "skip_ws (quoted s @ r) = quoted s @ r"
  by (simp add: skip_ws_def quoted_def is_ws_def)

lemma jconst_other: "s = d # s' \<Longrightarrow> c \<noteq> d \<Longrightarrow> jconst (c # w) v s = None"
  by (simp add: jconst_def)

lemma jscalar_int:
  assumes "ends_value r"
  shows "jscalar fl (int_repr i @ r) = Some (JInt i, r)"
proof -
  obtain c s where c: "int_repr i @ r = c # s" "is_digit c \<or> c = CHR ''-''"
    using int_repr_hd [of i] by (metis append_Cons)
  then have "CHR ''n'' \<noteq> c" "CHR ''t'' \<noteq> c" "CHR ''f'' \<noteq> c" by (auto simp: is_digit_def)
  then show ?thesis
    by (simp add: jscalar_def jconst_other [OF c(1)] jnumber_int_repr [OF assms])
qed

text \<open>The statement of the round trip for one value, with enough fuel.\<close>

definition reads_back :: "(int \<Rightarrow> int \<Rightarrow> string) \<Rightarrow> (string \<Rightarrow> json) \<Rightarrow> json \<Rightarrow> bool" where
  "reads_back fr fl v \<longleftrightarrow> (\<forall>n r. length (dumps fr v) \<le> n \<longrightarrow> ends_value r \<longrightarrow>
     jvalue fl n (dumps fr v @ r) = Some (v, r))"

lemma jitems_reads:
  assumes "xs \<noteq> []" "list_all (reads_back fr fl) xs" "list_all plain_json xs"
    and "length (comma_join (map (dumps fr) xs)) < n"
  shows "jitems fl n acc (comma_join (map (dumps fr) xs) @ CHR '']'' # r) = Some (JList (acc @ xs), r)"
  using assms
proof (induction xs arbitrary: n acc)
  case (Cons x xs)
  obtain m where n: "n = Suc m" using Cons.prems(4) by (cases n) auto
  let ?rest = "(if xs = [] then '''' else '', '' @ comma_join (map (dumps fr) xs)) @ CHR '']'' # r"
  have shape: "comma_join (map (dumps fr) (x # xs)) @ CHR '']'' # r = dumps fr x @ ?rest"
    by (simp add: comma_join_Cons)
  have "length (dumps fr x) \<le> m" using Cons.prems(4) n by (auto simp: comma_join_Cons split: if_splits)
  then have x: "jvalue fl m (dumps fr x @ ?rest) = Some (x, ?rest)"
    using Cons.prems(2) by (simp add: reads_back_def)
  show ?case
  proof (cases "xs = []")
    case True
    then show ?thesis using x n by (simp add: ends_valueD(4))
  next
    case False
    obtain y ys where xs: "xs = y # ys" using False by (cases xs) auto
    have "plain_json y" using Cons.prems(3) xs by simp
    then have blank: "skip_ws (comma_join (map (dumps fr) xs) @ q) = comma_join (map (dumps fr) xs) @ q" for q
      using skip_ws_dumps [of y fr] xs by (simp add: comma_join_Cons)
    have "length (comma_join (map (dumps fr) xs)) < m"
      using Cons.prems(4) n False by (simp add: comma_join_Cons)
    then have "jitems fl m (acc @ [x]) (comma_join (map (dumps fr) xs) @ CHR '']'' # r) = Some (JList (acc @ x # xs), r)"
      using Cons.IH [of m "acc @ [x]"] Cons.prems False by simp
    then show ?thesis using x n False blank unfolding shape by (simp add: ends_valueD(4))
  qed
qed simp

lemma al_put_new: "k \<notin> fst ` set ps \<Longrightarrow> al_put k v ps = ps @ [(k, v)]"
  by (induction ps) auto

lemma jmembers_reads:
  assumes "ps \<noteq> []" "list_all (\<lambda>p. reads_back fr fl (snd p)) ps" "list_all (\<lambda>p. plain_json (snd p)) ps"
    and "distinct (map fst (acc @ ps))"
    and "length (comma_join (map (member_text fr) ps)) < n"
  shows "jmembers fl n acc (tl (comma_join (map (member_text fr) ps) @ CHR ''}'' # r)) = Some (JDict (acc @ ps), r)"
  using assms
proof (induction ps arbitrary: n acc)
  case (Cons p ps)
  obtain k v where p: "p = (k, v)" by (cases p)
  obtain m where n: "n = Suc m" using Cons.prems(5) by (cases n) auto
  let ?rest = "(if ps = [] then '''' else '', '' @ comma_join (map (member_text fr) ps)) @ CHR ''}'' # r"
  have shape: "comma_join (map (member_text fr) (p # ps)) @ CHR ''}'' # r = quoted k @ '': '' @ dumps fr v @ ?rest"
    by (simp add: comma_join_Cons p)
  have "length (dumps fr v) \<le> m"
    using Cons.prems(5) n p by (auto simp: comma_join_Cons split: if_splits)
  then have v: "jvalue fl m (dumps fr v @ ?rest) = Some (v, ?rest)"
    using Cons.prems(2) p by (simp add: reads_back_def)
  have put: "al_put k v acc = acc @ [(k, v)]"
    using Cons.prems(4) p by (intro al_put_new) auto
  have skip: "skip_ws (dumps fr v @ q) = dumps fr v @ q" for q
    using Cons.prems(3) p by (simp add: skip_ws_dumps)
  have colon: "skip_ws (CHR '':'' # q) = CHR '':'' # q" for q by (simp add: skip_ws_def is_ws_def)
  show ?case
  proof (cases "ps = []")
    case True
    then show ?thesis using v n put skip unfolding shape
      by (simp add: jstring_quoted colon ends_valueD(4) p)
  next
    case False
    obtain t where t: "comma_join (map (member_text fr) ps) = CHR 0x22 # t"
      using False by (rule members_quote)
    have blank: "skip_ws (CHR 0x22 # q) = CHR 0x22 # q" for q
      by (simp add: skip_ws_def is_ws_def)
    have "length (comma_join (map (member_text fr) ps)) < m"
      using Cons.prems(5) n False by (simp add: comma_join_Cons)
    then have "jmembers fl m (acc @ [p]) (tl (comma_join (map (member_text fr) ps) @ CHR ''}'' # r)) =
        Some (JDict (acc @ p # ps), r)"
      using Cons.IH [of "acc @ [p]" m] Cons.prems False by simp
    then show ?thesis using v n False put skip unfolding shape
      by (simp add: jstring_quoted colon ends_valueD(4) p t blank)
  qed
qed simp

lemma jvalue_scalar:
  assumes "s = c # s'" "c \<noteq> CHR 0x22" "c \<noteq> CHR ''[''" "c \<noteq> CHR ''{''" "0 < n"
  shows "jvalue fl n s = jscalar fl s"
  using assms by (cases n) simp_all

lemma jconst_same: "jconst w v (w @ r) = Some (v, r)"
  by (simp add: jconst_def)

lemma reads_back_scalar:
  "reads_back fr fl JNull" "reads_back fr fl (JBool b)" "reads_back fr fl (JInt i)"
  "reads_back fr fl (JStr s)"
proof -
  have const: "jscalar fl (w @ r) = Some (v, r)"
    if "(w, v) \<in> {(''null'', JNull), (''true'', JBool True), (''false'', JBool False)}" for w v r
    using that by (elim insertE) (simp_all add: jscalar_def jconst_def)
  have token: "reads_back fr fl v"
    if "dumps fr v = w" "(w, v) \<in> {(''null'', JNull), (''true'', JBool True), (''false'', JBool False)}"
    for w v unfolding reads_back_def
  proof (intro allI impI)
    fix n r assume n: "length (dumps fr v) \<le> n"
    have "jvalue fl n (w @ r) = jscalar fl (w @ r)"
      using that n by (elim insertE) (auto intro!: jvalue_scalar [OF refl])
    then show "jvalue fl n (dumps fr v @ r) = Some (v, r)" using const [OF that(2)] that(1) by simp
  qed
  show "reads_back fr fl JNull" by (rule token) simp_all
  show "reads_back fr fl (JBool b)" by (cases b; rule token [OF refl]) simp_all
  show "reads_back fr fl (JInt i)" unfolding reads_back_def
  proof (intro allI impI)
    fix n r assume n: "length (dumps fr (JInt i)) \<le> n" and r: "ends_value r"
    obtain c s where c: "int_repr i = c # s" "is_digit c \<or> c = CHR ''-''" by (rule int_repr_hd)
    then have "c \<noteq> CHR 0x22" "c \<noteq> CHR ''[''" "c \<noteq> CHR ''{''" by (auto simp: is_digit_def)
    moreover have "int_repr i @ r = c # (s @ r)" "0 < n" using c n by auto
    ultimately have "jvalue fl n (int_repr i @ r) = jscalar fl (int_repr i @ r)"
      using jvalue_scalar [of "int_repr i @ r" c "s @ r" n fl] by blast
    then show "jvalue fl n (dumps fr (JInt i) @ r) = Some (JInt i, r)" by (simp add: jscalar_int [OF r])
  qed
  show "reads_back fr fl (JStr s)" unfolding reads_back_def
  proof (intro allI impI)
    fix n r assume "length (dumps fr (JStr s)) \<le> n" and "ends_value r"
    then obtain m where m: "n = Suc m" by (cases n) (auto simp: quoted_def)
    have "hd (quoted s @ r) = CHR 0x22" "quoted s @ r \<noteq> []" by (simp_all add: quoted_def)
    then show "jvalue fl n (dumps fr (JStr s) @ r) = Some (JStr s, r)"
      using jstring_quoted [of s r] by (simp add: m)
  qed
qed

lemma reads_back_list:
  assumes "list_all (reads_back fr fl) xs" "list_all plain_json xs"
  shows "reads_back fr fl (JList xs)"
  unfolding reads_back_def
proof (intro allI impI)
  fix n r assume "length (dumps fr (JList xs)) \<le> n"
  then obtain m where m: "n = Suc m" "length (comma_join (map (dumps fr) xs)) < m" by (cases n) simp_all
  show "jvalue fl n (dumps fr (JList xs) @ r) = Some (JList xs, r)"
  proof (cases xs)
    case Nil
    then show ?thesis by (simp add: m skip_ws_def is_ws_def)
  next
    case (Cons y ys)
    then have "plain_json y" using assms(2) by simp
    then obtain c s where c: "dumps fr y = c # s" "\<not> is_ws c" "c \<noteq> CHR '']''" by (rule dumps_hd)
    have "xs \<noteq> []" using Cons by simp
    then have "jitems fl m [] (comma_join (map (dumps fr) xs) @ CHR '']'' # r) = Some (JList ([] @ xs), r)"
      using assms m(2) by (rule jitems_reads)
    moreover obtain t where "comma_join (map (dumps fr) xs) = c # t"
      using Cons c(1) by (cases ys) simp_all
    ultimately show ?thesis using c(2,3) by (simp add: m skip_ws_def)
  qed
qed

lemma reads_back_dict:
  assumes "list_all (\<lambda>p. reads_back fr fl (snd p)) ps" "list_all (\<lambda>p. plain_json (snd p)) ps"
    and "distinct (map fst ps)"
  shows "reads_back fr fl (JDict ps)"
  unfolding reads_back_def
proof (intro allI impI)
  fix n r assume "length (dumps fr (JDict ps)) \<le> n"
  then obtain m where m: "n = Suc m" "length (comma_join (map (member_text fr) ps)) < m"
    by (cases n) simp_all
  show "jvalue fl n (dumps fr (JDict ps) @ r) = Some (JDict ps, r)"
  proof (cases "ps = []")
    case True
    then show ?thesis by (simp add: m skip_ws_def is_ws_def)
  next
    case False
    have "distinct (map fst ([] @ ps))" using assms(3) by simp
    with False assms(1,2)
    have "jmembers fl m [] (tl (comma_join (map (member_text fr) ps) @ CHR ''}'' # r)) = Some (JDict ([] @ ps), r)"
      using m(2) by (rule jmembers_reads)
    moreover obtain t where "comma_join (map (member_text fr) ps) = CHR 0x22 # t"
      using False by (rule members_quote)
    ultimately show ?thesis by (simp add: m skip_ws_def is_ws_def)
  qed
qed

lemma reads_back: "plain_json v \<Longrightarrow> reads_back fr fl v"
proof (induction v)
  case (JList xs)
  then have "list_all plain_json xs" by simp
  moreover from this JList.IH have "list_all (reads_back fr fl) xs" by (simp add: list_all_iff)
  ultimately show ?case by (intro reads_back_list)
next
  case (JDict ps)
  then have plain: "list_all (\<lambda>p. plain_json (snd p)) ps" "distinct (map fst ps)" by simp_all
  have "reads_back fr fl (snd p)" if "p \<in> set ps" for p
    using JDict.IH [OF that, of "snd p"] plain(1) that by (simp add: list_all_iff snds.simps)
  then have "list_all (\<lambda>p. reads_back fr fl (snd p)) ps" by (simp add: list_all_iff)
  then show ?case using plain by (rule reads_back_dict)
qed (simp_all add: reads_back_scalar)

section \<open>The written text\<close>

lemma loads_dumps:
  assumes "plain_json v"
  shows "loads fl (dumps fr v) = Some v"
proof -
  have "jvalue fl (length (dumps fr v)) (dumps fr v @ []) = Some (v, [])"
    using reads_back [OF assms] by (simp only: reads_back_def ends_value_simps)
  then show ?thesis
    using skip_ws_dumps [OF assms, of fr "[]"] by (simp add: loads_def skip_ws_def)
qed

abbreviation newline :: char where
  "newline \<equiv> CHR 0x0A"

text \<open>It holds no control character, so a record takes one line of the file.\<close>

definition no_control :: "string \<Rightarrow> bool" where
  "no_control s \<longleftrightarrow> list_all (\<lambda>c. 32 \<le> (of_char c :: int)) s"

lemma no_control_append [simp]: "no_control (s @ t) \<longleftrightarrow> no_control s \<and> no_control t"
  by (simp add: no_control_def)

lemma no_control_Cons [simp]: "no_control (c # s) \<longleftrightarrow> 32 \<le> (of_char c :: int) \<and> no_control s"
  by (simp add: no_control_def)

lemma no_control_Nil [simp]: "no_control []"
  by (simp add: no_control_def)

lemma no_control_concat: "(\<And>x. x \<in> set xs \<Longrightarrow> no_control x) \<Longrightarrow> no_control (concat xs)"
  by (induction xs) auto

lemma digits_no_control: "no_control (digits n)"
  using digits_all [of n] by (auto simp: no_control_def list_all_iff is_digit_def)

lemma hex_digit_no_control: "0 \<le> d \<Longrightarrow> d < 16 \<Longrightarrow> 32 \<le> (of_char (hex_digit d) :: int)"
  by (simp add: hex_digit_def)

lemma escape_no_control: "no_control (escape_char c)"
proof (cases "c \<in> special_chars")
  case True
  then show ?thesis by (elim insertE) (simp_all add: escape_char_def)
next
  case False
  moreover have "no_control [hex_digit ((of_char c :: int) div 16), hex_digit ((of_char c :: int) mod 16)]"
    if "(of_char c :: int) < 32"
    using that hex_digit_no_control by (simp add: div_int_pos_iff)
  ultimately show ?thesis by (simp add: escape_char_def Let_def)
qed

lemma quoted_no_control: "no_control (quoted s)"
  unfolding quoted_def using escape_no_control by (auto intro!: no_control_concat)

lemma comma_join_no_control:
  "(\<And>x. x \<in> set xs \<Longrightarrow> no_control x) \<Longrightarrow> no_control (comma_join xs)"
  by (induction xs rule: comma_join.induct) auto

lemma dumps_no_control: "plain_json v \<Longrightarrow> no_control (dumps fr v)"
proof (induction v)
  case (JInt i)
  show ?case using digits_no_control by (simp add: int_repr_def)
next
  case (JList xs)
  then have "no_control (comma_join (map (dumps fr) xs))"
    by (intro comma_join_no_control) (auto simp: list_all_iff)
  then show ?case by simp
next
  case (JDict ps)
  have "no_control (dumps fr (snd p))" if "p \<in> set ps" for p
    using JDict.IH [OF that, of "snd p"] JDict.prems that by (simp add: list_all_iff snds.simps)
  then have "no_control (comma_join (map (member_text fr) ps))"
    using quoted_no_control by (intro comma_join_no_control) auto
  then show ?case by simp
qed (simp_all add: quoted_no_control)

lemma no_control_mem: "no_control s \<Longrightarrow> (of_char c :: int) < 32 \<Longrightarrow> c \<notin> set s"
  by (auto simp: no_control_def list_all_iff)

lemma dumps_no_newline: "plain_json v \<Longrightarrow> newline \<notin> set (dumps fr v)"
  using no_control_mem [OF dumps_no_control, of v newline fr] by simp

end
