(* ===== verification/Answer_Text.thy ===== *)
theory Answer_Text
  imports Control_Models
begin

text \<open>
  The answer text of a turn (\<^verbatim>\<open>src/cowork/streaming/answer_text.py\<close>): the rule that rebuilds it from the
  turn's events, and the merging of adjacent text deltas before the events are stored. The list
  \<open>collected\<close> that the code changes in place is passed and returned; \<open>answer_text\<close> is the
  \<open>"".join(collected)\<close> of the rule's callers, absent when an element is not a string (\<open>TypeError\<close>).
\<close>

section \<open>Python equality of decoded JSON values\<close>

text \<open>\<open>==\<close> compares booleans, integers and floats by value and ignores the order of a dict's keys.\<close>

fun num_of :: "json \<Rightarrow> (int \<times> int) option" where
  "num_of (JBool b) = Some (if b then 1 else 0, 0)"
| "num_of (JInt n) = Some (n, 0)"
| "num_of (JFloat m e) = Some (m, e)"
| "num_of _ = None"

fun num_eq :: "int \<times> int \<Rightarrow> int \<times> int \<Rightarrow> bool" where
  "num_eq (m, e) (n, f) \<longleftrightarrow> m * 2 ^ nat (e - min e f) = n * 2 ^ nat (f - min e f)"

fun py_eq :: "json \<Rightarrow> json \<Rightarrow> bool" where
  "py_eq JNull b \<longleftrightarrow> b = JNull"
| "py_eq (JStr s) b \<longleftrightarrow> b = JStr s"
| "py_eq (JList xs) b \<longleftrightarrow> (case b of JList ys \<Rightarrow> list_all2 py_eq xs ys | _ \<Rightarrow> False)"
| "py_eq (JDict ps) b \<longleftrightarrow> (case b of
     JDict qs \<Rightarrow> length ps = length qs \<and>
       list_all (\<lambda>p. case map_of qs (fst p) of None \<Rightarrow> False | Some w \<Rightarrow> py_eq (snd p) w) ps
   | _ \<Rightarrow> False)"
| "py_eq a b \<longleftrightarrow> (case (num_of a, num_of b) of (Some x, Some y) \<Rightarrow> num_eq x y | _ \<Rightarrow> False)"

definition get_or_null :: "payload \<Rightarrow> string \<Rightarrow> json" where
  "get_or_null d k = (case map_of d k of None \<Rightarrow> JNull | Some v \<Rightarrow> v)"

section \<open>The accumulator\<close>

definition TEXT_DELTA :: string where
  "TEXT_DELTA = ''response.output_text.delta''"

definition accumulate_answer_text :: "json list \<Rightarrow> json \<Rightarrow> payload \<Rightarrow> json list" where
  "accumulate_answer_text collected event_type data =
     (if event_type = JStr TEXT_DELTA then
        collected @ [case map_of data ''delta'' of None \<Rightarrow> JStr '''' | Some v \<Rightarrow> v]
      else if event_type = JStr ''response.answer_reset'' then []
      else if event_type = JStr ''response.answer_restore'' then
        (case map_of data ''text'' of None \<Rightarrow> JStr '''' | Some v \<Rightarrow> v) # collected
      else collected)"

text \<open>A consumer applies the rule to every event of the turn, under the event's own \<open>type\<close>.\<close>

fun collect :: "json list \<Rightarrow> payload list \<Rightarrow> json list" where
  "collect collected [] = collected"
| "collect collected (ev # evs) =
     collect (accumulate_answer_text collected (get_or_null ev ''type'') ev) evs"

fun answer_text :: "json list \<Rightarrow> string option" where
  "answer_text [] = Some ''''"
| "answer_text (JStr x # xs) = map_option (\<lambda>y. x @ y) (answer_text xs)"
| "answer_text _ = None"

section \<open>Merging adjacent deltas\<close>

definition PLAIN_DELTA_KEYS :: "string list" where
  "PLAIN_DELTA_KEYS = [''type'', ''sequence_number'', ''item_id'', ''delta'', ''at_ms'']"

fun is_str :: "json \<Rightarrow> bool" where
  "is_str (JStr _) \<longleftrightarrow> True"
| "is_str _ \<longleftrightarrow> False"

definition is_plain_delta :: "payload \<Rightarrow> bool" where
  "is_plain_delta event \<longleftrightarrow> get_or_null event ''type'' = JStr TEXT_DELTA \<and>
     is_str (get_or_null event ''delta'') \<and> list_all (\<lambda>k. k \<in> set PLAIN_DELTA_KEYS) (map fst event)"

fun str_of :: "json \<Rightarrow> string" where
  "str_of (JStr s) = s"
| "str_of _ = ''''"

definition delta_of :: "payload \<Rightarrow> string" where
  "delta_of event = str_of (get_or_null event ''delta'')"

text \<open>\<open>flush\<close> appends to \<open>out\<close> what the current run becomes.\<close>

definition flush :: "payload list \<Rightarrow> payload list" where
  "flush run = (case run of
     [] \<Rightarrow> []
   | first # rest \<Rightarrow>
       if rest = [] then [first]
       else [al_put ''delta'' (JStr (concat (map delta_of run))) first])"

definition other_item :: "payload list \<Rightarrow> payload \<Rightarrow> bool" where
  "other_item run event \<longleftrightarrow>
     run \<noteq> [] \<and> \<not> py_eq (get_or_null (hd run) ''item_id'') (get_or_null event ''item_id'')"

fun coalesce_loop :: "payload list \<Rightarrow> payload list \<Rightarrow> payload list \<Rightarrow> payload list" where
  "coalesce_loop out run [] = out @ flush run"
| "coalesce_loop out run (event # events) =
     (if \<not> is_plain_delta event then coalesce_loop (out @ flush run @ [event]) [] events
      else if other_item run event then coalesce_loop (out @ flush run) [event] events
      else coalesce_loop out (run @ [event]) events)"

definition coalesce_text_deltas :: "payload list \<Rightarrow> payload list" where
  "coalesce_text_deltas events = coalesce_loop [] [] events"

section \<open>The text is unchanged\<close>

lemma collect_append: "collect c (xs @ ys) = collect (collect c xs) ys"
  by (induction xs arbitrary: c) auto

lemma answer_text_append:
  "answer_text (xs @ ys) =
     (case answer_text xs of None \<Rightarrow> None | Some a \<Rightarrow> map_option (\<lambda>b. a @ b) (answer_text ys))"
  by (induction xs rule: answer_text.induct; cases "answer_text ys") (auto split: option.splits)

lemma is_plain_delta_delta:
  "is_plain_delta e \<Longrightarrow> map_of e ''delta'' = Some (JStr (delta_of e))"
  by (auto simp: is_plain_delta_def get_or_null_def delta_of_def split: option.splits elim: is_str.elims)

lemma accumulate_plain:
  "is_plain_delta e \<Longrightarrow>
     accumulate_answer_text c (get_or_null e ''type'') e = c @ [JStr (delta_of e)]"
  by (simp add: accumulate_answer_text_def is_plain_delta_delta) (simp add: is_plain_delta_def)

lemma collect_plain:
  "list_all is_plain_delta run \<Longrightarrow> collect c run = c @ map (\<lambda>e. JStr (delta_of e)) run"
  by (induction run arbitrary: c) (auto simp: accumulate_plain)

lemma merged_plain:
  assumes "is_plain_delta e"
  shows "is_plain_delta (al_put ''delta'' (JStr t) e)" "delta_of (al_put ''delta'' (JStr t) e) = t"
  using assms
  by (auto simp: is_plain_delta_def get_or_null_def delta_of_def list_all_iff PLAIN_DELTA_KEYS_def)

lemma flush_plain: "list_all is_plain_delta run \<Longrightarrow> list_all is_plain_delta (flush run)"
  by (auto simp: flush_def merged_plain split: list.splits)

lemma answer_text_strs: "answer_text (map (\<lambda>e. JStr (f e)) es) = Some (concat (map f es))"
  by (induction es) auto

lemma flush_deltas:
  assumes "list_all is_plain_delta run"
  shows "concat (map delta_of (flush run)) = concat (map delta_of run)"
proof (cases run)
  case (Cons first rest)
  then show ?thesis using assms merged_plain(2) [of first] by (simp add: flush_def)
qed (simp add: flush_def)

lemma flush_text:
  assumes "list_all is_plain_delta run"
  shows "answer_text (collect c (flush run)) = answer_text (collect c run)"
  by (simp only: collect_plain [OF assms] collect_plain [OF flush_plain [OF assms]]
      answer_text_append answer_text_strs flush_deltas [OF assms])

text \<open>Accumulators with the same text stay so under every event.\<close>

lemma accumulate_text_cong:
  assumes "answer_text c = answer_text d"
  shows "answer_text (accumulate_answer_text c ty e) = answer_text (accumulate_answer_text d ty e)"
proof -
  have front: "answer_text (x # c) = answer_text (x # d)" for x
    by (cases x) (simp_all add: assms)
  show ?thesis
    by (simp add: accumulate_answer_text_def answer_text_append assms front)
qed

lemma collect_text_cong:
  "answer_text c = answer_text d \<Longrightarrow> answer_text (collect c es) = answer_text (collect d es)"
proof (induction es arbitrary: c d)
  case (Cons e es)
  show ?case by (simp only: collect.simps Cons.IH [OF accumulate_text_cong [OF Cons.prems]])
qed simp

lemma coalesce_loop_induct [consumes 1, case_names finish other_event other_item same_item]:
  assumes "list_all is_plain_delta run"
    and "\<And>out run. list_all is_plain_delta run \<Longrightarrow> P out run []"
    and "\<And>out run e es. list_all is_plain_delta run \<Longrightarrow> \<not> is_plain_delta e \<Longrightarrow>
      coalesce_loop out run (e # es) = coalesce_loop (out @ flush run @ [e]) [] es \<Longrightarrow>
      P (out @ flush run @ [e]) [] es \<Longrightarrow> P out run (e # es)"
    and "\<And>out run e es. list_all is_plain_delta run \<Longrightarrow> is_plain_delta e \<Longrightarrow>
      coalesce_loop out run (e # es) = coalesce_loop (out @ flush run) [e] es \<Longrightarrow>
      P (out @ flush run) [e] es \<Longrightarrow> P out run (e # es)"
    and "\<And>out run e es. list_all is_plain_delta run \<Longrightarrow> is_plain_delta e \<Longrightarrow>
      coalesce_loop out run (e # es) = coalesce_loop out (run @ [e]) es \<Longrightarrow>
      P out (run @ [e]) es \<Longrightarrow> P out run (e # es)"
  shows "P out run es"
  using assms(1)
proof (induction out run es rule: coalesce_loop.induct)
  case (1 out run)
  then show ?case using assms(2) by simp
next
  case (2 out run e es)
  show ?case
  proof (cases "is_plain_delta e")
    case False
    then show ?thesis using 2 assms(3) by simp
  next
    case plain: True
    show ?thesis
    proof (cases "other_item run e")
      case True
      then show ?thesis using "2.IH"(2) "2.prems" assms(4) plain by simp
    next
      case False
      then show ?thesis using "2.IH"(3) "2.prems" assms(5) plain by simp
    qed
  qed
qed

lemma coalesce_loop_text:
  assumes "list_all is_plain_delta run"
  shows "answer_text (collect c (coalesce_loop out run es)) = answer_text (collect c (out @ run @ es))"
proof -
  have flushed: "answer_text (collect c (out @ flush run @ xs)) = answer_text (collect c (out @ run @ xs))"
    if "list_all is_plain_delta run" for out run xs
    using that by (auto simp: collect_append intro!: collect_text_cong flush_text)
  show ?thesis using assms
  proof (induction out run es rule: coalesce_loop_induct)
    case (finish out run)
    then show ?case using flushed [of run out "[]"] by simp
  qed (use flushed in \<open>simp_all del: coalesce_loop.simps(2) collect.simps\<close>)
qed

text \<open>Every other event passes through in order, and no row is added.\<close>

lemma coalesce_loop_others:
  assumes "list_all is_plain_delta run"
  shows "filter (\<lambda>e. \<not> is_plain_delta e) (coalesce_loop out run es) =
     filter (\<lambda>e. \<not> is_plain_delta e) out @ filter (\<lambda>e. \<not> is_plain_delta e) es"
proof -
  have flushed: "filter (\<lambda>e. \<not> is_plain_delta e) (flush run) = []"
    if "list_all is_plain_delta run" for run
    using flush_plain [OF that] by (simp add: list_all_iff filter_empty_conv)
  show ?thesis using assms
    by (induction out run es rule: coalesce_loop_induct) (simp_all add: flushed del: coalesce_loop.simps(2))
qed

lemma length_flush: "length (flush run) \<le> length run"
  by (auto simp: flush_def split: list.splits)

lemma coalesce_loop_length:
  assumes "list_all is_plain_delta run"
  shows "length (coalesce_loop out run es) \<le> length out + length run + length es"
  using assms
proof (induction out run es rule: coalesce_loop_induct)
  case (other_event out run e es)
  then show ?case using length_flush [of run] by (simp del: coalesce_loop.simps(2))
next
  case (other_item out run e es)
  then show ?case using length_flush [of run] by (simp del: coalesce_loop.simps(2))
qed (use length_flush in \<open>simp_all del: coalesce_loop.simps(2)\<close>)

end
