(* ===== verification/Stream_Records.thy ===== *)
theory Stream_Records
  imports Json_Roundtrip Answer_Text
begin

text \<open>
  The records of a turn (\<^verbatim>\<open>src/cowork/streaming/records.py\<close>) and their one-line text in a buffer file
  (the module-level functions of \<^verbatim>\<open>src/cowork/streaming/buffer.py\<close>). Text is UTF-8 bytes; the arguments
  \<open>fr\<close>, \<open>fl\<close> are the text of a float and the value of a float token, \<open>pystr\<close> is \<open>str()\<close> on a value that is no
  string. \<open>json.loads\<close> of bytes is taken to decode UTF-8, as it does for text without NUL bytes.
\<close>

section \<open>Text\<close>

fun split_on :: "char \<Rightarrow> string \<Rightarrow> string list" where
  "split_on d [] = [[]]"
| "split_on d (c # s) =
     (if c = d then [] # split_on d s
      else (case split_on d s of [] \<Rightarrow> [[c]] | l # ls \<Rightarrow> (c # l) # ls))"

text \<open>Blanks as \<open>bytes.strip\<close> and \<open>str.strip\<close> know them.\<close>

definition byte_blanks :: "string list" where
  "byte_blanks = map utf8 [9, 10, 11, 12, 13, 32]"

definition text_blanks :: "string list" where
  "text_blanks = map utf8 [9, 10, 11, 12, 13, 28, 29, 30, 31, 32, 133, 160, 5760, 8192, 8193, 8194,
     8195, 8196, 8197, 8198, 8199, 8200, 8201, 8202, 8232, 8233, 8239, 8287, 12288]"

fun starts_with :: "string \<Rightarrow> string \<Rightarrow> bool" where
  "starts_with [] s \<longleftrightarrow> True"
| "starts_with (w # ws) [] \<longleftrightarrow> False"
| "starts_with (w # ws) (c # s) \<longleftrightarrow> w = c \<and> starts_with ws s"

lemma starts_with_take: "starts_with w s \<longleftrightarrow> take (length w) s = w"
  by (induction w s rule: starts_with.induct) auto

function (sequential) lstrip :: "string list \<Rightarrow> string \<Rightarrow> string" where
  "lstrip bs s = (case find (\<lambda>w. w \<noteq> [] \<and> starts_with w s) bs of
     None \<Rightarrow> s
   | Some w \<Rightarrow> lstrip bs (drop (length w) s))"
  by pat_completeness auto
termination
proof (relation "measure (\<lambda>(bs, s). length s)")
  fix bs s w assume "find (\<lambda>w. w \<noteq> [] \<and> starts_with w s) bs = Some w"
  then have "w \<noteq> []" "starts_with w s" by (auto dest: find_SomeD)
  then have "0 < length w" "length w \<le> length s" by (auto simp: starts_with_take dest: arg_cong [where f = length])
  then show "((bs, drop (length w) s), bs, s) \<in> measure (\<lambda>(bs, s). length s)" by (cases w) auto
qed simp

declare lstrip.simps [simp del]

definition strip :: "string list \<Rightarrow> string \<Rightarrow> string" where
  "strip bs s = rev (lstrip (map rev bs) (rev (lstrip bs s)))"

text \<open>The decoder's view of a byte string; \<open>surrogates\<close> is the error handler \<open>surrogatepass\<close>.\<close>

definition continuation :: "string \<Rightarrow> nat \<Rightarrow> bool" where
  "continuation s i \<longleftrightarrow> i < length s \<and> 128 \<le> (of_char (s ! i) :: int) \<and> (of_char (s ! i) :: int) < 192"

definition utf8_need :: "int \<Rightarrow> nat" where
  "utf8_need n =
     (if n < 128 then 1 else if 194 \<le> n \<and> n < 224 then 2 else if 224 \<le> n \<and> n < 240 then 3
      else if 240 \<le> n \<and> n < 245 then 4 else 0)"

definition second_ok :: "bool \<Rightarrow> int \<Rightarrow> int \<Rightarrow> bool" where
  "second_ok surrogates n b \<longleftrightarrow>
     (if n = 224 then 160 \<le> b else if n = 237 then surrogates \<or> b < 160
      else if n = 240 then 144 \<le> b else if n = 244 then b < 144 else True)"

text \<open>The number of bytes of the first character, 0 when they are no valid encoding.\<close>

definition utf8_length :: "bool \<Rightarrow> string \<Rightarrow> nat" where
  "utf8_length surrogates s =
     (let n = of_char (hd s) :: int; k = utf8_need n in
      if list_all (continuation s) [1..<k] \<and> (k \<le> 2 \<or> second_ok surrogates n (of_char (s ! 1)))
      then k else 0)"

function (sequential) utf8_valid :: "bool \<Rightarrow> string \<Rightarrow> bool" where
  "utf8_valid surrogates [] \<longleftrightarrow> True"
| "utf8_valid surrogates (a # s) \<longleftrightarrow>
     (if utf8_length surrogates (a # s) = 0 then False
      else utf8_valid surrogates (drop (utf8_length surrogates (a # s)) (a # s)))"
  by pat_completeness auto
termination
  by (relation "measure (\<lambda>(b, s). length s)") auto

text \<open>\<open>str.splitlines\<close>: the length of the line break that starts a text, and the lines.\<close>

definition break_length :: "string \<Rightarrow> nat" where
  "break_length s =
     (if starts_with [CHR 0x0D, CHR 0x0A] s then 2
      else case find (\<lambda>n. starts_with (utf8 n) s) [10, 11, 12, 13, 28, 29, 30, 133, 8232, 8233] of
        None \<Rightarrow> 0
      | Some n \<Rightarrow> length (utf8 n))"

fun splitlines_loop :: "nat \<Rightarrow> string \<Rightarrow> string \<Rightarrow> string list" where
  "splitlines_loop 0 acc s = (if acc = [] then [] else [acc])"
| "splitlines_loop (Suc fuel) acc s =
     (if s = [] then (if acc = [] then [] else [acc])
      else if 0 < break_length s then acc # splitlines_loop fuel [] (drop (break_length s) s)
      else splitlines_loop fuel (acc @ [hd s]) (tl s))"

definition splitlines :: "string \<Rightarrow> string list" where
  "splitlines s = splitlines_loop (length s + 1) [] s"

section \<open>Records\<close>

record turn_record =
  rec_seq :: int
  rec_ts :: string
  rec_type :: string
  rec_data :: payload

definition TERMINAL_TYPES :: "string list" where
  "TERMINAL_TYPES = [''Done'', ''Cancelled'', ''Error'', ''Interrupted'']"

definition REASON_TO_TYPE :: "(string \<times> string) list" where
  "REASON_TO_TYPE = [(''completed'', ''Done''), (''cancelled'', ''Cancelled''), (''error'', ''Error''),
     (''interrupted'', ''Interrupted''), (''restart'', ''Interrupted'')]"

definition is_terminal :: "turn_record \<Rightarrow> bool" where
  "is_terminal r \<longleftrightarrow> rec_type r \<in> set TERMINAL_TYPES"

fun falsy :: "json \<Rightarrow> bool" where
  "falsy JNull \<longleftrightarrow> True"
| "falsy (JBool b) \<longleftrightarrow> \<not> b"
| "falsy (JInt i) \<longleftrightarrow> i = 0"
| "falsy (JFloat m e) \<longleftrightarrow> m = 0"
| "falsy (JStr s) \<longleftrightarrow> s = ''''"
| "falsy (JList xs) \<longleftrightarrow> xs = []"
| "falsy (JDict ps) \<longleftrightarrow> ps = []"

definition is_final_client_frame :: "string \<Rightarrow> payload \<Rightarrow> bool result" where
  "is_final_client_frame ty data =
     (if ty \<in> snd ` set REASON_TO_TYPE then Inr True
      else if ty \<noteq> ''sse'' then Inr False
      else
        let sse = get_or_null data ''sse'' in
        if falsy sse then Inr False
        else (case sse of
          JStr t \<Rightarrow> Inr (list_ex (\<lambda>line. line \<in> {''event: response.completed'',
             ''event: response.failed'', ''event: response.cancelled''}) (splitlines t))
        | _ \<Rightarrow> Inl (AttributeError ''splitlines'')))"

section \<open>File names\<close>

definition name_char :: "char \<Rightarrow> bool" where
  "name_char c \<longleftrightarrow> (let n = of_char c :: int in
     65 \<le> n \<and> n \<le> 90 \<or> 97 \<le> n \<and> n \<le> 122 \<or> 48 \<le> n \<and> n \<le> 57 \<or> n = 46 \<or> n = 95 \<or> n = 45)"

text \<open>\<open>_BAD_NAME_CHARS.sub("_", name)\<close>: each maximal run of other characters becomes one underscore.\<close>

fun sub_bad :: "bool \<Rightarrow> string \<Rightarrow> string" where
  "sub_bad in_run [] = []"
| "sub_bad in_run (c # s) =
     (if name_char c then c # sub_bad False s
      else if in_run then sub_bad True s
      else CHR ''_'' # sub_bad True s)"

definition strip_underscores :: "string \<Rightarrow> string" where
  "strip_underscores s = rev (dropWhile (\<lambda>c. c = CHR ''_'') (rev (dropWhile (\<lambda>c. c = CHR ''_'') s)))"

definition safe_segment :: "string \<Rightarrow> string" where
  "safe_segment name =
     (let cleaned = strip_underscores (sub_bad False name)
      in take 128 (if cleaned = [] then ''_'' else cleaned))"

definition conversation_dir :: "string \<Rightarrow> string \<Rightarrow> string" where
  "conversation_dir streams_dir conversation_id = streams_dir @ ''/'' @ safe_segment conversation_id"

text \<open>The format \<open>06d\<close> pads to six characters, the sign included.\<close>

definition pad6 :: "int \<Rightarrow> string" where
  "pad6 i = (if i < 0 then CHR ''-'' # replicate (5 - length (digits (nat (- i)))) (CHR ''0'') @ digits (nat (- i))
             else replicate (6 - length (digits (nat i))) (CHR ''0'') @ digits (nat i))"

definition turn_buffer_path :: "string \<Rightarrow> string \<Rightarrow> int \<Rightarrow> string" where
  "turn_buffer_path streams_dir conversation_id turn_id =
     conversation_dir streams_dir conversation_id @ ''/turn_'' @ pad6 turn_id @ ''.jsonl''"

section \<open>A record's line\<close>

definition record_json :: "turn_record \<Rightarrow> json" where
  "record_json r = JDict [(''seq'', JInt (rec_seq r)), (''ts'', JStr (rec_ts r)),
     (''type'', JStr (rec_type r)), (''data'', JDict (rec_data r))]"

definition record_line :: "(int \<Rightarrow> int \<Rightarrow> string) \<Rightarrow> turn_record \<Rightarrow> string" where
  "record_line fr r = dumps fr (record_json r) @ [newline]"

text \<open>\<open>int()\<close> of a decoded value; a float is truncated toward zero.\<close>

definition int_of_text :: "string \<Rightarrow> int result" where
  "int_of_text s =
     (let t = strip text_blanks s;
          neg = starts_with ''-'' t;
          ds = (if neg \<or> starts_with ''+'' t then drop 1 t else t);
          parts = split_on (CHR ''_'') ds
      in if list_all (\<lambda>p. p \<noteq> [] \<and> list_all is_digit p) parts
         then Inr (if neg then - int (digits_val (concat parts)) else int (digits_val (concat parts)))
         else Inl (ValueError ''invalid literal for int()''))"

fun py_int :: "json \<Rightarrow> int result" where
  "py_int (JBool b) = Inr (if b then 1 else 0)"
| "py_int (JInt i) = Inr i"
| "py_int (JFloat m e) = Inr (if 0 \<le> e then m * 2 ^ nat e else sgn m * (\<bar>m\<bar> div 2 ^ nat (- e)))"
| "py_int (JStr s) = int_of_text s"
| "py_int _ = Inl (TypeError ''int() argument'')"

fun py_str :: "(json \<Rightarrow> string) \<Rightarrow> json \<Rightarrow> string" where
  "py_str pystr (JStr s) = s"
| "py_str pystr v = pystr v"

text \<open>\<open>dict()\<close> of a truthy value: a dict is copied, a list of key/value pairs is collected.\<close>

fun pairs_of :: "json list \<Rightarrow> payload \<Rightarrow> payload result" where
  "pairs_of [] acc = Inr acc"
| "pairs_of (JList [JStr k, v] # xs) acc = pairs_of xs (al_put k v acc)"
| "pairs_of _ acc = Inl (TypeError ''dict() argument'')"

fun py_dict :: "json \<Rightarrow> payload result" where
  "py_dict (JDict ps) = Inr ps"
| "py_dict (JList xs) = pairs_of xs []"
| "py_dict (JStr s) = Inl (ValueError ''dict() argument'')"
| "py_dict _ = Inl (TypeError ''dict() argument'')"

definition record_of_json :: "(json \<Rightarrow> string) \<Rightarrow> json \<Rightarrow> turn_record result" where
  "record_of_json pystr obj = (case obj of
     JDict ps \<Rightarrow>
       (case py_int (case map_of ps ''seq'' of None \<Rightarrow> JInt (-1) | Some v \<Rightarrow> v) of
          Inl e \<Rightarrow> Inl e
        | Inr seq \<Rightarrow>
            (let data = get_or_null ps ''data'' in
             case (if falsy data then Inr [] else py_dict data) of
               Inl e \<Rightarrow> Inl e
             | Inr d \<Rightarrow> Inr \<lparr>rec_seq = seq,
                 rec_ts = py_str pystr (case map_of ps ''ts'' of None \<Rightarrow> JStr '''' | Some v \<Rightarrow> v),
                 rec_type = py_str pystr (case map_of ps ''type'' of None \<Rightarrow> JStr '''' | Some v \<Rightarrow> v),
                 rec_data = d\<rparr>))
   | _ \<Rightarrow> Inl (AttributeError ''get''))"

text \<open>\<open>_parse_record\<close>: \<open>blanks\<close> are those of the line's type, bytes or text; bytes are decoded first.\<close>

definition parse_record ::
  "(string \<Rightarrow> json) \<Rightarrow> (json \<Rightarrow> string) \<Rightarrow> string list \<Rightarrow> string \<Rightarrow> turn_record option result" where
  "parse_record fl pystr blanks line =
     (let text = strip blanks line in
      if text = [] then Inr None
      else if \<not> utf8_valid True text then Inl (UnicodeDecodeError ''utf-8'')
      else (case loads fl text of
          None \<Rightarrow> Inr None
        | Some obj \<Rightarrow> map_sum id Some (record_of_json pystr obj)))"

text \<open>The records of a list of lines; the first exception stops it.\<close>

fun parse_lines ::
  "(string \<Rightarrow> json) \<Rightarrow> (json \<Rightarrow> string) \<Rightarrow> string list \<Rightarrow> string list \<Rightarrow> turn_record list result" where
  "parse_lines fl pystr blanks [] = Inr []"
| "parse_lines fl pystr blanks (l # ls) = (case parse_record fl pystr blanks l of
     Inl e \<Rightarrow> Inl e
   | Inr r \<Rightarrow> (case parse_lines fl pystr blanks ls of
       Inl e \<Rightarrow> Inl e
     | Inr rs \<Rightarrow> Inr (case r of None \<Rightarrow> rs | Some x \<Rightarrow> x # rs)))"

text \<open>Reading a file as text: universal newlines, one line at a time.\<close>

fun universal_newlines :: "string \<Rightarrow> string" where
  "universal_newlines [] = []"
| "universal_newlines [c] = [if c = CHR 0x0D then newline else c]"
| "universal_newlines (c # d # s) =
     (if c = CHR 0x0D then
        (if d = newline then newline # universal_newlines s
         else newline # universal_newlines (d # s))
      else c # universal_newlines (d # s))"

definition read_records ::
  "(string \<Rightarrow> json) \<Rightarrow> (json \<Rightarrow> string) \<Rightarrow> string option \<Rightarrow> int \<Rightarrow> turn_record list result" where
  "read_records fl pystr file from_seq = (case file of
     None \<Rightarrow> Inr []
   | Some content \<Rightarrow>
       if \<not> utf8_valid False content then Inl (UnicodeDecodeError ''utf-8'')
       else map_sum id (filter (\<lambda>r. from_seq \<le> rec_seq r))
         (parse_lines fl pystr text_blanks (split_on newline (universal_newlines content))))"

section \<open>A written line reads back\<close>

definition good_record :: "(int \<Rightarrow> int \<Rightarrow> string) \<Rightarrow> turn_record \<Rightarrow> bool" where
  "good_record fr r \<longleftrightarrow> plain_json (record_json r) \<and> utf8_valid False (record_line fr r)"

lemma utf8_length_le:
  assumes "s \<noteq> []"
  shows "utf8_length b s \<le> length s"
proof (cases "utf8_length b s \<le> 1")
  case True
  then show ?thesis using assms by (cases s) auto
next
  case False
  then have "continuation s (utf8_length b s - 1)"
    by (auto simp: utf8_length_def Let_def list_all_iff split: if_splits)
  then show ?thesis by (auto simp: continuation_def)
qed

lemma utf8_length_weaken: "0 < utf8_length False s \<Longrightarrow> utf8_length True s = utf8_length False s"
  by (auto simp: utf8_length_def Let_def second_ok_def split: if_splits)

lemma utf8_valid_weaken: "utf8_valid False s \<Longrightarrow> utf8_valid True s"
proof (induction "length s" arbitrary: s rule: less_induct)
  case less
  show ?case
  proof (cases s)
    case (Cons a q)
    let ?k = "utf8_length False s"
    have k: "0 < ?k" "utf8_valid False (drop ?k s)" using less.prems Cons by (auto split: if_splits)
    have "utf8_valid True (drop ?k s)" using less.hyps [OF _ k(2)] k(1) Cons by simp
    then show ?thesis using utf8_length_weaken [OF k(1)] k(1) Cons by simp
  qed simp
qed

text \<open>Texts may be put together where the second does not start inside a character.\<close>

definition starts_char :: "string \<Rightarrow> bool" where
  "starts_char t \<longleftrightarrow> \<not> continuation t 0"

lemma continuations_append:
  assumes "starts_char t" "s \<noteq> []"
  shows "list_all (continuation (s @ t)) [1..<k] = list_all (continuation s) [1..<k]"
proof
  assume all: "list_all (continuation (s @ t)) [1..<k]"
  have "k \<le> length s \<or> k \<le> 1"
  proof (rule ccontr)
    assume "\<not> (k \<le> length s \<or> k \<le> 1)"
    moreover have "1 \<le> length s" using assms(2) by (cases s) auto
    ultimately have "continuation (s @ t) (length s)" using all by (auto simp: list_all_iff)
    then show False using assms(1) by (simp add: starts_char_def continuation_def nth_append)
  qed
  then show "list_all (continuation s) [1..<k]"
    using all by (auto simp: list_all_iff continuation_def nth_append)
qed (auto simp: list_all_iff continuation_def nth_append)

lemma utf8_length_append:
  assumes "starts_char t" "s \<noteq> []"
  shows "utf8_length b (s @ t) = utf8_length b s"
proof -
  let ?k = "utf8_need (of_char (hd s))"
  have "(s @ t) ! 1 = s ! 1" if "list_all (continuation s) [1..<?k]" "\<not> ?k \<le> 2"
    using that by (auto simp: list_all_iff continuation_def nth_append)
  then show ?thesis using assms(2) continuations_append [OF assms, of ?k]
    by (cases "?k \<le> 2") (auto simp: utf8_length_def Let_def)
qed

lemma utf8_valid_append:
  assumes "starts_char t"
  shows "utf8_valid b (s @ t) \<longleftrightarrow> utf8_valid b s \<and> utf8_valid b t"
proof (induction "length s" arbitrary: s rule: less_induct)
  case less
  show ?case
  proof (cases s)
    case (Cons a q)
    let ?k = "utf8_length b s"
    have k: "utf8_length b (s @ t) = ?k" using assms Cons by (intro utf8_length_append) auto
    have le: "?k \<le> length s" using Cons by (intro utf8_length_le) auto
    show ?thesis
    proof (cases "0 < ?k")
      case True
      have "utf8_valid b (drop ?k s @ t) \<longleftrightarrow> utf8_valid b (drop ?k s) \<and> utf8_valid b t"
        using True Cons by (intro less) auto
      moreover have "drop ?k (s @ t) = drop ?k s @ t" using le by simp
      ultimately show ?thesis using True k Cons by simp
    qed (use k Cons in simp)
  qed simp
qed

lemma lstrip_same:
  assumes "\<And>w. w \<in> set bs \<Longrightarrow> w = [] \<or> hd w \<noteq> c"
  shows "lstrip bs (c # s) = c # s"
proof -
  have "w = [] \<or> \<not> starts_with w (c # s)" if "w \<in> set bs" for w
    using assms [OF that] by (cases w) auto
  then have "find (\<lambda>w. w \<noteq> [] \<and> starts_with w (c # s)) bs = None" by (auto simp: find_None_iff)
  then show ?thesis by (subst lstrip.simps) simp
qed

lemma blanks_hd:
  "list_all (\<lambda>w. hd w \<noteq> CHR ''{'' \<and> last w \<noteq> CHR ''}'') byte_blanks"
  "list_all (\<lambda>w. hd w \<noteq> CHR ''{'' \<and> last w \<noteq> CHR ''}'') text_blanks"
  by code_simp+

lemma strip_braces:
  assumes "bs = byte_blanks \<or> bs = text_blanks"
  shows "strip bs (''{'' @ t @ ''}'') = ''{'' @ t @ ''}''"
proof -
  have hd: "\<And>w. w \<in> set bs \<Longrightarrow> w = [] \<or> hd w \<noteq> CHR ''{''"
    using assms blanks_hd by (auto simp: list_all_iff)
  have "\<And>w. w \<in> set (map rev bs) \<Longrightarrow> w = [] \<or> hd w \<noteq> CHR ''}''"
    using assms blanks_hd by (auto simp: hd_rev list_all_iff)
  then have "lstrip (map rev bs) (CHR ''}'' # rev (CHR ''{'' # t)) = CHR ''}'' # rev (CHR ''{'' # t)"
    by (rule lstrip_same)
  then show ?thesis using lstrip_same [of bs "CHR ''{''" "t @ ''}''", OF hd] by (simp add: strip_def)
qed

lemma dumps_record_braces: "\<exists>t. dumps fr (record_json r) = ''{'' @ t @ ''}''"
  unfolding record_json_def dumps.simps by blast

lemma record_of_record_json: "plain_json (record_json r) \<Longrightarrow> record_of_json pystr (record_json r) = Inr r"
  by (simp add: record_of_json_def record_json_def get_or_null_def Let_def)

lemma starts_char_ascii [simp]: "(of_char c :: int) < 128 \<Longrightarrow> starts_char (c # s)"
  by (simp add: starts_char_def continuation_def)

text \<open>A Python string encodes to valid UTF-8 unless it holds a surrogate.\<close>

fun utf8_json :: "json \<Rightarrow> bool" where
  "utf8_json (JStr s) \<longleftrightarrow> utf8_valid False s"
| "utf8_json (JList xs) \<longleftrightarrow> list_all utf8_json xs"
| "utf8_json (JDict ps) \<longleftrightarrow> list_all (\<lambda>p. utf8_valid False (fst p) \<and> utf8_json (snd p)) ps"
| "utf8_json _ \<longleftrightarrow> True"

definition ascii :: "string \<Rightarrow> bool" where
  "ascii s \<longleftrightarrow> list_all (\<lambda>c. (of_char c :: int) < 128) s"

lemma utf8_length_ascii [simp]: "(of_char c :: int) < 128 \<Longrightarrow> utf8_length b (c # s) = 1"
  by (simp add: utf8_length_def utf8_need_def)

lemma ascii_valid: "ascii s \<Longrightarrow> utf8_valid b s"
  by (induction s) (simp_all add: ascii_def)

lemma ascii_starts: "ascii s \<Longrightarrow> s \<noteq> [] \<Longrightarrow> starts_char (s @ t)"
  by (cases s) (simp_all add: ascii_def)

lemma valid_starts: "utf8_valid b s \<Longrightarrow> starts_char s"
  by (cases s) (auto simp: starts_char_def continuation_def utf8_length_def utf8_need_def split: if_splits)

lemma valid_append: "utf8_valid b s \<Longrightarrow> utf8_valid b t \<Longrightarrow> utf8_valid b (s @ t)"
  using utf8_valid_append [OF valid_starts, of b t b s] by simp

lemma valid_concat: "(\<And>x. x \<in> set xs \<Longrightarrow> utf8_valid b x) \<Longrightarrow> utf8_valid b (concat xs)"
  by (induction xs) (simp_all add: valid_append)

lemma hex_digit_ascii: "0 \<le> d \<Longrightarrow> d < 16 \<Longrightarrow> (of_char (hex_digit d) :: int) < 128"
  by (simp add: hex_digit_def)

lemma escape_ascii: "(of_char c :: int) < 128 \<Longrightarrow> ascii (escape_char c)"
proof (cases "c \<in> special_chars")
  case False
  assume "(of_char c :: int) < 128"
  moreover have "(of_char (hex_digit ((of_char c :: int) div 16)) :: int) < 128" if "(of_char c :: int) < 32"
    using that by (intro hex_digit_ascii) (simp_all add: div_int_pos_iff)
  moreover have "(of_char (hex_digit ((of_char c :: int) mod 16)) :: int) < 128" by (simp add: hex_digit_ascii)
  ultimately show ?thesis using False by (simp add: escape_char_def ascii_def Let_def)
qed (elim insertE, simp_all add: escape_char_def ascii_def)

lemma escape_high:
  assumes "128 \<le> (of_char c :: int)"
  shows "escape_char c = [c]"
proof -
  have "c \<notin> special_chars" using assms by (intro notI) (elim insertE, simp_all)
  then show ?thesis using assms by (simp add: escape_char_def)
qed

lemma escaped_valid: "utf8_valid b s \<Longrightarrow> utf8_valid b (concat (map escape_char s))"
proof (induction "length s" arbitrary: s rule: less_induct)
  case less
  show ?case
  proof (cases s)
    case (Cons c q)
    let ?k = "utf8_length b s"
    have k: "0 < ?k" "utf8_valid b (drop ?k s)" using less.prems Cons by (auto split: if_splits)
    have IH: "utf8_valid b (concat (map escape_char (drop ?k s)))"
      using less.hyps [OF _ k(2)] k(1) Cons by simp
    have "utf8_valid b (concat (map escape_char (take ?k s)))"
    proof (cases "(of_char c :: int) < 128")
      case True
      then show ?thesis using Cons by (simp add: escape_ascii ascii_valid)
    next
      case False
      then have "list_all (continuation s) [1..<?k]" "128 \<le> (of_char (s ! 0) :: int)"
        using k(1) Cons by (auto simp: utf8_length_def Let_def split: if_splits)
      then have "128 \<le> (of_char (s ! i) :: int)" if "i < ?k" for i
        using that by (cases i) (auto simp: list_all_iff continuation_def)
      then have "\<forall>x \<in> set (take ?k s). escape_char x = [x]"
        by (auto simp: in_set_conv_nth intro!: escape_high)
      then have "map escape_char (take ?k s) = map (\<lambda>x. [x]) (take ?k s)" by simp
      then have same: "concat (map escape_char (take ?k s)) = take ?k s" by (simp only: concat_map_singleton map_ident)
      have "utf8_valid b (take ?k s @ drop ?k s) = (utf8_valid b (take ?k s) \<and> utf8_valid b (drop ?k s))"
        by (rule utf8_valid_append [OF valid_starts [OF k(2)]])
      then show ?thesis using less.prems same by simp
    qed
    then have "utf8_valid b (concat (map escape_char (take ?k s)) @ concat (map escape_char (drop ?k s)))"
      using IH by (rule valid_append)
    then show ?thesis by (simp only: concat_append [symmetric] map_append [symmetric] append_take_drop_id)
  qed simp
qed

lemma quoted_valid: "utf8_valid b s \<Longrightarrow> utf8_valid b (quoted s)"
  unfolding quoted_def using valid_append [OF escaped_valid, of b s "[CHR 0x22]"] by simp

lemma comma_join_valid:
  "(\<And>x. x \<in> set xs \<Longrightarrow> utf8_valid b x) \<Longrightarrow> utf8_valid b (comma_join xs)"
  by (induction xs rule: comma_join.induct) (simp_all add: valid_append)

lemma digits_ascii: "ascii (digits n)"
  using digits_all [of n] by (auto simp: ascii_def list_all_iff is_digit_def)

lemma dumps_valid: "plain_json v \<Longrightarrow> utf8_json v \<Longrightarrow> utf8_valid False (dumps fr v)"
proof (induction v)
  case (JInt i)
  show ?case using digits_ascii by (simp add: int_repr_def ascii_valid)
next
  case (JStr s)
  then show ?case by (simp add: quoted_valid)
next
  case (JList xs)
  then have "utf8_valid False (comma_join (map (dumps fr) xs))"
    by (intro comma_join_valid) (auto simp: list_all_iff)
  then show ?case by (simp add: valid_append)
next
  case (JDict ps)
  have "utf8_valid False (member_text fr p)" if "p \<in> set ps" for p
    using JDict.IH [OF that, of "snd p"] JDict.prems that
    by (simp add: list_all_iff snds.simps valid_append quoted_valid)
  then have "utf8_valid False (comma_join (map (member_text fr) ps))"
    by (intro comma_join_valid) auto
  then show ?case by (simp add: valid_append)
qed (simp_all add: ascii_valid ascii_def)

text \<open>What a producer may append: strings that encode, data without floats.\<close>

definition good_data :: "payload \<Rightarrow> bool" where
  "good_data data \<longleftrightarrow> plain_json (JDict data) \<and> utf8_json (JDict data)"

lemma good_recordI:
  assumes "good_data (rec_data r)" "utf8_valid False (rec_ts r)" "utf8_valid False (rec_type r)"
  shows "good_record fr r"
proof -
  have "plain_json (record_json r)" using assms(1) by (simp add: good_data_def record_json_def)
  moreover have "utf8_valid False (dumps fr (record_json r))"
    using assms calculation
    by (intro dumps_valid) (simp_all add: good_data_def record_json_def ascii_valid ascii_def)
  ultimately show ?thesis by (simp add: good_record_def record_line_def valid_append)
qed

lemma parse_record_line:
  assumes "good_record fr r" "bs = byte_blanks \<or> bs = text_blanks"
  shows "parse_record fl pystr bs (dumps fr (record_json r)) = Inr (Some r)"
proof -
  obtain t where t: "dumps fr (record_json r) = ''{'' @ t @ ''}''" using dumps_record_braces by blast
  have "utf8_valid True (dumps fr (record_json r))"
    using assms(1) utf8_valid_append [of "[newline]"]
    by (auto simp: good_record_def record_line_def intro!: utf8_valid_weaken)
  moreover have "strip bs (dumps fr (record_json r)) = dumps fr (record_json r)"
    unfolding t by (rule strip_braces [OF assms(2)])
  moreover have "dumps fr (record_json r) \<noteq> []" using t by simp
  ultimately show ?thesis using assms(1)
    by (simp add: parse_record_def good_record_def loads_dumps record_of_record_json)
qed

end
