(* ===== verification/File_Buffer.thy ===== *)
theory File_Buffer
  imports Stream_Records
begin

text \<open>
  The file-backed turn buffer: \<open>FileStreamBuffer\<close> and its incremental reader \<open>_NewRecords\<close>
  (\<^verbatim>\<open>src/cowork/streaming/buffer.py\<close>). A write is an atomic step of the event loop. The renewable event
  \<open>_new_data\<close> is a counter: the event a reader took at value \<open>v\<close> has fired once the counter is past \<open>v\<close>;
  \<open>_done\<close> fires with \<open>_closed\<close>. A write that raises (\<open>fails\<close>) leaves the file as it was.
\<close>

section \<open>The producer\<close>

record file_buffer =
  fb_content :: string
  fb_seq :: int
  fb_finishing :: bool
  fb_closed :: bool
  fb_version :: nat

definition open_file_buffer :: file_buffer where
  "open_file_buffer = \<lparr>fb_content = [], fb_seq = 0, fb_finishing = False, fb_closed = False, fb_version = 0\<rparr>"

definition fb_append ::
  "(int \<Rightarrow> int \<Rightarrow> string) \<Rightarrow> string \<Rightarrow> bool \<Rightarrow> string \<Rightarrow> payload \<Rightarrow> (file_buffer, int) comp" where
  "fb_append fr ts fails ty data b =
     (if fb_closed b then (Inr (fb_seq b), b)
      else (case is_final_client_frame ty data of
        Inl e \<Rightarrow> (Inl e, b)
      | Inr final \<Rightarrow>
          let b' = b\<lparr>fb_finishing := fb_finishing b \<or> final\<rparr>;
              record = \<lparr>rec_seq = fb_seq b, rec_ts = ts, rec_type = ty, rec_data = data\<rparr>
          in if fails then (Inr (fb_seq b), b')
             else (Inr (fb_seq b), b'\<lparr>fb_content := fb_content b @ record_line fr record,
                     fb_seq := fb_seq b + 1, fb_version := Suc (fb_version b)\<rparr>)))"

definition terminal_type :: "string \<Rightarrow> string" where
  "terminal_type reason = (case map_of REASON_TO_TYPE reason of None \<Rightarrow> ''Done'' | Some ty \<Rightarrow> ty)"

definition terminal_data :: "string \<Rightarrow> payload \<Rightarrow> payload" where
  "terminal_data reason extra = fold (\<lambda>(k, v). al_put k v) extra [(''reason'', JStr reason)]"

definition fb_close ::
  "(int \<Rightarrow> int \<Rightarrow> string) \<Rightarrow> string \<Rightarrow> bool \<Rightarrow> string \<Rightarrow> payload \<Rightarrow> (file_buffer, unit) comp" where
  "fb_close fr ts fails reason extra b =
     (if fb_closed b then (Inr (), b)
      else sbind (fb_append fr ts fails (terminal_type reason) (terminal_data reason extra))
        (\<lambda>_ b'. (Inr (), b'\<lparr>fb_closed := True, fb_version := Suc (fb_version b')\<rparr>)) b)"

section \<open>The incremental reader\<close>

record file_reader =
  rd_offset :: nat
  rd_partial :: string

definition new_reader :: file_reader where
  "new_reader = \<lparr>rd_offset = 0, rd_partial = []\<rparr>"

definition new_records ::
  "(string \<Rightarrow> json) \<Rightarrow> (json \<Rightarrow> string) \<Rightarrow> string option \<Rightarrow> (file_reader, turn_record list) comp" where
  "new_records fl pystr file rd = (case file of
     None \<Rightarrow> (Inr [], rd)
   | Some content \<Rightarrow>
       let chunk = drop (rd_offset rd) content;
           parts = split_on newline (rd_partial rd @ chunk)
       in (parse_lines fl pystr byte_blanks (butlast parts),
           \<lparr>rd_offset = rd_offset rd + length chunk, rd_partial = last parts\<rparr>))"

text \<open>Reading the file at several moments of its growth.\<close>

fun read_growing ::
  "(string \<Rightarrow> json) \<Rightarrow> (json \<Rightarrow> string) \<Rightarrow> string list \<Rightarrow> (file_reader, turn_record list) comp" where
  "read_growing fl pystr [] = sreturn []"
| "read_growing fl pystr (content # contents) =
     sbind (new_records fl pystr (Some content)) (\<lambda>rs.
     sbind (read_growing fl pystr contents) (\<lambda>rest. sreturn (rs @ rest)))"

section \<open>A tail\<close>

text \<open>\<open>tail\<close> is a generator: it reads a batch, yields it record by record, and then returns or waits. Each
  step below is what runs between two points where other tasks may run.\<close>

datatype tail_phase =
    Top
  | Yielding "turn_record list"
  | Waiting
  | Returned
  | Raised error

record tail_state =
  tl_phase :: tail_phase
  tl_from :: int
  tl_reader :: file_reader
  tl_waiter :: nat
  tl_closed :: bool
  tl_emitted :: bool
  tl_out :: "turn_record list"

definition open_tail :: "int \<Rightarrow> tail_state" where
  "open_tail from_seq = \<lparr>tl_phase = Top, tl_from = from_seq, tl_reader = new_reader, tl_waiter = 0,
     tl_closed = False, tl_emitted = False, tl_out = []\<rparr>"

definition tail_step ::
  "(string \<Rightarrow> json) \<Rightarrow> (json \<Rightarrow> string) \<Rightarrow> file_buffer \<Rightarrow> tail_state \<Rightarrow> tail_state" where
  "tail_step fl pystr b t = (case tl_phase t of
     Top \<Rightarrow>
       (case new_records fl pystr (Some (fb_content b)) (tl_reader t) of
          (Inl e, rd) \<Rightarrow> t\<lparr>tl_phase := Raised e, tl_reader := rd\<rparr>
        | (Inr rs, rd) \<Rightarrow> t\<lparr>tl_phase := Yielding rs, tl_reader := rd, tl_waiter := fb_version b,
            tl_closed := fb_closed b, tl_emitted := False\<rparr>)
   | Yielding [] \<Rightarrow> t\<lparr>tl_phase := (if tl_emitted t \<or> tl_closed t then Returned else Waiting)\<rparr>
   | Yielding (r # rs) \<Rightarrow>
       if rec_seq r < tl_from t then t\<lparr>tl_phase := Yielding rs\<rparr>
       else t\<lparr>tl_phase := Yielding rs, tl_out := tl_out t @ [r], tl_emitted := tl_emitted t \<or> is_terminal r\<rparr>
   | Waiting \<Rightarrow> if fb_closed b \<or> tl_waiter t < fb_version b then t\<lparr>tl_phase := Top\<rparr> else t
   | _ \<Rightarrow> t)"

text \<open>One producer and one reader; the producer's calls and the reader's steps interleave at will.\<close>

datatype buffer_event =
    Append string bool string payload
  | Close string bool string payload
  | Read

fun buffer_run ::
  "(int \<Rightarrow> int \<Rightarrow> string) \<Rightarrow> (string \<Rightarrow> json) \<Rightarrow> (json \<Rightarrow> string) \<Rightarrow> buffer_event list \<Rightarrow>
     file_buffer \<times> tail_state \<Rightarrow> file_buffer \<times> tail_state" where
  "buffer_run fr fl pystr [] (b, t) = (b, t)"
| "buffer_run fr fl pystr (Append ts fails ty data # evs) (b, t) =
     buffer_run fr fl pystr evs (snd (fb_append fr ts fails ty data b), t)"
| "buffer_run fr fl pystr (Close ts fails reason extra # evs) (b, t) =
     buffer_run fr fl pystr evs (snd (fb_close fr ts fails reason extra b), t)"
| "buffer_run fr fl pystr (Read # evs) (b, t) = buffer_run fr fl pystr evs (b, tail_step fl pystr b t)"

text \<open>What the producer is assumed to pass: strings that encode, data without floats, and only \<open>close\<close> writes
  a terminal type.\<close>

fun good_event :: "buffer_event \<Rightarrow> bool" where
  "good_event (Append ts fails ty data) \<longleftrightarrow>
     utf8_valid False ts \<and> utf8_valid False ty \<and> good_data data \<and> ty \<notin> set TERMINAL_TYPES"
| "good_event (Close ts fails reason extra) \<longleftrightarrow>
     utf8_valid False ts \<and> good_data (terminal_data reason extra)"
| "good_event Read \<longleftrightarrow> True"

section \<open>Splitting a growing text\<close>

lemma split_on_not_Nil [simp]: "split_on d s \<noteq> []"
  by (induction s) (auto split: list.splits)

lemma split_on_append:
  "split_on d (u @ v) = butlast (split_on d u) @ split_on d (last (split_on d u) @ v)"
proof (induction u)
  case (Cons c u)
  obtain l ls where l: "split_on d u = l # ls" by (cases "split_on d u") auto
  show ?case
  proof (cases "c = d")
    case True
    then show ?thesis using Cons by simp
  next
    case False
    then show ?thesis using Cons l by (cases ls) (auto split: list.splits)
  qed
qed simp

lemma split_on_line: "d \<notin> set l \<Longrightarrow> split_on d (l @ d # s) = l # split_on d s"
  by (induction l) auto

lemma split_on_lines:
  "(\<And>l. l \<in> set ls \<Longrightarrow> d \<notin> set l) \<Longrightarrow> split_on d (concat (map (\<lambda>l. l @ [d]) ls)) = ls @ [[]]"
  by (induction ls) (auto simp: split_on_line)

lemma split_on_last: "d \<notin> set (last (split_on d s))"
  by (induction s) (auto split: list.splits if_splits)

lemma parse_lines_append:
  "parse_lines fl pystr bs (xs @ ys) = (case parse_lines fl pystr bs xs of
     Inl e \<Rightarrow> Inl e
   | Inr rs \<Rightarrow> map_sum id (\<lambda>qs. rs @ qs) (parse_lines fl pystr bs ys))"
proof (induction xs)
  case Nil
  then show ?case by (cases "parse_lines fl pystr bs ys") simp_all
next
  case (Cons x xs)
  then show ?case
    by (cases "parse_lines fl pystr bs ys") (auto split: sum.splits option.splits)
qed

text \<open>A reader has consumed exactly \<open>u\<close> when its offset is past \<open>u\<close> and it holds \<open>u\<close>'s unfinished line.\<close>

definition has_read :: "string \<Rightarrow> file_reader \<Rightarrow> bool" where
  "has_read u rd \<longleftrightarrow> rd_offset rd = length u \<and> rd_partial rd = last (split_on newline u)"

lemma has_read_new [simp]: "has_read [] new_reader"
  by (simp add: has_read_def new_reader_def)

lemma new_records_step:
  assumes "has_read u rd"
  shows "has_read (u @ v) (snd (new_records fl pystr (Some (u @ v)) rd))"
    and "fst (new_records fl pystr (Some (u @ v)) rd) =
      parse_lines fl pystr byte_blanks (butlast (split_on newline (last (split_on newline u) @ v)))"
  using assms split_on_append [of newline u v]
  by (simp_all add: has_read_def new_records_def Let_def)

text \<open>The complete lines of a text.\<close>

definition complete_lines :: "string \<Rightarrow> string list" where
  "complete_lines s = butlast (split_on newline s)"

lemma complete_lines_append:
  "complete_lines (u @ v) =
     complete_lines u @ butlast (split_on newline (last (split_on newline u) @ v))"
  using split_on_append [of newline u v] by (simp add: complete_lines_def butlast_append)

lemma read_growing_lines:
  assumes "has_read u rd" "sorted_wrt prefix (u # cs)"
    and "read_growing fl pystr cs rd = (Inr rs, rd')"
    and "parse_lines fl pystr byte_blanks (complete_lines u) = Inr qs"
  shows "parse_lines fl pystr byte_blanks (complete_lines (last (u # cs))) = Inr (qs @ rs)"
  using assms
proof (induction cs arbitrary: u rd rs qs)
  case (Cons c cs)
  obtain v where v: "c = u @ v" using Cons.prems(2) by (auto simp: prefix_def)
  from Cons.prems(3) obtain r1 rd1 r2 where
    r1: "new_records fl pystr (Some c) rd = (Inr r1, rd1)" and
    r2: "read_growing fl pystr cs rd1 = (Inr r2, rd')" and rs: "rs = r1 @ r2"
    by (auto elim!: sbind_Inr_elim)
  have "has_read c rd1" using new_records_step(1) [OF Cons.prems(1), of v fl pystr] r1 v by simp
  moreover have "parse_lines fl pystr byte_blanks (complete_lines c) = Inr (qs @ r1)"
  proof -
    have "parse_lines fl pystr byte_blanks (butlast (split_on newline (last (split_on newline u) @ v))) = Inr r1"
      using new_records_step(2) [OF Cons.prems(1), of fl pystr v] r1 v by simp
    then show ?thesis using v Cons.prems(4) by (simp add: complete_lines_append parse_lines_append)
  qed
  ultimately have "parse_lines fl pystr byte_blanks (complete_lines (last (c # cs))) = Inr ((qs @ r1) @ r2)"
    using Cons.prems(2) r2 by (intro Cons.IH) auto
  then show ?case using rs by simp
qed simp

end
