(* ===== verification/Buffer_Tail.thy ===== *)
theory Buffer_Tail
  imports File_Buffer
begin

text \<open>
  What a tail of a file buffer delivers. The buffer's file holds the lines of its records, numbered
  from 0, the terminal one last; a tail yields exactly those from its offset, in order, never sleeps
  through a write and returns once the buffer is closed, whatever the interleaving.
\<close>

section \<open>The file\<close>

definition file_of :: "(int \<Rightarrow> int \<Rightarrow> string) \<Rightarrow> turn_record list \<Rightarrow> string" where
  "file_of fr recs = concat (map (record_line fr) recs)"

definition buffer_inv :: "(int \<Rightarrow> int \<Rightarrow> string) \<Rightarrow> file_buffer \<Rightarrow> turn_record list \<Rightarrow> bool" where
  "buffer_inv fr b recs \<longleftrightarrow> fb_content b = file_of fr recs \<and> fb_seq b = int (length recs) \<and>
     map rec_seq recs = map int [0..<length recs] \<and> list_all (good_record fr) recs \<and>
     list_all (\<lambda>r. \<not> is_terminal r) (butlast recs) \<and>
     (recs \<noteq> [] \<longrightarrow> is_terminal (last recs) \<longrightarrow> fb_closed b)"

lemma file_of_append [simp]: "file_of fr (xs @ ys) = file_of fr xs @ file_of fr ys"
  by (simp add: file_of_def)

lemma file_of_lines: "file_of fr recs = concat (map (\<lambda>l. l @ [newline]) (map (\<lambda>r. dumps fr (record_json r)) recs))"
  by (simp add: file_of_def record_line_def [abs_def] comp_def)

lemma split_file:
  assumes "list_all (good_record fr) recs"
  shows "split_on newline (file_of fr recs) = map (\<lambda>r. dumps fr (record_json r)) recs @ [[]]"
  unfolding file_of_lines using assms
  by (intro split_on_lines) (auto simp: list_all_iff good_record_def intro!: dumps_no_newline)

lemma parse_file_lines:
  assumes "list_all (good_record fr) recs"
  shows "parse_lines fl pystr byte_blanks (map (\<lambda>r. dumps fr (record_json r)) recs) = Inr recs"
  using assms by (induction recs) (simp_all add: parse_record_line)

text \<open>Reading on from the end of the first records gives the others.\<close>

lemma new_records_file:
  assumes "list_all (good_record fr) (xs @ ys)" "has_read (file_of fr xs) rd"
  obtains rd' where "new_records fl pystr (Some (file_of fr (xs @ ys))) rd = (Inr ys, rd')"
    "has_read (file_of fr (xs @ ys)) rd'"
proof -
  have xs: "list_all (good_record fr) xs" and ys: "list_all (good_record fr) ys" using assms(1) by auto
  have "last (split_on newline (file_of fr xs)) = []" by (simp add: split_file [OF xs])
  then have "fst (new_records fl pystr (Some (file_of fr xs @ file_of fr ys)) rd) = Inr ys"
    using new_records_step(2) [OF assms(2), of fl pystr "file_of fr ys"]
    by (simp add: split_file [OF ys] parse_file_lines [OF ys])
  then show ?thesis
    using that new_records_step(1) [OF assms(2), of "file_of fr ys" fl pystr]
    by (cases "new_records fl pystr (Some (file_of fr (xs @ ys))) rd") simp
qed

section \<open>The producer's steps\<close>

lemma buffer_inv_open: "buffer_inv fr open_file_buffer []"
  by (simp add: buffer_inv_def open_file_buffer_def file_of_def)

lemma buffer_inv_add:
  assumes "buffer_inv fr b recs" "\<not> fb_closed b" "good_record fr r" "rec_seq r = int (length recs)"
    and "is_terminal r \<longrightarrow> fb_closed b'"
    and "fb_content b' = fb_content b @ record_line fr r" "fb_seq b' = fb_seq b + 1"
  shows "buffer_inv fr b' (recs @ [r])"
proof -
  have "list_all (\<lambda>r. \<not> is_terminal r) recs"
    using assms(1,2) by (cases recs rule: rev_cases) (auto simp: buffer_inv_def)
  then show ?thesis using assms by (auto simp: buffer_inv_def file_of_def)
qed

text \<open>A producer's call adds at most one record; it signals every record it adds and the close.\<close>

definition produced :: "(int \<Rightarrow> int \<Rightarrow> string) \<Rightarrow> file_buffer \<Rightarrow> turn_record list \<Rightarrow> file_buffer \<Rightarrow> turn_record list \<Rightarrow> bool" where
  "produced fr b recs b' recs' \<longleftrightarrow> buffer_inv fr b' recs' \<and> (\<exists>new. recs' = recs @ new) \<and>
     fb_version b \<le> fb_version b' \<and> (recs' \<noteq> recs \<longrightarrow> fb_version b < fb_version b') \<and>
     (fb_closed b \<longrightarrow> fb_closed b' \<and> recs' = recs)"

lemma produced_same: "buffer_inv fr b recs \<Longrightarrow> produced fr b recs b recs"
  by (simp add: produced_def)

lemma append_produced:
  assumes "buffer_inv fr b recs" "good_event (Append ts fails ty data)"
  shows "\<exists>recs'. produced fr b recs (snd (fb_append fr ts fails ty data b)) recs'"
proof -
  let ?r = "\<lparr>rec_seq = fb_seq b, rec_ts = ts, rec_type = ty, rec_data = data\<rparr>"
  have good: "good_record fr ?r" using assms(2) by (intro good_recordI) auto
  have same: "buffer_inv fr (b\<lparr>fb_finishing := x\<rparr>) recs" for x
    using assms(1) by (simp add: buffer_inv_def)
  show ?thesis
  proof (cases "fb_closed b \<or> isl (is_final_client_frame ty data) \<or> fails")
    case True
    then have "produced fr b recs (snd (fb_append fr ts fails ty data b)) recs"
      using assms(1) same by (auto simp: fb_append_def produced_def Let_def split: sum.splits)
    then show ?thesis by blast
  next
    case False
    let ?b' = "snd (fb_append fr ts fails ty data b)"
    have b': "fb_content ?b' = fb_content b @ record_line fr ?r" "fb_seq ?b' = fb_seq b + 1"
      "fb_version ?b' = Suc (fb_version b)"
      using False by (auto simp: fb_append_def Let_def split: sum.splits)
    have "buffer_inv fr ?b' (recs @ [?r])"
      using assms(2) False b' by (intro buffer_inv_add [OF assms(1) _ good])
        (use assms(1) in \<open>auto simp: buffer_inv_def is_terminal_def\<close>)
    then have "produced fr b recs ?b' (recs @ [?r])" using b' False by (simp add: produced_def)
    then show ?thesis by blast
  qed
qed

lemma terminal_type_in: "terminal_type reason \<in> set TERMINAL_TYPES"
  by (auto simp: terminal_type_def REASON_TO_TYPE_def TERMINAL_TYPES_def)

lemma final_terminal_type: "is_final_client_frame (terminal_type reason) data = Inr True"
  by (auto simp: is_final_client_frame_def terminal_type_def REASON_TO_TYPE_def)

lemma terminal_type_ascii: "utf8_valid False (terminal_type reason)"
  by (rule ascii_valid) (auto simp: terminal_type_def REASON_TO_TYPE_def ascii_def)

lemma close_produced:
  assumes "buffer_inv fr b recs" "good_event (Close ts fails reason extra)"
  shows "\<exists>recs'. produced fr b recs (snd (fb_close fr ts fails reason extra b)) recs' \<and>
    fb_closed (snd (fb_close fr ts fails reason extra b))"
proof (cases "fb_closed b")
  case True
  then show ?thesis using produced_same [OF assms(1)] by (auto simp: fb_close_def)
next
  case open_buffer: False
  let ?r = "\<lparr>rec_seq = fb_seq b, rec_ts = ts, rec_type = terminal_type reason,
    rec_data = terminal_data reason extra\<rparr>"
  let ?b' = "snd (fb_close fr ts fails reason extra b)"
  have good: "good_record fr ?r"
    using assms(2) terminal_type_ascii by (intro good_recordI) auto
  show ?thesis
  proof (cases fails)
    case True
    then have "produced fr b recs ?b' recs" "fb_closed ?b'" using open_buffer assms(1)
      by (simp_all add: fb_close_def fb_append_def final_terminal_type Let_def produced_def buffer_inv_def sbind_def)
    then show ?thesis by blast
  next
    case False
    have b': "fb_content ?b' = fb_content b @ record_line fr ?r" "fb_seq ?b' = fb_seq b + 1"
      "fb_version b < fb_version ?b'" "fb_closed ?b'"
      using False open_buffer
      by (simp_all add: fb_close_def fb_append_def final_terminal_type Let_def sbind_def)
    have "buffer_inv fr ?b' (recs @ [?r])"
      using b' open_buffer by (intro buffer_inv_add [OF assms(1) _ good])
        (use assms(1) in \<open>auto simp: buffer_inv_def\<close>)
    then have "produced fr b recs ?b' (recs @ [?r])" using b' open_buffer by (simp add: produced_def)
    then show ?thesis using b'(4) by blast
  qed
qed

section \<open>The reader's steps\<close>

abbreviation wanted :: "tail_state \<Rightarrow> turn_record list \<Rightarrow> turn_record list" where
  "wanted t rs \<equiv> filter (\<lambda>r. tl_from t \<le> rec_seq r) rs"

definition pending :: "tail_state \<Rightarrow> turn_record list" where
  "pending t = (case tl_phase t of Yielding rs \<Rightarrow> rs | _ \<Rightarrow> [])"

text \<open>\<open>seen\<close> are the records read so far.\<close>

definition tail_inv :: "(int \<Rightarrow> int \<Rightarrow> string) \<Rightarrow> file_buffer \<Rightarrow> tail_state \<Rightarrow> turn_record list \<Rightarrow> turn_record list \<Rightarrow> bool" where
  "tail_inv fr b t recs seen \<longleftrightarrow> (\<exists>unread. recs = seen @ unread) \<and>
     has_read (file_of fr seen) (tl_reader t) \<and>
     tl_out t @ wanted t (pending t) = wanted t seen \<and>
     set (pending t) \<subseteq> set seen \<and>
     (\<forall>e. tl_phase t \<noteq> Raised e) \<and>
     (tl_emitted t \<longrightarrow> (\<exists>r \<in> set seen. is_terminal r)) \<and>
     (tl_phase t \<noteq> Top \<longrightarrow> tl_waiter t \<le> fb_version b \<and>
        (seen \<noteq> recs \<longrightarrow> tl_waiter t < fb_version b) \<and> (tl_closed t \<longrightarrow> fb_closed b \<and> seen = recs)) \<and>
     (tl_phase t = Returned \<longrightarrow> fb_closed b \<and> seen = recs)"

lemma terminal_seen:
  assumes "buffer_inv fr b (seen @ unread)" "r \<in> set seen" "is_terminal r"
  shows "unread = [] \<and> fb_closed b"
proof (cases unread rule: rev_cases)
  case Nil
  then have "list_all (\<lambda>r. \<not> is_terminal r) (butlast seen)" "seen \<noteq> []" "is_terminal (last seen) \<longrightarrow> fb_closed b"
    using assms by (auto simp: buffer_inv_def)
  moreover have "r \<in> set (butlast seen) \<or> r = last seen"
    using assms(2) by (cases seen rule: rev_cases) auto
  ultimately show ?thesis using Nil assms(3) by (auto simp: list_all_iff)
next
  case (snoc us u)
  then have "list_all (\<lambda>r. \<not> is_terminal r) (seen @ us)"
    using assms(1) by (auto simp: buffer_inv_def butlast_append)
  then show ?thesis using assms(2,3) by (auto simp: list_all_iff)
qed

lemma tail_inv_produced:
  assumes "tail_inv fr b t recs seen" "produced fr b recs b' recs'"
  shows "tail_inv fr b' t recs' seen"
  using assms unfolding tail_inv_def produced_def by (elim conjE exE) (intro conjI; auto)

lemma tail_inv_read:
  assumes "tail_inv fr b t recs seen" "buffer_inv fr b recs" "tl_phase t = Top"
  shows "tail_inv fr b (tail_step fl pystr b t) recs recs"
proof -
  obtain unread where recs: "recs = seen @ unread" using assms(1) by (auto simp: tail_inv_def)
  have good: "list_all (good_record fr) (seen @ unread)" and content: "fb_content b = file_of fr (seen @ unread)"
    using assms(2) recs by (simp_all add: buffer_inv_def)
  have "has_read (file_of fr seen) (tl_reader t)" using assms(1) by (simp add: tail_inv_def)
  then obtain rd where rd: "new_records fl pystr (Some (fb_content b)) (tl_reader t) = (Inr unread, rd)"
    "has_read (file_of fr recs) rd"
    using new_records_file [OF good] content recs by metis
  then show ?thesis using assms(1,3) recs
    by (simp add: tail_inv_def tail_step_def pending_def)
qed

lemma tail_inv_yield:
  assumes "tail_inv fr b t recs seen" "tl_phase t = Yielding (r # rs)"
  shows "tail_inv fr b (tail_step fl pystr b t) recs seen"
  using assms by (auto simp: tail_inv_def tail_step_def pending_def)

lemma tail_inv_end:
  assumes "tail_inv fr b t recs seen" "buffer_inv fr b recs" "tl_phase t = Yielding []"
  shows "tail_inv fr b (tail_step fl pystr b t) recs seen"
proof -
  have "fb_closed b \<and> seen = recs" if "tl_emitted t \<or> tl_closed t"
    using assms that terminal_seen by (fastforce simp: tail_inv_def)
  then show ?thesis using assms(1,3) by (auto simp: tail_inv_def tail_step_def pending_def)
qed

lemma tail_inv_idle:
  assumes "tail_inv fr b t recs seen" "tl_phase t = Waiting \<or> tl_phase t = Returned"
  shows "tail_inv fr b (tail_step fl pystr b t) recs seen"
proof (cases "tl_phase t = Waiting \<and> (fb_closed b \<or> tl_waiter t < fb_version b)")
  case True
  then have "tail_step fl pystr b t = t\<lparr>tl_phase := Top\<rparr>" by (simp add: tail_step_def)
  then show ?thesis using assms(1) True by (simp add: tail_inv_def pending_def)
next
  case False
  then have "tail_step fl pystr b t = t" using assms(2) by (auto simp: tail_step_def)
  then show ?thesis using assms(1) by simp
qed

lemma tail_inv_step:
  assumes "tail_inv fr b t recs seen" "buffer_inv fr b recs"
  shows "\<exists>seen'. tail_inv fr b (tail_step fl pystr b t) recs seen'"
proof (cases "tl_phase t")
  case Top
  then show ?thesis using tail_inv_read [OF assms] by blast
next
  case (Yielding rs)
  then show ?thesis using assms tail_inv_yield tail_inv_end by (cases rs) blast+
next
  case (Raised e)
  then show ?thesis using assms(1) by (simp add: tail_inv_def)
qed (use assms tail_inv_idle in blast)+

section \<open>All interleavings\<close>

definition linked :: "(int \<Rightarrow> int \<Rightarrow> string) \<Rightarrow> file_buffer \<Rightarrow> tail_state \<Rightarrow> turn_record list \<Rightarrow> bool" where
  "linked fr b t recs \<longleftrightarrow> buffer_inv fr b recs \<and> (\<exists>seen. tail_inv fr b t recs seen)"

lemma linked_produced:
  "linked fr b t recs \<Longrightarrow> produced fr b recs b' recs' \<Longrightarrow> linked fr b' t recs'"
proof -
  assume "linked fr b t recs" "produced fr b recs b' recs'"
  moreover from this(2) have "buffer_inv fr b' recs'" by (simp add: produced_def)
  ultimately show ?thesis unfolding linked_def using tail_inv_produced by blast
qed

lemma linked_step: "linked fr b t recs \<Longrightarrow> linked fr b (tail_step fl pystr b t) recs"
  unfolding linked_def using tail_inv_step by blast

lemma tail_step_from: "tl_from (tail_step fl pystr b t) = tl_from t"
  by (simp add: tail_step_def split: tail_phase.splits list.splits prod.splits sum.splits)

lemma buffer_run_inv:
  assumes "list_all good_event evs" "linked fr b t recs"
    and "buffer_run fr fl pystr evs (b, t) = (b', t')"
  shows "\<exists>recs'. linked fr b' t' recs' \<and> tl_from t' = tl_from t \<and> (fb_closed b \<longrightarrow> fb_closed b' \<and> recs' = recs)"
  using assms
proof (induction evs arbitrary: b t recs)
  case (Cons ev evs)
  have produce: ?case
    if p: "produced fr b recs b1 recs1" and r: "buffer_run fr fl pystr evs (b1, t) = (b', t')" for b1 recs1
  proof -
    have "linked fr b1 t recs1" by (rule linked_produced [OF Cons.prems(2) p])
    then obtain recs' where "linked fr b' t' recs'" "tl_from t' = tl_from t"
      "fb_closed b1 \<longrightarrow> fb_closed b' \<and> recs' = recs1"
      using Cons.IH [of b1 t recs1] Cons.prems(1) r by auto
    then show ?thesis using p by (auto simp: produced_def)
  qed
  have inv: "buffer_inv fr b recs" using Cons.prems(2) by (simp add: linked_def)
  show ?case
  proof (cases ev)
    case (Append ts fails ty data)
    have "good_event (Append ts fails ty data)" using Cons.prems(1) Append by simp
    then obtain recs1 where "produced fr b recs (snd (fb_append fr ts fails ty data b)) recs1"
      using append_produced [OF inv] by blast
    then show ?thesis using produce Cons.prems(3) Append by simp
  next
    case (Close ts fails reason extra)
    have "good_event (Close ts fails reason extra)" using Cons.prems(1) Close by simp
    then obtain recs1 where "produced fr b recs (snd (fb_close fr ts fails reason extra b)) recs1"
      using close_produced [OF inv] by blast
    then show ?thesis using produce Cons.prems(3) Close by simp
  next
    case Read
    have "linked fr b (tail_step fl pystr b t) recs" by (rule linked_step [OF Cons.prems(2)])
    then show ?thesis
      using Cons.IH [of b "tail_step fl pystr b t" recs] Cons.prems(1,3) Read by (simp add: tail_step_from)
  qed
qed auto

lemma linked_open: "linked fr open_file_buffer (open_tail n) []"
proof -
  have "tail_inv fr open_file_buffer (open_tail n) [] []"
    by (simp add: tail_inv_def open_tail_def pending_def file_of_def)
  then show ?thesis using buffer_inv_open by (auto simp: linked_def)
qed

text \<open>The records of a file, as the file itself gives them.\<close>

definition file_records :: "(string \<Rightarrow> json) \<Rightarrow> (json \<Rightarrow> string) \<Rightarrow> file_buffer \<Rightarrow> turn_record list result" where
  "file_records fl pystr b = parse_lines fl pystr byte_blanks (complete_lines (fb_content b))"

lemma file_records_inv: "buffer_inv fr b recs \<Longrightarrow> file_records fl pystr b = Inr recs"
  by (simp add: file_records_def buffer_inv_def complete_lines_def split_file parse_file_lines)

section \<open>A closed buffer lets its tail return\<close>

abbreviation tail_steps :: "(string \<Rightarrow> json) \<Rightarrow> (json \<Rightarrow> string) \<Rightarrow> file_buffer \<Rightarrow> nat \<Rightarrow> tail_state \<Rightarrow> tail_state" where
  "tail_steps fl pystr b n t \<equiv> (tail_step fl pystr b ^^ n) t"

lemma yield_all:
  "tl_phase t = Yielding rs \<Longrightarrow> \<exists>t'. tail_steps fl pystr b (length rs + 1) t = t' \<and>
     tl_phase t' \<in> {Returned, Waiting} \<and> (tl_closed t \<longrightarrow> tl_phase t' = Returned)"
proof (induction rs arbitrary: t)
  case Nil
  then show ?case by (simp add: tail_step_def)
next
  case (Cons r rs)
  let ?t = "tail_step fl pystr b t"
  have "tl_phase ?t = Yielding rs" "tl_closed ?t = tl_closed t"
    using Cons.prems by (simp_all add: tail_step_def)
  then show ?case using Cons.IH [of ?t] by (simp add: funpow_swap1)
qed

lemma returns_from_top:
  assumes "tail_inv fr b t recs seen" "buffer_inv fr b recs" "fb_closed b" "tl_phase t = Top"
  shows "\<exists>n. tl_phase (tail_steps fl pystr b n t) = Returned"
proof -
  let ?t = "tail_step fl pystr b t"
  have inv: "tail_inv fr b ?t recs recs" by (rule tail_inv_read [OF assms(1,2,4)])
  then obtain rs where rs: "tl_phase ?t = Yielding rs" "tl_closed ?t"
    using assms(3,4) by (auto simp: tail_inv_def tail_step_def split: prod.splits sum.splits)
  then have "tl_phase (tail_steps fl pystr b (length rs + 1) ?t) = Returned" using yield_all by blast
  then have "tl_phase (tail_steps fl pystr b (Suc (length rs + 1)) t) = Returned" by (simp add: funpow_swap1)
  then show ?thesis by blast
qed

lemma tail_inv_steps:
  "tail_inv fr b t recs seen \<Longrightarrow> buffer_inv fr b recs \<Longrightarrow> \<exists>seen'. tail_inv fr b (tail_steps fl pystr b n t) recs seen'"
proof (induction n)
  case (Suc n)
  then show ?case using tail_inv_step by fastforce
qed auto

lemma returns_from_waiting:
  assumes "tail_inv fr b t recs seen" "buffer_inv fr b recs" "fb_closed b" "tl_phase t = Waiting"
  shows "\<exists>n. tl_phase (tail_steps fl pystr b n t) = Returned"
proof -
  let ?t = "tail_step fl pystr b t"
  have "tl_phase ?t = Top" using assms(3,4) by (simp add: tail_step_def)
  moreover have "tail_inv fr b ?t recs seen" using tail_inv_idle [OF assms(1)] assms(4) by simp
  ultimately obtain n where "tl_phase (tail_steps fl pystr b n ?t) = Returned"
    using returns_from_top assms(2,3) by blast
  then have "tl_phase (tail_steps fl pystr b (Suc n) t) = Returned" by (simp add: funpow_swap1)
  then show ?thesis by blast
qed

lemma tail_returns:
  assumes "tail_inv fr b t recs seen" "buffer_inv fr b recs" "fb_closed b"
  shows "\<exists>n. tl_phase (tail_steps fl pystr b n t) = Returned"
proof (cases "tl_phase t")
  case (Yielding rs)
  let ?t = "tail_steps fl pystr b (length rs + 1) t"
  obtain seen' where inv: "tail_inv fr b ?t recs seen'" using tail_inv_steps [OF assms(1,2)] by blast
  have "tl_phase ?t = Returned \<or> tl_phase ?t = Waiting" using yield_all [OF Yielding] by blast
  then obtain n where "tl_phase (tail_steps fl pystr b n ?t) = Returned"
    using returns_from_waiting [OF inv assms(2,3)] by (metis funpow_0)
  then have "tl_phase (tail_steps fl pystr b (n + (length rs + 1)) t) = Returned"
    by (simp only: funpow_add comp_apply)
  then show ?thesis by blast
next
  case Returned
  then show ?thesis by (metis funpow_0)
next
  case (Raised e)
  then show ?thesis using assms(1) by (simp add: tail_inv_def)
qed (use assms returns_from_top returns_from_waiting in blast)+

end
