(* ===== verification/Stream_Recovery.thy ===== *)
theory Stream_Recovery
  imports Buffer_Tail
begin

text \<open>
  What happens to turn buffers after a restart (\<^verbatim>\<open>src/cowork/streaming/recovery.py\<close>): finding a file's
  terminal record, sealing files left open, rebuilding the answer of an interrupted turn and removing
  old files. A file is its bytes; every file of the streams directory exists and can be read, so the
  branches for \<open>OSError\<close> are left out. The text \<open>now\<close> is the clock reading a sealed record carries.
\<close>

section \<open>The terminal record\<close>

definition TAIL_READ_BYTES :: int where
  "TAIL_READ_BYTES = 8192"

definition file_tail :: "string \<Rightarrow> string" where
  "file_tail content = drop (nat (max 0 (int (length content) - TAIL_READ_BYTES))) content"

definition latest_terminal_reason ::
  "(string \<Rightarrow> json) \<Rightarrow> (json \<Rightarrow> string) \<Rightarrow> string \<Rightarrow> string option result" where
  "latest_terminal_reason fl pystr content =
     (let lines = filter (\<lambda>l. strip byte_blanks l \<noteq> []) (split_on newline (file_tail content)) in
      if lines = [] then Inr None
      else if \<not> utf8_valid True (last lines) then Inr None
      else (case loads fl (last lines) of
          None \<Rightarrow> Inr None
        | Some obj \<Rightarrow> (case record_of_json pystr obj of
              Inl e \<Rightarrow> Inl e
            | Inr r \<Rightarrow>
                if \<not> is_terminal r then Inr None
                else (case get_or_null (rec_data r) ''reason'' of JStr s \<Rightarrow> Inr (Some s) | _ \<Rightarrow> Inr None))))"

section \<open>Sealing\<close>

definition seal_record :: "string \<Rightarrow> int \<Rightarrow> turn_record" where
  "seal_record now seq = \<lparr>rec_seq = seq, rec_ts = now, rec_type = ''Interrupted'',
     rec_data = [(''reason'', JStr ''restart'')]\<rparr>"

text \<open>One file of the sweep: its new content and whether it was sealed.\<close>

definition seal_file ::
  "(int \<Rightarrow> int \<Rightarrow> string) \<Rightarrow> (string \<Rightarrow> json) \<Rightarrow> (json \<Rightarrow> string) \<Rightarrow> string \<Rightarrow> string \<Rightarrow> (string \<times> bool) result" where
  "seal_file fr fl pystr now content = (case latest_terminal_reason fl pystr content of
     Inl e \<Rightarrow> Inr (content, False)
   | Inr (Some _) \<Rightarrow> Inr (content, False)
   | Inr None \<Rightarrow> (case read_records fl pystr (Some content) 0 of
         Inl e \<Rightarrow> Inl e
       | Inr rs \<Rightarrow> Inr (content @ record_line fr (seal_record now (int (length rs))), True)))"

text \<open>The sweep over all files in the order of the directory listing; an exception ends it, with the files
  before it already sealed.\<close>

fun seal_orphan_buffers ::
  "(int \<Rightarrow> int \<Rightarrow> string) \<Rightarrow> (string \<Rightarrow> json) \<Rightarrow> (json \<Rightarrow> string) \<Rightarrow> string \<Rightarrow> string list \<Rightarrow> int result \<times> string list" where
  "seal_orphan_buffers fr fl pystr now [] = (Inr 0, [])"
| "seal_orphan_buffers fr fl pystr now (content # files) = (case seal_file fr fl pystr now content of
     Inl e \<Rightarrow> (Inl e, content # files)
   | Inr (content', sealed) \<Rightarrow>
       (case seal_orphan_buffers fr fl pystr now files of
          (res, files') \<Rightarrow> (map_sum id (\<lambda>n. if sealed then n + 1 else n) res, content' # files')))"

section \<open>The answer of an interrupted turn\<close>

text \<open>The frame of an event (\<^verbatim>\<open>src/cowork/streaming/sse.py\<close>), for a payload whose strings are printable ASCII:
  \<open>ensure_ascii\<close> makes no difference to its text.\<close>

definition sse_frame :: "(int \<Rightarrow> int \<Rightarrow> string) \<Rightarrow> string \<Rightarrow> payload \<Rightarrow> string" where
  "sse_frame fr event payload =
     ''event: '' @ event @ [newline] @ ''data: '' @ dumps fr (JDict payload) @ [newline, newline]"

fun split_blank :: "string \<Rightarrow> string \<Rightarrow> string list" where
  "split_blank acc [] = [acc]"
| "split_blank acc [c] = [acc @ [c]]"
| "split_blank acc (c # d # s) =
     (if c = newline \<and> d = newline then acc # split_blank [] s else split_blank (acc @ [c]) (d # s))"

text \<open>The event of one block of a frame, if it has a well-formed data line.\<close>

definition block_event :: "(string \<Rightarrow> json) \<Rightarrow> string \<Rightarrow> (string \<times> payload) option result" where
  "block_event fl block = (case find (starts_with ''data:'') (split_on newline block) of
     None \<Rightarrow> Inr None
   | Some line \<Rightarrow> (case loads fl (strip text_blanks (drop 5 line)) of
         None \<Rightarrow> Inr None
       | Some (JDict payload) \<Rightarrow>
           (case get_or_null payload ''type'' of JStr ty \<Rightarrow> Inr (Some (ty, payload)) | _ \<Rightarrow> Inr None)
       | Some _ \<Rightarrow> Inl (AttributeError ''get'')))"

fun block_events :: "(string \<Rightarrow> json) \<Rightarrow> string list \<Rightarrow> (string \<times> payload) list result" where
  "block_events fl [] = Inr []"
| "block_events fl (b # bs) = (case block_event fl b of
     Inl e \<Rightarrow> Inl e
   | Inr ev \<Rightarrow> map_sum id (\<lambda>evs. case ev of None \<Rightarrow> evs | Some x \<Rightarrow> x # evs) (block_events fl bs))"

definition frame_text :: "(json \<Rightarrow> string) \<Rightarrow> turn_record \<Rightarrow> string" where
  "frame_text pystr r = (let sse = get_or_null (rec_data r) ''sse'' in
     if falsy sse then '''' else py_str pystr sse)"

definition read_buffer_events ::
  "(string \<Rightarrow> json) \<Rightarrow> (json \<Rightarrow> string) \<Rightarrow> string \<Rightarrow> (string \<times> payload) list result" where
  "read_buffer_events fl pystr content = (case read_records fl pystr (Some content) 0 of
     Inl e \<Rightarrow> Inl e
   | Inr rs \<Rightarrow> block_events fl (concat (map (\<lambda>r. split_blank [] (frame_text pystr r))
       (filter (\<lambda>r. rec_type r = ''sse'') rs))))"

text \<open>The inner loop of \<open>seal_orphan_turns_in_history\<close>: the text collected and the last final event.\<close>

fun replay :: "(string \<times> payload) list \<Rightarrow> json list \<Rightarrow> payload option \<Rightarrow> json list \<times> payload option" where
  "replay [] collected terminal_event = (collected, terminal_event)"
| "replay ((ty, data) # evs) collected terminal_event =
     replay evs (accumulate_answer_text collected (JStr ty) data)
       (if ty = ''response.completed'' \<or> ty = ''response.failed'' then Some data else terminal_event)"

text \<open>What one file contributes to the history: nothing when its turn ended on purpose, otherwise the text
  and the final event handed to the conversation service, \<open>lost\<close> standing for \<open>response_failed_payload\<close>.\<close>

definition orphan_turn ::
  "(string \<Rightarrow> json) \<Rightarrow> (json \<Rightarrow> string) \<Rightarrow> payload \<Rightarrow> string \<Rightarrow> (string \<times> payload) option result" where
  "orphan_turn fl pystr lost content = (case latest_terminal_reason fl pystr content of
     Inl e \<Rightarrow> Inr None
   | Inr reason \<Rightarrow>
       if reason \<notin> {None, Some ''restart'', Some ''interrupted''} then Inr None
       else (case read_buffer_events fl pystr content of
           Inl e \<Rightarrow> Inl e
         | Inr evs \<Rightarrow> (case replay evs [] None of
               (collected, terminal_event) \<Rightarrow> (case answer_text collected of
                   None \<Rightarrow> Inl (TypeError ''join'')
                 | Some text \<Rightarrow> Inr (Some (text, case terminal_event of
                     Some ev \<Rightarrow> if ev = [] then lost else ev | None \<Rightarrow> lost))))))"

section \<open>Removing old files\<close>

definition is_turn_file :: "string \<Rightarrow> bool" where
  "is_turn_file name \<longleftrightarrow> starts_with ''turn_'' name \<and> starts_with (rev ''.jsonl'') (rev (drop 5 name))"

text \<open>A conversation directory is its entries with their modification times.\<close>

type_synonym stream_dirs = "(string \<times> (string \<times> time) list) list"

definition gc_dir :: "time \<Rightarrow> (string \<times> time) list \<Rightarrow> (string \<times> time) list" where
  "gc_dir cutoff files = filter (\<lambda>(name, mtime). \<not> is_turn_file name \<or> cutoff \<le> mtime) files"

definition gc_old_buffers :: "time \<Rightarrow> int \<Rightarrow> stream_dirs \<Rightarrow> int \<times> stream_dirs" where
  "gc_old_buffers now max_age_days dirs =
     (if max_age_days \<le> 0 then (0, dirs)
      else
        let cutoff = now - days max_age_days;
            kept = map (\<lambda>(dir, files). (dir, gc_dir cutoff files)) dirs
        in (sum_list (map (\<lambda>(dir, files). int (length files) - int (length (gc_dir cutoff files))) dirs),
            filter (\<lambda>(dir, files). files \<noteq> []) kept))"

end
