(* ===== verification/Recovery_Properties.thy ===== *)
theory Recovery_Properties
  imports Stream_Recovery
begin

text \<open>
  Reading a whole file back, sealing it, and rebuilding the answer of the turn that wrote it.
\<close>

section \<open>Reading the whole file\<close>

lemma universal_newlines_same: "CHR 0x0D \<notin> set s \<Longrightarrow> universal_newlines s = s"
  by (induction s rule: universal_newlines.induct) auto

lemma record_line_no_return: "good_record fr r \<Longrightarrow> CHR 0x0D \<notin> set (record_line fr r)"
  using no_control_mem [OF dumps_no_control, of "record_json r" "CHR 0x0D" fr]
  by (simp add: good_record_def record_line_def)

lemma file_of_no_return: "list_all (good_record fr) recs \<Longrightarrow> CHR 0x0D \<notin> set (file_of fr recs)"
  using record_line_no_return by (auto simp: file_of_def list_all_iff)

lemma file_of_valid: "list_all (good_record fr) recs \<Longrightarrow> utf8_valid False (file_of fr recs)"
  unfolding file_of_def by (rule valid_concat) (auto simp: list_all_iff good_record_def)

lemma strip_Nil: "strip bs [] = []"
proof -
  have "lstrip bs [] = []" for bs
    by (subst lstrip.simps) (auto dest: find_SomeD elim: starts_with.elims split: option.splits)
  then show ?thesis by (simp add: strip_def)
qed

lemma parse_text_lines:
  assumes "list_all (good_record fr) recs"
  shows "parse_lines fl pystr text_blanks (map (\<lambda>r. dumps fr (record_json r)) recs @ [[]]) = Inr recs"
proof -
  have "parse_record fl pystr text_blanks [] = Inr None" by (simp add: parse_record_def strip_Nil)
  then show ?thesis using assms by (induction recs) (simp_all add: parse_record_line)
qed

lemma read_records_file:
  assumes "list_all (good_record fr) recs"
  shows "read_records fl pystr (Some (file_of fr recs)) n = Inr (filter (\<lambda>r. n \<le> rec_seq r) recs)"
  using assms
  by (simp add: read_records_def file_of_valid universal_newlines_same file_of_no_return split_file parse_text_lines)

section \<open>The end of a file\<close>

lemma split_on_ended:
  assumes "u = [] \<or> last u = newline"
  shows "last (split_on newline u) = []"
proof (cases "u = []")
  case False
  then obtain v where "u = v @ [newline]" using assms by (metis append_butlast_last_id)
  then show ?thesis using split_on_append [of newline v "[newline]"] split_on_last [of newline v]
    by (simp add: split_on_line [of newline _ "[]"])
qed simp

lemma file_of_ended: "file_of fr recs = [] \<or> last (file_of fr recs) = newline"
  by (cases recs rule: rev_cases) (simp_all add: file_of_def record_line_def)

lemma suffix_ended:
  assumes "s = [] \<or> last s = newline"
  shows "drop k s = [] \<or> last (drop k s) = newline"
  using assms by (cases "length s \<le> k") auto

lemma latest_reason_of_last:
  assumes "good_record fr r" "int (length (record_line fr r)) \<le> TAIL_READ_BYTES"
    and "is_terminal r" "map_of (rec_data r) ''reason'' = Some (JStr reason)"
    and "s = [] \<or> last s = newline"
  shows "latest_terminal_reason fl pystr (s @ record_line fr r) = Inr (Some reason)"
proof -
  let ?line = "dumps fr (record_json r)"
  let ?k = "nat (max 0 (int (length (s @ record_line fr r)) - TAIL_READ_BYTES))"
  have "?k \<le> length s" using assms(2) by simp
  then have tail: "file_tail (s @ record_line fr r) = drop ?k s @ record_line fr r"
    by (simp add: file_tail_def)
  have "newline \<notin> set ?line" using assms(1) by (simp add: good_record_def dumps_no_newline)
  then have "split_on newline (drop ?k s @ record_line fr r) = butlast (split_on newline (drop ?k s)) @ [?line, []]"
    using split_on_append [of newline "drop ?k s" "record_line fr r"] split_on_ended [OF suffix_ended [OF assms(5)]]
      split_on_line [of newline ?line "[]"]
    by (simp add: record_line_def)
  moreover obtain t where t: "?line = ''{'' @ t @ ''}''" using dumps_record_braces by blast
  moreover have "strip byte_blanks ?line = ?line" unfolding t by (rule strip_braces) simp
  moreover have "utf8_valid True ?line"
    using assms(1) utf8_valid_append [of "[newline]"]
    by (auto simp: good_record_def record_line_def intro!: utf8_valid_weaken)
  moreover have "loads fl ?line = Some (record_json r)" "record_of_json pystr (record_json r) = Inr r"
    using assms(1) by (simp_all add: good_record_def loads_dumps record_of_record_json)
  ultimately show ?thesis using assms(3,4) tail
    by (simp add: latest_terminal_reason_def get_or_null_def Let_def strip_Nil)
qed

section \<open>Sealing\<close>

lemma good_seal_record: "utf8_valid False now \<Longrightarrow> good_record fr (seal_record now n)"
  by (rule good_recordI) (simp_all add: seal_record_def good_data_def ascii_valid ascii_def)

lemma is_terminal_seal [simp]: "is_terminal (seal_record now n)"
  by (simp add: is_terminal_def seal_record_def TERMINAL_TYPES_def)

section \<open>Frames\<close>

lemma split_on_single: "d \<notin> set s \<Longrightarrow> split_on d s = [s]"
  by (induction s) auto

lemma split_blank_nl:
  "newline \<notin> set s \<Longrightarrow> t \<noteq> [] \<Longrightarrow> hd t \<noteq> newline \<Longrightarrow>
     split_blank acc (s @ newline # t) = split_blank (acc @ s @ [newline]) t"
proof (induction s arbitrary: acc)
  case Nil
  then show ?case by (cases t) auto
next
  case (Cons c s)
  then show ?case by (cases s) auto
qed

lemma split_blank_end:
  "newline \<notin> set s \<Longrightarrow> split_blank acc (s @ [newline, newline]) = [acc @ s, []]"
proof (induction s arbitrary: acc)
  case (Cons c s)
  then show ?case by (cases s) auto
qed simp

lemma frame_blocks:
  assumes "newline \<notin> set event" "plain_json (JDict payload)"
  shows "split_blank [] (sse_frame fr event payload) =
    [''event: '' @ event @ newline # ''data: '' @ dumps fr (JDict payload), []]"
proof -
  let ?d = "''data: '' @ dumps fr (JDict payload)"
  have "newline \<notin> set ?d" using dumps_no_newline [OF assms(2)] by simp
  then have d: "split_blank acc (?d @ [newline, newline]) = [acc @ ?d, []]" for acc by (rule split_blank_end)
  have "newline \<notin> set (''event: '' @ event)" using assms(1) by simp
  then have "split_blank [] ((''event: '' @ event) @ newline # (?d @ [newline, newline])) =
      split_blank ([] @ (''event: '' @ event) @ [newline]) (?d @ [newline, newline])"
    by (rule split_blank_nl) simp_all
  then show ?thesis unfolding d by (simp add: sse_frame_def)
qed

lemma strip_data_line: "strip text_blanks (CHR '' '' # dumps fr (JDict payload)) = dumps fr (JDict payload)"
proof -
  obtain t where t: "dumps fr (JDict payload) = ''{'' @ t @ ''}''" by simp
  have blank: "9 < length text_blanks" "text_blanks ! 9 = '' ''"
    "list_all (\<lambda>w. w \<noteq> [] \<and> hd w \<noteq> CHR '' '') (take 9 text_blanks)" by code_simp+
  have "\<not> starts_with (text_blanks ! i) (CHR '' '' # q)" if "i < 9" for i q
  proof -
    have "text_blanks ! i \<in> set (take 9 text_blanks)" using that blank(1) by (auto simp: in_set_conv_nth)
    then have "text_blanks ! i \<noteq> []" "hd (text_blanks ! i) \<noteq> CHR '' ''" using blank(3) by (auto simp: list_all_iff)
    then show ?thesis by (cases "text_blanks ! i") auto
  qed
  then have "find (\<lambda>w. w \<noteq> [] \<and> starts_with w (CHR '' '' # q)) text_blanks = Some '' ''" for q
    unfolding find_Some_iff using blank(1,2) by (intro exI [of _ 9]) auto
  then have "lstrip text_blanks (CHR '' '' # q) = lstrip text_blanks q" for q
    by (subst lstrip.simps) simp
  then show ?thesis using strip_braces [of text_blanks t] unfolding t by (simp add: strip_def)
qed

lemma frame_event:
  assumes "newline \<notin> set event" "plain_json (JDict payload)" "map_of payload ''type'' = Some (JStr ty)"
  shows "block_events fl (split_blank [] (sse_frame fr event payload)) = Inr [(ty, payload)]"
proof -
  let ?e = "''event: '' @ event" and ?d = "''data: '' @ dumps fr (JDict payload)"
  have nl: "newline \<notin> set ?e" "newline \<notin> set ?d"
    using assms(1) dumps_no_newline [OF assms(2)] by simp_all
  have "split_on newline ?d = [?d]" by (rule split_on_single [OF nl(2)])
  then have "split_on newline (?e @ newline # ?d) = [?e, ?d]" using split_on_line [OF nl(1)] by simp
  then have "block_event fl (?e @ newline # ?d) = Inr (Some (ty, payload))"
    using assms(3) loads_dumps [OF assms(2), of fl fr]
    by (simp add: block_event_def strip_data_line get_or_null_def del: dumps.simps)
  moreover have "block_event fl [] = Inr None" by (simp add: block_event_def)
  ultimately show ?thesis using frame_blocks [OF assms(1,2), of fr] by simp
qed

section \<open>The events of a file\<close>

lemma block_events_append:
  "block_events fl (xs @ ys) = (case block_events fl xs of
     Inl e \<Rightarrow> Inl e
   | Inr evs \<Rightarrow> map_sum id (\<lambda>qs. evs @ qs) (block_events fl ys))"
proof (induction xs)
  case Nil
  then show ?case by (cases "block_events fl ys") simp_all
next
  case (Cons x xs)
  then show ?case by (cases "block_events fl ys") (auto split: sum.splits option.splits)
qed

lemma frames_events:
  assumes "list_all (\<lambda>(ty, payload). newline \<notin> set ty \<and> plain_json (JDict payload) \<and>
      map_of payload ''type'' = Some (JStr ty)) evs"
  shows "block_events fl (concat (map (\<lambda>(ty, payload). split_blank [] (sse_frame fr ty payload)) evs)) = Inr evs"
  using assms
proof (induction evs)
  case (Cons ev evs)
  obtain ty payload where ev: "ev = (ty, payload)" by (cases ev)
  then have "block_events fl (split_blank [] (sse_frame fr ty payload)) = Inr [(ty, payload)]"
    using Cons.prems by (intro frame_event) auto
  then show ?case using Cons ev by (simp add: block_events_append)
qed simp

lemma frame_text_str: "map_of (rec_data r) ''sse'' = Some (JStr s) \<Longrightarrow> frame_text pystr r = s"
  by (simp add: frame_text_def get_or_null_def Let_def)

lemma read_events_file:
  assumes "list_all (good_record fr) recs" "list_all (\<lambda>r. 0 \<le> rec_seq r) recs"
    and "map (\<lambda>r. map_of (rec_data r) ''sse'') (filter (\<lambda>r. rec_type r = ''sse'') recs) =
      map (\<lambda>(ty, payload). Some (JStr (sse_frame fr ty payload))) evs"
    and "list_all (\<lambda>(ty, payload). newline \<notin> set ty \<and> plain_json (JDict payload) \<and>
      map_of payload ''type'' = Some (JStr ty)) evs"
  shows "read_buffer_events fl pystr (file_of fr recs) = Inr evs"
proof -
  let ?frames = "filter (\<lambda>r. rec_type r = ''sse'') recs"
  have "map (\<lambda>r. split_blank [] (frame_text pystr r)) rs = map (\<lambda>(ty, payload). split_blank [] (sse_frame fr ty payload)) es"
    if "map (\<lambda>r. map_of (rec_data r) ''sse'') rs = map (\<lambda>(ty, payload). Some (JStr (sse_frame fr ty payload))) es"
    for rs es
    using that
    by (induction rs arbitrary: es) (auto simp: frame_text_str split: prod.splits)
  note this [OF assms(3)]
  moreover have "filter (\<lambda>r. 0 \<le> rec_seq r) recs = recs" using assms(2) by (simp add: list_all_iff)
  ultimately show ?thesis
    using read_records_file [OF assms(1), of fl pystr 0] frames_events [OF assms(4), of fl fr]
    by (simp add: read_buffer_events_def)
qed

lemma replay_fst:
  "list_all (\<lambda>(ty, payload). map_of payload ''type'' = Some (JStr ty)) evs \<Longrightarrow>
     fst (replay evs c f) = collect c (map snd evs)"
  by (induction evs c f rule: replay.induct) (auto simp: get_or_null_def)

lemma replay_collect:
  assumes "list_all (\<lambda>(ty, payload). newline \<notin> set ty \<and> plain_json (JDict payload) \<and>
      map_of payload ''type'' = Some (JStr ty)) evs"
  shows "fst (replay evs [] None) = collect [] (map snd evs)"
  using assms by (intro replay_fst) (auto simp: list_all_iff)

lemma replay_snd:
  "snd (replay evs c f) = f \<or> (\<exists>ty data. snd (replay evs c f) = Some data \<and> (ty, data) \<in> set evs \<and>
     ty \<in> {''response.completed'', ''response.failed''})"
proof (induction evs c f rule: replay.induct)
  case (2 ty data evs c f)
  then show ?case by (cases "ty = ''response.completed'' \<or> ty = ''response.failed''") auto
qed simp

lemma replay_final:
  "snd (replay evs [] None) = None \<or> (\<exists>ty data. snd (replay evs [] None) = Some data \<and>
      (ty, data) \<in> set evs \<and> ty \<in> {''response.completed'', ''response.failed''})"
  by (rule replay_snd)

end
