(* ===== verification/Stream_Claims.thy ===== *)
theory Stream_Claims
  imports Recovery_Properties
begin

text \<open>
  The properties of turn buffers, their tails and their recovery after a restart, each with a small
  concrete turn as its witness.
\<close>

definition sx_fr :: "int \<Rightarrow> int \<Rightarrow> string" where
  "sx_fr m e = ''0.0''"

definition sx_fl :: "string \<Rightarrow> json" where
  "sx_fl s = JFloat 0 0"

definition sx_pystr :: "json \<Rightarrow> string" where
  "sx_pystr v = ''''"

definition sx_written :: "buffer_event list" where
  "sx_written = [Append ''t0'' False ''sse'' [(''sse'', JStr ''x'')], Read, Read]"

definition sx_ended :: "buffer_event list" where
  "sx_ended = sx_written @ [Close ''t1'' False ''completed'' [], Read, Read, Read, Read, Read]"

definition sx_run :: "buffer_event list \<Rightarrow> file_buffer \<times> tail_state" where
  "sx_run evs = buffer_run sx_fr sx_fl sx_pystr evs (open_file_buffer, open_tail 0)"

definition sx_line :: string where
  "sx_line = record_line sx_fr \<lparr>rec_seq = 0, rec_ts = '''', rec_type = ''sse'', rec_data = []\<rparr>"

definition sx_record :: turn_record where
  "sx_record = \<lparr>rec_seq = 0, rec_ts = ''t'', rec_type = ''sse'', rec_data = []\<rparr>"


definition cut_character :: string where
  "cut_character = take 55 (record_line sx_fr (sx_record\<lparr>rec_data := [(''sse'', JStr (utf8 233))]\<rparr>))"


lemma sx_good: "list_all good_event sx_ended" "list_all good_event (sx_written @ [Read])"
  "list_all good_event (sx_written @ [Close ''t1'' False ''completed'' []])"
  by code_simp+

lemma sx_run_pair:
  "buffer_run sx_fr sx_fl sx_pystr evs (open_file_buffer, open_tail 0) = (fst (sx_run evs), snd (sx_run evs))"
  by (simp add: sx_run_def)

text \<open>C12. A reader that tails a turn gets every record of the turn's file from its offset on, once and in
  order. For every interleaving of the producer's appends and closes (failed writes included) with the
  reader's steps, what the reader was given is a prefix of the file's records numbered from the offset,
  and all of them when the tail has returned; a tail returns only after the buffer was closed.\<close>

theorem tail_exactly_once:
  assumes "list_all good_event evs"
    and "buffer_run fr fl pystr evs (open_file_buffer, open_tail from_seq) = (b, t)"
  shows "\<exists>recs. file_records fl pystr b = Inr recs \<and>
    prefix (tl_out t) (filter (\<lambda>r. from_seq \<le> rec_seq r) recs) \<and>
    (tl_phase t = Returned \<longrightarrow>
       fb_closed b \<and> tl_out t = filter (\<lambda>r. from_seq \<le> rec_seq r) recs)"
proof -
  obtain recs seen where inv: "buffer_inv fr b recs" "tail_inv fr b t recs seen" and n: "tl_from t = from_seq"
    using buffer_run_inv [OF assms(1) linked_open assms(2)] by (auto simp: linked_def open_tail_def)
  have "tl_out t @ wanted t (pending t) = wanted t seen" "\<exists>unread. recs = seen @ unread"
    using inv(2) by (simp_all add: tail_inv_def)
  then have "prefix (tl_out t) (wanted t recs)" by (metis append_assoc filter_append prefixI)
  moreover have "fb_closed b \<and> tl_out t = wanted t recs" if "tl_phase t = Returned"
    using inv(2) that by (simp add: tail_inv_def pending_def)
  ultimately show ?thesis using file_records_inv [OF inv(1)] n by blast
qed

theorem tail_exactly_once_witness:
  "tl_phase (snd (sx_run sx_ended)) = Returned \<and> fb_closed (fst (sx_run sx_ended)) \<and>
   map rec_type (tl_out (snd (sx_run sx_ended))) = [''sse'', ''Done'']"
proof -
  have "tl_phase (snd (sx_run sx_ended)) = Returned"
    "map rec_type (tl_out (snd (sx_run sx_ended))) = [''sse'', ''Done'']" by code_simp+
  then show ?thesis using tail_exactly_once [OF sx_good(1) sx_run_pair] by auto
qed

text \<open>C13. A tail never sleeps through a write: in every reachable state in which the reader waits and
  neither event it waits on has fired, the buffer is open and the reader has been given every record of
  the file from its offset on.\<close>

theorem tail_no_lost_wakeup:
  assumes "list_all good_event evs"
    and "buffer_run fr fl pystr evs (open_file_buffer, open_tail from_seq) = (b, t)"
    and "tl_phase t = Waiting" "tail_step fl pystr b t = t"
  shows "\<not> fb_closed b \<and>
    (\<exists>recs. file_records fl pystr b = Inr recs \<and> tl_out t = filter (\<lambda>r. from_seq \<le> rec_seq r) recs)"
proof -
  obtain recs seen where inv: "buffer_inv fr b recs" "tail_inv fr b t recs seen" and n: "tl_from t = from_seq"
    using buffer_run_inv [OF assms(1) linked_open assms(2)] by (auto simp: linked_def open_tail_def)
  have "tl_phase (tail_step fl pystr b t) = Waiting" using assms(3,4) by simp
  then have idle: "\<not> fb_closed b" "\<not> tl_waiter t < fb_version b"
    using assms(3) by (auto simp: tail_step_def split: if_splits)
  then have "seen = recs" "tl_out t = wanted t seen"
    using inv(2) assms(3) by (auto simp: tail_inv_def pending_def)
  then show ?thesis using file_records_inv [OF inv(1)] idle(1) n by blast
qed

theorem tail_no_lost_wakeup_witness:
  "tl_phase (snd (sx_run (sx_written @ [Read]))) = Waiting \<and> \<not> fb_closed (fst (sx_run (sx_written @ [Read]))) \<and>
   map rec_seq (tl_out (snd (sx_run (sx_written @ [Read])))) = [0]"
proof -
  have "tl_phase (snd (sx_run (sx_written @ [Read]))) = Waiting"
    "tail_step sx_fl sx_pystr (fst (sx_run (sx_written @ [Read]))) (snd (sx_run (sx_written @ [Read]))) =
       snd (sx_run (sx_written @ [Read]))"
    "map rec_seq (tl_out (snd (sx_run (sx_written @ [Read])))) = [0]" by code_simp+
  then show ?thesis using tail_no_lost_wakeup [OF sx_good(2) sx_run_pair] by auto
qed

text \<open>C14. A tail of a closed buffer returns: from every reachable state in which the buffer is closed, with
  or without a terminal record in its file, finitely many steps of the reader alone bring it to its
  return, with every record from its offset on delivered.\<close>

theorem closed_buffer_tail_returns:
  assumes "list_all good_event evs"
    and "buffer_run fr fl pystr evs (open_file_buffer, open_tail from_seq) = (b, t)" "fb_closed b"
  shows "\<exists>n recs. file_records fl pystr b = Inr recs \<and>
    tl_phase ((tail_step fl pystr b ^^ n) t) = Returned \<and>
    tl_out ((tail_step fl pystr b ^^ n) t) = filter (\<lambda>r. from_seq \<le> rec_seq r) recs"
proof -
  obtain recs seen where inv: "buffer_inv fr b recs" "tail_inv fr b t recs seen" and n: "tl_from t = from_seq"
    using buffer_run_inv [OF assms(1) linked_open assms(2)] by (auto simp: linked_def open_tail_def)
  obtain k where k: "tl_phase (tail_steps fl pystr b k t) = Returned"
    using tail_returns [OF inv(2,1) assms(3)] by blast
  obtain seen' where "tail_inv fr b (tail_steps fl pystr b k t) recs seen'"
    using tail_inv_steps [OF inv(2,1)] by blast
  then have "tl_out (tail_steps fl pystr b k t) = wanted (tail_steps fl pystr b k t) recs"
    using k by (simp add: tail_inv_def pending_def)
  moreover have "tl_from (tail_steps fl pystr b k t) = from_seq"
    using n by (induction k) (simp_all add: tail_step_from)
  ultimately show ?thesis using k file_records_inv [OF inv(1)] by auto
qed

theorem closed_buffer_tail_returns_witness:
  "let (b, t) = sx_run (sx_written @ [Close ''t1'' False ''completed'' []]) in
     fb_closed b \<and> tl_phase t \<noteq> Returned \<and> (\<exists>n. tl_phase ((tail_step sx_fl sx_pystr b ^^ n) t) = Returned)"
proof -
  let ?evs = "sx_written @ [Close ''t1'' False ''completed'' []]"
  have "fb_closed (fst (sx_run ?evs))" "tl_phase (snd (sx_run ?evs)) \<noteq> Returned" by code_simp+
  then show ?thesis using closed_buffer_tail_returns [OF sx_good(3) sx_run_pair]
    by (auto simp: case_prod_beta)
qed

text \<open>C15. The incremental reader gives the same records as parsing the whole file: reading a file at any
  moments of its growth, each time only the bytes written since, yields together exactly the records of
  the complete lines of the last content; a line cut by a read is held back and read once.\<close>

theorem incremental_read_equivalent:
  assumes "sorted_wrt prefix contents" "contents \<noteq> []"
    and "read_growing fl pystr contents new_reader = (Inr recs, rd)"
  shows "parse_lines fl pystr byte_blanks (complete_lines (last contents)) = Inr recs"
proof -
  have "sorted_wrt prefix ([] # contents)" using assms(1) by simp
  moreover have "parse_lines fl pystr byte_blanks (complete_lines []) = Inr []" by (simp add: complete_lines_def)
  ultimately have "parse_lines fl pystr byte_blanks (complete_lines (last ([] # contents))) = Inr ([] @ recs)"
    by (rule read_growing_lines [OF has_read_new _ assms(3)])
  then show ?thesis using assms(2) by simp
qed

theorem incremental_read_equivalent_witness:
  "\<exists>recs. map rec_type recs = [''sse''] \<and>
     parse_lines sx_fl sx_pystr byte_blanks (complete_lines sx_line) = Inr recs"
proof -
  let ?contents = "[take 7 sx_line, take 20 sx_line, sx_line]"
  have "prefix (take 7 sx_line) (take 20 sx_line)" "prefix (take 7 sx_line) sx_line" "prefix (take 20 sx_line) sx_line"
    by code_simp+
  then have s: "sorted_wrt prefix ?contents" by simp
  have r: "\<not> isl (fst (read_growing sx_fl sx_pystr ?contents new_reader))"
    "map rec_type (projr (fst (read_growing sx_fl sx_pystr ?contents new_reader))) = [''sse'']" by code_simp+
  obtain recs rd where "read_growing sx_fl sx_pystr ?contents new_reader = (Inr recs, rd)"
    using r(1) by (metis prod.collapse sum.collapse(2))
  then show ?thesis using incremental_read_equivalent [OF s] r(2) by fastforce
qed

text \<open>C16. The boot sweep seals a buffer a crash left open. A file of complete records that the sweep takes
  for open gets one more record, numbered next, of type Interrupted with reason restart; all records read
  back, the file now shows that reason, and a second sweep leaves it alone.\<close>

theorem seal_file_correct:
  assumes "list_all (good_record fr) recs" "utf8_valid False now"
    and "latest_terminal_reason fl pystr (file_of fr recs) = Inr None"
    and "int (length (record_line fr (seal_record now (int (length (filter (\<lambda>r. 0 \<le> rec_seq r) recs)))))) \<le> TAIL_READ_BYTES"
  shows "let r = seal_record now (int (length (filter (\<lambda>r. 0 \<le> rec_seq r) recs)));
           sealed = file_of fr (recs @ [r])
         in seal_file fr fl pystr now (file_of fr recs) = Inr (sealed, True) \<and>
            read_records fl pystr (Some sealed) 0 = Inr (filter (\<lambda>r. 0 \<le> rec_seq r) recs @ [r]) \<and>
            latest_terminal_reason fl pystr sealed = Inr (Some ''restart'') \<and>
            seal_file fr fl pystr now' sealed = Inr (sealed, False)"
proof -
  define n where "n = int (length (filter (\<lambda>r. 0 \<le> rec_seq r) recs))"
  define r where "r = seal_record now n"
  have good: "good_record fr r" unfolding r_def using assms(2) by (rule good_seal_record)
  have all: "list_all (good_record fr) (recs @ [r])" using assms(1) good by simp
  have sealed: "file_of fr (recs @ [r]) = file_of fr recs @ record_line fr r" by (simp add: file_of_def)
  have first: "seal_file fr fl pystr now (file_of fr recs) = Inr (file_of fr (recs @ [r]), True)"
    using assms(3) read_records_file [OF assms(1), of fl pystr 0] sealed by (simp add: seal_file_def r_def n_def)
  have "is_terminal r" "map_of (rec_data r) ''reason'' = Some (JStr ''restart'')"
    by (simp_all add: r_def) (simp add: seal_record_def)
  then have reason: "latest_terminal_reason fl pystr (file_of fr (recs @ [r])) = Inr (Some ''restart'')"
    unfolding sealed using latest_reason_of_last [OF good _ _ _ file_of_ended] assms(4) by (simp add: r_def n_def)
  have "read_records fl pystr (Some (file_of fr (recs @ [r]))) 0 = Inr (filter (\<lambda>r. 0 \<le> rec_seq r) recs @ [r])"
    using read_records_file [OF all, of fl pystr 0] by (simp add: r_def n_def seal_record_def)
  then show ?thesis using first reason by (simp add: Let_def seal_file_def r_def n_def)
qed

theorem seal_file_correct_witness:
  "latest_terminal_reason sx_fl sx_pystr (file_of sx_fr ([sx_record] @ [seal_record ''n'' 1])) = Inr (Some ''restart'')"
proof -
  have "list_all (good_record sx_fr) [sx_record]" "utf8_valid False ''n''"
    "latest_terminal_reason sx_fl sx_pystr (file_of sx_fr [sx_record]) = Inr None"
    "int (length (record_line sx_fr (seal_record ''n'' (int (length (filter (\<lambda>r. 0 \<le> rec_seq r) [sx_record])))))) \<le> TAIL_READ_BYTES"
    by code_simp+
  from seal_file_correct [OF this] show ?thesis by (simp add: sx_record_def Let_def)
qed


text \<open>C18. A crash in the middle of a UTF-8 character stops the sweep. The last line of such a file cannot be
  decoded; counting its records raises, and no file after it in the listing is sealed, whatever it holds.\<close>

theorem seal_sweep_stops_at_cut_character:
  "seal_orphan_buffers sx_fr sx_fl sx_pystr now (cut_character # files) =
     (Inl (UnicodeDecodeError ''utf-8''), cut_character # files)"
proof -
  have "seal_file sx_fr sx_fl sx_pystr now cut_character = Inl (UnicodeDecodeError ''utf-8'')"
  proof -
    have "latest_terminal_reason sx_fl sx_pystr cut_character = Inr None"
      "read_records sx_fl sx_pystr (Some cut_character) 0 = Inl (UnicodeDecodeError ''utf-8'')"
      by code_simp+
    then show ?thesis by (simp add: seal_file_def)
  qed
  then show ?thesis by simp
qed



text \<open>C20. Storing a turn's events with adjacent deltas merged changes no answer: the text rebuilt from the
  stored events is the text rebuilt from the original ones, resets and restores included; every event that
  is no plain delta is stored as it was, in order; and no row is added.\<close>

theorem coalesce_preserves_answer:
  "answer_text (collect c (coalesce_text_deltas events)) = answer_text (collect c events) \<and>
   filter (\<lambda>e. \<not> is_plain_delta e) (coalesce_text_deltas events) = filter (\<lambda>e. \<not> is_plain_delta e) events \<and>
   length (coalesce_text_deltas events) \<le> length events"
  using coalesce_loop_text [of "[]" c "[]" events] coalesce_loop_others [of "[]" "[]" events]
    coalesce_loop_length [of "[]" "[]" events]
  by (simp add: coalesce_text_deltas_def)

end
