(* ===== verification/Redis_Buffer.thy ===== *)
theory Redis_Buffer
  imports File_Buffer Interleavings
begin

text \<open>
  The shared stream of a turn, \<open>RedisStreamBuffer\<close> of \<^verbatim>\<open>src/cowork/streaming/buffer.py\<close>: the replica that runs the
  turn appends, any replica reads. A stream is the list of its entries; an entry id is its position. One
  command or pipeline of the client is one step, so every interleaving of writers and readers on all replicas
  is a list of steps. An entry's fields hold a record's number, time, type and JSON data; they are kept
  decoded here (\<^verbatim>\<open>Json_Roundtrip\<close> shows that encoding and decoding agree).
\<close>

section \<open>Buffers\<close>

definition REDIS_TAIL_IDLE_TIMEOUT_SECONDS :: int where
  "REDIS_TAIL_IDLE_TIMEOUT_SECONDS = 300"

definition BLOCK_MS :: int where
  "BLOCK_MS = 5000"

text \<open>The object a replica holds: the next number, and the flags of a writer.\<close>

record redis_buffer =
  rb_next :: int
  rb_closed :: bool
  rb_finishing :: bool

definition open_redis_buffer :: redis_buffer where
  "open_redis_buffer = \<lparr>rb_next = 0, rb_closed = False, rb_finishing = False\<rparr>"

text \<open>\<open>append\<close>: the number is taken before the write, so a failed write leaves a gap. The state is the object and
  the stream.\<close>

definition redis_append ::
  "string \<Rightarrow> bool \<Rightarrow> string \<Rightarrow> payload \<Rightarrow> (redis_buffer \<times> turn_record list, int) comp" where
  "redis_append ts fails ty data = (\<lambda>(b, es).
     (case is_final_client_frame ty data of
        Inl e \<Rightarrow> (Inl e, (b, es))
      | Inr final \<Rightarrow>
          let seq = rb_next b;
              b' = b\<lparr>rb_finishing := rb_finishing b \<or> final, rb_next := seq + 1\<rparr>;
              r = \<lparr>rec_seq = seq, rec_ts = ts, rec_type = ty, rec_data = data\<rparr>
          in if fails then (Inl (RuntimeError ''redis''), (b', es)) else (Inr seq, (b', es @ [r]))))"

text \<open>\<open>close\<close>: an unknown reason is a \<open>KeyError\<close>.\<close>

definition redis_close ::
  "string \<Rightarrow> bool \<Rightarrow> string \<Rightarrow> payload \<Rightarrow> (redis_buffer \<times> turn_record list, unit) comp" where
  "redis_close ts fails reason extra = (\<lambda>(b, es).
     if rb_closed b then (Inr (), (b, es))
     else (case map_of REASON_TO_TYPE reason of
        None \<Rightarrow> (Inl (KeyError reason), (b, es))
      | Some ty \<Rightarrow> sbind (redis_append ts fails ty (terminal_data reason extra))
          (\<lambda>_ (b', es'). (Inr (), (b'\<lparr>rb_closed := True\<rparr>, es'))) (b, es)))"

text \<open>\<open>refresh\<close>: what a replica that did not write the turn reads off its last entry.\<close>

definition redis_refresh :: "turn_record list \<Rightarrow> redis_buffer \<Rightarrow> redis_buffer result" where
  "redis_refresh es b =
     (if es = [] then Inr (b\<lparr>rb_next := 0, rb_closed := True\<rparr>)
      else let r = last es in
        (case is_final_client_frame (rec_type r) (rec_data r) of
           Inl e \<Rightarrow> Inl e
         | Inr final \<Rightarrow> Inr (b\<lparr>rb_next := rec_seq r + 1, rb_closed := is_terminal r, rb_finishing := final\<rparr>)))"

text \<open>\<open>clear_if_ended\<close>: the last entry is read, then the stream is deleted.\<close>

definition redis_clear_if_ended :: "turn_record list \<Rightarrow> turn_record list" where
  "redis_clear_if_ended es = (if es \<noteq> [] \<and> is_terminal (last es) then [] else es)"

section \<open>Tails\<close>

text \<open>Where a reader is: before \<open>XRANGE\<close>; with entries in hand; before \<open>XREAD\<close>; in \<open>_terminate_as_orphan\<close> before
  its first look, before its write and before its last look; or returned, ended by a terminal record or by
  the time-out; or left by a failed command.\<close>

datatype redis_phase =
    Replaying
  | Handing "turn_record list"
  | Reading
  | Orphan_Check
  | Orphan_Write
  | Orphan_Latest
  | Ended
  | Gave_Up
  | Failed_Tail error

record redis_tail =
  rt_buffer :: nat
  rt_from :: int
  rt_phase :: redis_phase
  rt_last :: nat
  rt_idle :: int
  rt_out :: "turn_record list"

definition open_redis_tail :: "nat \<Rightarrow> int \<Rightarrow> redis_tail" where
  "open_redis_tail i from_seq =
     \<lparr>rt_buffer = i, rt_from = from_seq, rt_phase = Replaying, rt_last = 0, rt_idle = 0, rt_out = []\<rparr>"

text \<open>An entry in hand: skipped below the offset, otherwise yielded; a terminal record ends the tail.\<close>

definition hand_entry :: "turn_record \<Rightarrow> turn_record list \<Rightarrow> redis_tail \<Rightarrow> redis_tail" where
  "hand_entry r rs t =
     (let t' = t\<lparr>rt_last := Suc (rt_last t)\<rparr> in
      if rec_seq r < rt_from t then t'\<lparr>rt_phase := Handing rs\<rparr>
      else t'\<lparr>rt_out := rt_out t @ [r], rt_phase := (if is_terminal r then Ended else Handing rs)\<rparr>)"

text \<open>\<open>XREAD\<close> from the last entry seen, or its time-out of five seconds.\<close>

definition read_entries :: "turn_record list \<Rightarrow> redis_tail \<Rightarrow> redis_tail" where
  "read_entries es t = (case drop (rt_last t) es of
     [] \<Rightarrow> let idle = rt_idle t + BLOCK_MS in
       t\<lparr>rt_idle := idle,
         rt_phase := (if REDIS_TAIL_IDLE_TIMEOUT_SECONDS * 1000 \<le> idle then Orphan_Check else Reading)\<rparr>
   | r # rs \<Rightarrow> t\<lparr>rt_idle := 0, rt_phase := Handing (r # rs)\<rparr>)"

definition orphan_extra :: payload where
  "orphan_extra = [(''error'', JStr ''the worker running this turn stopped responding'')]"

text \<open>The three commands of \<open>_terminate_as_orphan\<close>, on the tail, its buffer object and the stream.\<close>

definition orphan_check ::
  "redis_tail \<times> redis_buffer \<times> turn_record list \<Rightarrow> redis_tail \<times> redis_buffer \<times> turn_record list" where
  "orphan_check = (\<lambda>(t, b, es).
     if es \<noteq> [] \<and> is_terminal (last es) then (t\<lparr>rt_out := rt_out t @ [last es], rt_phase := Gave_Up\<rparr>, b, es)
     else (t\<lparr>rt_phase := Orphan_Write\<rparr>,
           b\<lparr>rb_next := (if es = [] then 0 else rec_seq (last es) + 1), rb_closed := False\<rparr>, es))"

definition orphan_write ::
  "string \<Rightarrow> bool \<Rightarrow> redis_tail \<times> redis_buffer \<times> turn_record list \<Rightarrow> redis_tail \<times> redis_buffer \<times> turn_record list" where
  "orphan_write ts fails = (\<lambda>(t, b, es).
     (case redis_close ts fails ''interrupted'' orphan_extra (b, es) of
        (Inl e, be) \<Rightarrow> (t\<lparr>rt_phase := Failed_Tail e\<rparr>, be)
      | (Inr _, be) \<Rightarrow> (t\<lparr>rt_phase := Orphan_Latest\<rparr>, be)))"

definition orphan_latest :: "turn_record list \<Rightarrow> redis_tail \<Rightarrow> redis_tail" where
  "orphan_latest es t = t\<lparr>rt_out := (if es = [] then rt_out t else rt_out t @ [last es]), rt_phase := Gave_Up\<rparr>"

text \<open>One step of a tail; a command that fails ends it.\<close>

definition redis_tail_step ::
  "string \<Rightarrow> bool \<Rightarrow> redis_tail \<times> redis_buffer \<times> turn_record list \<Rightarrow> redis_tail \<times> redis_buffer \<times> turn_record list" where
  "redis_tail_step ts fails = (\<lambda>(t, b, es). case rt_phase t of
     Handing [] \<Rightarrow> (t\<lparr>rt_phase := Reading\<rparr>, b, es)
   | Handing (r # rs) \<Rightarrow> (hand_entry r rs t, b, es)
   | Orphan_Write \<Rightarrow> orphan_write ts fails (t, b, es)
   | Ended \<Rightarrow> (t, b, es)
   | Gave_Up \<Rightarrow> (t, b, es)
   | Failed_Tail e \<Rightarrow> (t, b, es)
   | p \<Rightarrow>
       if fails then (t\<lparr>rt_phase := Failed_Tail (RuntimeError ''redis'')\<rparr>, b, es)
       else (case p of
          Replaying \<Rightarrow> (t\<lparr>rt_phase := Handing es\<rparr>, b, es)
        | Reading \<Rightarrow> (read_entries es t, b, es)
        | Orphan_Check \<Rightarrow> orphan_check (t, b, es)
        | _ \<Rightarrow> (orphan_latest es t, b, es)))"

section \<open>Replicas\<close>

record redis_state =
  rs_entries :: "turn_record list"
  rs_buffers :: "(nat \<times> redis_buffer) list"
  rs_tails :: "(nat \<times> redis_tail) list"

datatype redis_event =
    R_Open nat
  | R_Append nat string bool string payload
  | R_Close nat string bool string payload
  | R_Refresh nat
  | R_Open_Tail nat nat int
  | R_Tail nat string bool

definition write_back :: "nat \<Rightarrow> redis_buffer \<times> turn_record list \<Rightarrow> redis_state \<Rightarrow> redis_state" where
  "write_back i be s = s\<lparr>rs_buffers := al_put i (fst be) (rs_buffers s), rs_entries := snd be\<rparr>"

text \<open>What a call of a buffer object does to the shared state.\<close>

definition on_buffer ::
  "nat \<Rightarrow> (redis_buffer \<times> turn_record list \<Rightarrow> redis_buffer \<times> turn_record list) \<Rightarrow> redis_state \<Rightarrow> redis_state" where
  "on_buffer i f s = (case map_of (rs_buffers s) i of None \<Rightarrow> s | Some b \<Rightarrow> write_back i (f (b, rs_entries s)) s)"

fun redis_step :: "redis_event \<Rightarrow> redis_state \<Rightarrow> redis_state" where
  "redis_step (R_Open i) s = s\<lparr>rs_buffers := al_put i open_redis_buffer (rs_buffers s)\<rparr>"
| "redis_step (R_Append i ts fails ty data) s = on_buffer i (snd \<circ> redis_append ts fails ty data) s"
| "redis_step (R_Close i ts fails reason extra) s = on_buffer i (snd \<circ> redis_close ts fails reason extra) s"
| "redis_step (R_Refresh i) s = on_buffer i (\<lambda>(b, es). (case redis_refresh es b of Inl _ \<Rightarrow> b | Inr b' \<Rightarrow> b', es)) s"
| "redis_step (R_Open_Tail j i from_seq) s = s\<lparr>rs_tails := al_put j (open_redis_tail i from_seq) (rs_tails s)\<rparr>"
| "redis_step (R_Tail j ts fails) s = (case map_of (rs_tails s) j of None \<Rightarrow> s
     | Some t \<Rightarrow> (case map_of (rs_buffers s) (rt_buffer t) of None \<Rightarrow> s
         | Some b \<Rightarrow> (case redis_tail_step ts fails (t, b, rs_entries s) of
             (t', be) \<Rightarrow> write_back (rt_buffer t) be (s\<lparr>rs_tails := al_put j t' (rs_tails s)\<rparr>))))"

fun redis_run :: "redis_event list \<Rightarrow> redis_state \<Rightarrow> redis_state" where
  "redis_run [] s = s"
| "redis_run (e # es) s = redis_run es (redis_step e s)"

definition new_stream :: redis_state where
  "new_stream = \<lparr>rs_entries = [], rs_buffers = [], rs_tails = []\<rparr>"

section \<open>The stream only grows\<close>

lemma redis_append_grows: "\<exists>new. snd (snd (redis_append ts fails ty data (b, es))) = es @ new"
  by (simp add: redis_append_def Let_def split: sum.split)

lemma redis_close_grows: "\<exists>new. snd (snd (redis_close ts fails reason extra (b, es))) = es @ new"
proof (cases "rb_closed b \<or> map_of REASON_TO_TYPE reason = None")
  case True
  then show ?thesis by (auto simp: redis_close_def split: option.split)
next
  case False
  then obtain ty where ty: "\<not> rb_closed b" "map_of REASON_TO_TYPE reason = Some ty" by auto
  show ?thesis using redis_append_grows [of ts fails ty "terminal_data reason extra" b es] ty
    by (auto simp: redis_close_def sbind_def split: prod.splits sum.splits)
qed

lemma redis_tail_step_grows: "\<exists>new. snd (snd (redis_tail_step ts fails (t, b, es))) = es @ new"
  using redis_close_grows [of ts fails "''interrupted''" orphan_extra b es]
  by (auto simp: redis_tail_step_def orphan_check_def orphan_write_def
      split: redis_phase.split list.split prod.splits sum.splits)

section \<open>What a tail has delivered\<close>

text \<open>The records from an offset among the first entries.\<close>

definition wanted_entries :: "int \<Rightarrow> nat \<Rightarrow> turn_record list \<Rightarrow> turn_record list" where
  "wanted_entries from_seq n es = filter (\<lambda>r. from_seq \<le> rec_seq r) (take n es)"

definition no_terminal :: "turn_record list \<Rightarrow> bool" where
  "no_terminal rs \<longleftrightarrow> list_all (\<lambda>r. \<not> is_terminal r) rs"

definition delivered_so_far :: "turn_record list \<Rightarrow> redis_tail \<Rightarrow> bool" where
  "delivered_so_far es t \<longleftrightarrow> rt_last t \<le> length es \<and> (let w = wanted_entries (rt_from t) (rt_last t) es in case rt_phase t of
     Replaying \<Rightarrow> rt_last t = 0 \<and> rt_out t = []
   | Handing rs \<Rightarrow> rt_out t = w \<and> no_terminal w \<and> (\<exists>later. drop (rt_last t) es = rs @ later)
   | Ended \<Rightarrow> rt_out t = w \<and> (\<exists>pre r. w = pre @ [r] \<and> is_terminal r \<and> no_terminal pre)
   | Gave_Up \<Rightarrow> no_terminal w \<and> (\<exists>extra. rt_out t = w @ extra \<and> length extra \<le> 1 \<and> set extra \<subseteq> set es)
   | _ \<Rightarrow> rt_out t = w \<and> no_terminal w)"

lemmas delivered_defs = delivered_so_far_def Let_def

lemma wanted_entries_0 [simp]: "wanted_entries from_seq 0 es = []"
  by (simp add: wanted_entries_def)

lemma wanted_entries_append [simp]: "n \<le> length es \<Longrightarrow> wanted_entries from_seq n (es @ new) = wanted_entries from_seq n es"
  by (simp add: wanted_entries_def)

lemma wanted_entries_Suc:
  assumes "drop n es = r # rs"
  shows "wanted_entries from_seq (Suc n) es = wanted_entries from_seq n es @ (if rec_seq r < from_seq then [] else [r])"
proof -
  have "n < length es" using assms by (metis drop_eq_Nil leI list.distinct(1))
  moreover have "es ! n = r" using assms by (metis nth_via_drop)
  ultimately show ?thesis by (simp add: wanted_entries_def take_Suc_conv_app_nth)
qed

lemma no_terminal_simps [simp]:
  "no_terminal []" "no_terminal (xs @ ys) \<longleftrightarrow> no_terminal xs \<and> no_terminal ys" "no_terminal [r] \<longleftrightarrow> \<not> is_terminal r"
  by (simp_all add: no_terminal_def)

lemma delivered_open: "delivered_so_far es (open_redis_tail i from_seq)"
  by (simp add: delivered_defs open_redis_tail_def)

lemma delivered_grows:
  assumes "delivered_so_far es t"
  shows "delivered_so_far (es @ new) t"
proof -
  have n: "rt_last t \<le> length es" using assms by (simp add: delivered_defs)
  show ?thesis
  proof (cases "rt_phase t")
    case (Handing rs)
    then obtain later where "drop (rt_last t) es = rs @ later" using assms by (auto simp: delivered_defs)
    then have "drop (rt_last t) (es @ new) = rs @ (later @ new)" using n by simp
    then show ?thesis using assms Handing n unfolding delivered_defs by auto
  qed (use assms n in \<open>auto simp: delivered_defs\<close>)
qed

lemma delivered_hand:
  assumes "delivered_so_far es t" "rt_phase t = Handing (r # rs)"
  shows "delivered_so_far es (hand_entry r rs t)"
proof -
  obtain later where later: "drop (rt_last t) es = r # (rs @ later)" using assms by (auto simp: delivered_defs)
  have n: "Suc (rt_last t) \<le> length es" using later by (metis drop_eq_Nil leI list.distinct(1) Suc_leI)
  have rest: "drop (Suc (rt_last t)) es = rs @ later" using later by (metis drop_Suc list.sel(3) tl_drop)
  have w: "rt_out t = wanted_entries (rt_from t) (rt_last t) es" "no_terminal (wanted_entries (rt_from t) (rt_last t) es)"
    using assms by (simp_all add: delivered_defs)
  show ?thesis using n rest w by (auto simp: delivered_defs hand_entry_def wanted_entries_Suc [OF later])
qed

lemma delivered_read:
  assumes "delivered_so_far es t" "rt_phase t = Reading"
  shows "delivered_so_far es (read_entries es t)"
  using assms by (simp add: delivered_defs read_entries_def split: list.split)

lemma delivered_gave_up:
  assumes "delivered_so_far es t" "rt_phase t \<in> {Orphan_Check, Orphan_Latest}" "set extra \<subseteq> set es" "length extra \<le> 1"
  shows "delivered_so_far es (t\<lparr>rt_out := rt_out t @ extra, rt_phase := Gave_Up\<rparr>)"
  using assms by (auto simp: delivered_defs)

lemma delivered_phase:
  assumes "delivered_so_far es t" "rt_phase t \<in> {Replaying, Reading, Orphan_Check, Orphan_Write, Orphan_Latest}"
    "p \<in> {Orphan_Write, Orphan_Latest, Failed_Tail e}"
  shows "delivered_so_far es (t\<lparr>rt_phase := p\<rparr>)"
  using assms by (auto simp: delivered_defs)

lemma delivered_write:
  assumes "delivered_so_far es t" "rt_phase t = Orphan_Write" "orphan_write ts fails (t, b, es) = (t', b', es')"
  shows "delivered_so_far es' t'"
proof -
  obtain r bc esc where c: "redis_close ts fails ''interrupted'' orphan_extra (b, es) = (r, bc, esc)"
    by (metis prod_cases3)
  then obtain new where new: "esc = es @ new"
    using redis_close_grows [of ts fails "''interrupted''" orphan_extra b es] by auto
  have "es' = es @ new" "\<exists>e. t' = t\<lparr>rt_phase := Failed_Tail e\<rparr> \<or> t' = t\<lparr>rt_phase := Orphan_Latest\<rparr>"
    using assms(3) c new by (auto simp: orphan_write_def split: sum.splits)
  moreover have "delivered_so_far es (t\<lparr>rt_phase := Failed_Tail e\<rparr>)" "delivered_so_far es (t\<lparr>rt_phase := Orphan_Latest\<rparr>)" for e
    using delivered_phase [OF assms(1)] assms(2) by simp_all
  ultimately show ?thesis using delivered_grows by metis
qed

lemma delivered_step:
  assumes d: "delivered_so_far es t" and s: "redis_tail_step ts fails (t, b, es) = (t', b', es')"
  shows "delivered_so_far es' t'"
proof (cases "rt_phase t")
  case Replaying
  then show ?thesis using d s delivered_phase [OF d]
    by (auto simp: redis_tail_step_def delivered_defs split: if_splits)
next
  case (Handing rs)
  then show ?thesis using d s delivered_hand [OF d]
    by (cases rs) (auto simp: redis_tail_step_def delivered_defs)
next
  case Reading
  then show ?thesis using s delivered_read [OF d] delivered_phase [OF d]
    by (auto simp: redis_tail_step_def split: if_splits)
next
  case Orphan_Check
  then show ?thesis using s delivered_gave_up [OF d, of "[last es]"] delivered_phase [OF d]
    by (auto simp: redis_tail_step_def orphan_check_def split: if_splits)
next
  case Orphan_Write
  then show ?thesis using s delivered_write [OF d] by (simp add: redis_tail_step_def)
next
  case Orphan_Latest
  then show ?thesis using s delivered_gave_up [OF d, of "if es = [] then [] else [last es]"] delivered_phase [OF d]
    by (auto simp: redis_tail_step_def orphan_latest_def split: if_splits)
qed (use d s in \<open>simp_all add: redis_tail_step_def\<close>)

definition all_delivered :: "redis_state \<Rightarrow> bool" where
  "all_delivered s \<longleftrightarrow> (\<forall>j t. map_of (rs_tails s) j = Some t \<longrightarrow> delivered_so_far (rs_entries s) t)"

lemma all_delivered_buffer:
  assumes "all_delivered s" "\<And>b. \<exists>new. snd (f (b, rs_entries s)) = rs_entries s @ new"
  shows "all_delivered (on_buffer i f s)"
proof (cases "map_of (rs_buffers s) i")
  case None
  then show ?thesis using assms(1) by (simp add: on_buffer_def)
next
  case (Some b)
  obtain new where "snd (f (b, rs_entries s)) = rs_entries s @ new" using assms(2) by blast
  then show ?thesis using Some assms(1) delivered_grows
    by (simp add: on_buffer_def write_back_def all_delivered_def)
qed

lemma all_delivered_tail:
  assumes inv: "all_delivered s" and t: "map_of (rs_tails s) j = Some t"
    and r: "redis_tail_step ts fails (t, b, rs_entries s) = (t', be)"
  shows "all_delivered (write_back i be (s\<lparr>rs_tails := al_put j t' (rs_tails s)\<rparr>))"
proof -
  obtain b' es' where be: "be = (b', es')" by fastforce
  obtain new where new: "es' = rs_entries s @ new"
    using redis_tail_step_grows [of ts fails t b "rs_entries s"] r be by auto
  have "delivered_so_far es' t'" using inv t delivered_step r be unfolding all_delivered_def by blast
  moreover have "delivered_so_far es' u" if "map_of (rs_tails s) k = Some u" for k u
    using inv that new delivered_grows unfolding all_delivered_def by blast
  ultimately show ?thesis by (simp add: all_delivered_def write_back_def be)
qed

lemma all_delivered_step: "all_delivered s \<Longrightarrow> all_delivered (redis_step e s)"
proof (induction e s rule: redis_step.induct)
  case (1 i s)
  then show ?case by (simp add: all_delivered_def)
next
  case (2 i ts fails ty data s)
  then show ?case using redis_append_grows by (simp add: all_delivered_buffer)
next
  case (3 i ts fails reason extra s)
  then show ?case using redis_close_grows by (simp add: all_delivered_buffer)
next
  case (4 i s)
  then show ?case by (simp add: all_delivered_buffer)
next
  case (5 j i fr s)
  then show ?case by (simp add: all_delivered_def delivered_open)
next
  case (6 j ts fails s)
  then show ?case using all_delivered_tail [OF 6] by (simp split: option.split prod.split)
qed

interpretation streams: machine redis_step redis_run
  by unfold_locales simp_all

lemma all_delivered_run: "all_delivered s \<Longrightarrow> all_delivered (redis_run es s)"
  by (rule streams.run_keeps [where P = all_delivered, OF all_delivered_step])

lemma all_delivered_new: "all_delivered new_stream"
  by (simp add: all_delivered_def new_stream_def)

section \<open>A tail returns\<close>

text \<open>A bound on the steps a tail still makes when nobody else writes.\<close>

definition steps_left :: "turn_record list \<Rightarrow> redis_tail \<Rightarrow> nat" where
  "steps_left es t = (let rem = length es - rt_last t in case rt_phase t of
     Replaying \<Rightarrow> 72 + 3 * length es
   | Handing [] \<Rightarrow> 71 + 3 * rem
   | Handing (_ # _) \<Rightarrow> 69 + 3 * rem
   | Reading \<Rightarrow> (if rem = 0 then 4 + nat (60 - rt_idle t div BLOCK_MS) else 70 + 3 * rem)
   | Orphan_Check \<Rightarrow> 3
   | Orphan_Write \<Rightarrow> 2
   | Orphan_Latest \<Rightarrow> 1
   | _ \<Rightarrow> 0)"

fun own_steps :: "string \<Rightarrow> nat \<Rightarrow> redis_tail \<times> redis_buffer \<times> turn_record list \<Rightarrow>
    redis_tail \<times> redis_buffer \<times> turn_record list" where
  "own_steps ts 0 x = x"
| "own_steps ts (Suc n) x = own_steps ts n (redis_tail_step ts False x)"

text \<open>What holds of a tail that runs alone: it is within its time, it knows what it is about to write, and when it
  has returned it ended with a terminal record.\<close>

definition alone :: "redis_tail \<times> redis_buffer \<times> turn_record list \<Rightarrow> bool" where
  "alone = (\<lambda>(t, b, es). delivered_so_far es t \<and> (case rt_phase t of
     Orphan_Write \<Rightarrow> \<not> rb_closed b
   | Orphan_Latest \<Rightarrow> es \<noteq> [] \<and> is_terminal (last es)
   | Gave_Up \<Rightarrow> rt_out t \<noteq> [] \<and> is_terminal (last (rt_out t))
   | Failed_Tail _ \<Rightarrow> False
   | Reading \<Rightarrow> 0 \<le> rt_idle t \<and> rt_idle t < 300000 \<and> BLOCK_MS dvd rt_idle t
   | Handing _ \<Rightarrow> 0 \<le> rt_idle t \<and> rt_idle t < 300000 \<and> BLOCK_MS dvd rt_idle t
   | Replaying \<Rightarrow> rt_idle t = 0
   | _ \<Rightarrow> True))"

definition returned :: "redis_tail \<Rightarrow> bool" where
  "returned t \<longleftrightarrow> rt_phase t \<in> {Ended, Gave_Up}"

lemma orphan_close:
  assumes "\<not> rb_closed b"
  shows "\<exists>b' r. redis_close ts False ''interrupted'' orphan_extra (b, es) = (Inr (), b', es @ [r]) \<and> is_terminal r"
  using assms by (simp add: redis_close_def redis_append_def REASON_TO_TYPE_def is_final_client_frame_def sbind_def
      is_terminal_def TERMINAL_TYPES_def Let_def)

lemma delivered_prefix:
  assumes "delivered_so_far es t"
  shows "\<exists>n extra. n \<le> length es \<and> rt_out t = wanted_entries (rt_from t) n es @ extra \<and> length extra \<le> 1 \<and>
    set extra \<subseteq> set es \<and> no_terminal (butlast (rt_out t)) \<and> (extra = [] \<or> rt_phase t = Gave_Up) \<and>
    (rt_phase t = Ended \<longrightarrow> rt_out t \<noteq> [] \<and> is_terminal (last (rt_out t)))"
proof -
  have last: "no_terminal w \<Longrightarrow> length extra \<le> 1 \<Longrightarrow> no_terminal (butlast (w @ extra))" for w extra
    by (cases extra rule: rev_cases) (auto simp: no_terminal_def list_all_iff dest: in_set_butlastD)
  show ?thesis
  proof (cases "rt_phase t")
    case Gave_Up
    then show ?thesis using assms last by (fastforce simp: delivered_defs)
  next
    case Ended
    then show ?thesis using assms last [of _ "[_]"] by (intro exI [of _ "rt_last t"] exI [of _ "[]"]) (auto simp: delivered_defs)
  qed (use assms last [of _ "[]"] in \<open>auto simp: delivered_defs intro!: exI [of _ "rt_last t"] exI [of _ "[]"]\<close>)
qed

lemma alone_step:
  assumes "alone (t, b, es)"
  shows "alone (redis_tail_step ts False (t, b, es))"
proof -
  obtain t' b' es' where r: "redis_tail_step ts False (t, b, es) = (t', b', es')" by (metis prod_cases3)
  have d: "delivered_so_far es' t'" using assms r delivered_step unfolding alone_def by blast
  show ?thesis
  proof (cases "rt_phase t")
    case (Handing rs)
    then show ?thesis using assms r d
      by (cases rs) (auto simp: alone_def redis_tail_step_def hand_entry_def Let_def split: if_splits)
  next
    case Reading
    then show ?thesis using assms r d
      by (auto simp: alone_def redis_tail_step_def read_entries_def Let_def BLOCK_MS_def
          REDIS_TAIL_IDLE_TIMEOUT_SECONDS_def split: list.split)
  next
    case Orphan_Write
    then obtain b'' x where "redis_close ts False ''interrupted'' orphan_extra (b, es) = (Inr (), b'', es @ [x])" "is_terminal x"
      using orphan_close [of b ts es] assms by (auto simp: alone_def)
    then show ?thesis using Orphan_Write r d by (auto simp: alone_def redis_tail_step_def orphan_write_def)
  qed (use assms r d in \<open>auto simp: alone_def redis_tail_step_def orphan_check_def orphan_latest_def split: if_splits\<close>)
qed

lemma steps_left_read:
  assumes "rt_phase t = Reading" "rt_last t \<le> length es" "0 \<le> rt_idle t" "rt_idle t < 300000" "BLOCK_MS dvd rt_idle t"
  shows "steps_left es (read_entries es t) < steps_left es t"
proof -
  have "rt_idle t div 5000 < 60" using assms(4) by simp
  then show ?thesis using assms
    by (auto simp: steps_left_def read_entries_def Let_def BLOCK_MS_def REDIS_TAIL_IDLE_TIMEOUT_SECONDS_def
        split: list.split)
qed

lemma steps_left_hand:
  assumes "rt_phase t = Handing (r # rs)" "drop (rt_last t) es = r # later"
  shows "steps_left es (hand_entry r rs t) < steps_left es t"
proof -
  have "rt_last t < length es" using assms(2) by (metis drop_eq_Nil leI list.distinct(1))
  then show ?thesis using assms(1) by (auto simp: steps_left_def hand_entry_def Let_def split: list.split)
qed

lemma steps_left_step:
  assumes a: "alone (t, b, es)" and n: "\<not> returned t" and r: "redis_tail_step ts False (t, b, es) = (t', b', es')"
  shows "steps_left es' t' < steps_left es t"
proof (cases "rt_phase t")
  case (Handing rs)
  then obtain later where "drop (rt_last t) es = rs @ later" "rt_last t \<le> length es" "0 \<le> rt_idle t"
    using a by (auto simp: alone_def delivered_defs)
  note d = this
  show ?thesis
  proof (cases rs)
    case Nil
    then show ?thesis using Handing r d(2,3) by (auto simp: redis_tail_step_def steps_left_def Let_def BLOCK_MS_def)
  next
    case (Cons x xs)
    then show ?thesis using Handing r d(1) steps_left_hand [of t x xs es "xs @ later"]
      by (simp add: redis_tail_step_def)
  qed
next
  case Reading
  then show ?thesis using a r steps_left_read [of t es] by (auto simp: alone_def redis_tail_step_def delivered_defs)
next
  case Replaying
  then show ?thesis using a r by (auto simp: redis_tail_step_def steps_left_def Let_def alone_def delivered_defs split: list.split)
qed (use a n r in \<open>auto simp: alone_def returned_def redis_tail_step_def orphan_check_def orphan_latest_def
    orphan_write_def steps_left_def split: if_splits sum.splits prod.splits\<close>)

lemma alone_open: "alone (open_redis_tail i from_seq, b, es)"
  by (simp add: alone_def delivered_open) (simp add: open_redis_tail_def)

lemma alone_returned: "alone (t, b, es) \<Longrightarrow> returned t \<Longrightarrow> rt_out t \<noteq> [] \<and> is_terminal (last (rt_out t))"
  by (auto simp: alone_def returned_def delivered_defs)

lemma own_steps_return:
  "alone (t, b, es) \<Longrightarrow> \<exists>n \<le> steps_left es t. \<exists>t' b' es'. own_steps ts n (t, b, es) = (t', b', es') \<and>
     returned t' \<and> alone (t', b', es')"
proof (induction "steps_left es t" arbitrary: t b es rule: less_induct)
  case less
  show ?case
  proof (cases "returned t")
    case True
    then show ?thesis using less.prems by (intro exI [of _ 0]) simp
  next
    case False
    obtain t' b' es' where r: "redis_tail_step ts False (t, b, es) = (t', b', es')" by (metis prod_cases3)
    have lt: "steps_left es' t' < steps_left es t" by (rule steps_left_step [OF less.prems False r])
    have "alone (t', b', es')" using alone_step [OF less.prems, of ts] r by simp
    then obtain n t2 b2 es2 where n: "n \<le> steps_left es' t'" "own_steps ts n (t', b', es') = (t2, b2, es2)"
      "returned t2" "alone (t2, b2, es2)" using less.hyps [OF lt] by blast
    then have "Suc n \<le> steps_left es t" "own_steps ts (Suc n) (t, b, es) = (t2, b2, es2)" using lt r by auto
    then show ?thesis using n(3,4) by blast
  qed
qed

end
