(* ===== verification/Redis_Claims.thy ===== *)
theory Redis_Claims
  imports Redis_Buffer
begin

text \<open>The properties of the shared stream of a turn.\<close>

text \<open>A turn with two records and its terminal one; a reader joins after the first record, from number 1.\<close>

definition rx_turn :: "redis_event list" where
  "rx_turn = [R_Open 0, R_Append 0 ''t'' False ''a'' [], R_Open 1, R_Open_Tail 0 1 1, R_Tail 0 ''t'' False,
     R_Append 0 ''t'' False ''b'' [], R_Tail 0 ''t'' False, R_Tail 0 ''t'' False, R_Tail 0 ''t'' False,
     R_Close 0 ''t'' False ''completed'' [], R_Tail 0 ''t'' False, R_Tail 0 ''t'' False, R_Tail 0 ''t'' False,
     R_Tail 0 ''t'' False]"


text \<open>C32. A reader of the shared stream misses nothing and repeats nothing. For every interleaving of writers and
  readers on all replicas, with failing commands, what a reader got is the entries from its offset among a
  first part of the stream, in order, with no terminal record before the last; only a reader that gave up
  on a silent turn got one more record of the stream after them. A reader that ended otherwise got the
  terminal record.\<close>

theorem redis_tail_exact:
  assumes "map_of (rs_tails (redis_run evs new_stream)) j = Some t"
  shows "\<exists>n extra. n \<le> length (rs_entries (redis_run evs new_stream)) \<and>
    rt_out t = wanted_entries (rt_from t) n (rs_entries (redis_run evs new_stream)) @ extra \<and>
    length extra \<le> 1 \<and> set extra \<subseteq> set (rs_entries (redis_run evs new_stream)) \<and> no_terminal (butlast (rt_out t)) \<and>
    (extra = [] \<or> rt_phase t = Gave_Up) \<and>
    (rt_phase t = Ended \<longrightarrow> rt_out t \<noteq> [] \<and> is_terminal (last (rt_out t)))"
proof -
  have "delivered_so_far (rs_entries (redis_run evs new_stream)) t"
    using all_delivered_run [OF all_delivered_new] assms unfolding all_delivered_def by blast
  then show ?thesis by (rule delivered_prefix)
qed

theorem redis_tail_exact_witness:
  "\<exists>n extra. map rec_seq (wanted_entries 1 n (rs_entries (redis_run rx_turn new_stream)) @ extra) = [1, 2] \<and> length extra \<le> 1"
proof -
  have "map_of (rs_tails (redis_run rx_turn new_stream)) 0 = Some (snd (hd (rs_tails (redis_run rx_turn new_stream))))"
    "rt_from (snd (hd (rs_tails (redis_run rx_turn new_stream)))) = 1"
    "map rec_seq (rt_out (snd (hd (rs_tails (redis_run rx_turn new_stream))))) = [1, 2]" by code_simp+
  then show ?thesis using redis_tail_exact by metis
qed

text \<open>C33. A reader returns. On a stream that nobody writes any more, whatever it holds, a reader that starts
  now returns after a bounded number of its own steps, the time-out of five minutes included, and the last
  record it hands out is a terminal one.\<close>

theorem redis_tail_returns:
  "\<exists>n t b' es'. n \<le> 72 + 3 * length es \<and> own_steps ts n (open_redis_tail i from_seq, b, es) = (t, b', es') \<and>
     rt_phase t \<in> {Ended, Gave_Up} \<and> rt_out t \<noteq> [] \<and> is_terminal (last (rt_out t))"
proof -
  have "steps_left es (open_redis_tail i from_seq) = 72 + 3 * length es"
    by (simp add: steps_left_def open_redis_tail_def)
  then show ?thesis using own_steps_return [OF alone_open [of i from_seq b es], of ts] alone_returned
    by (metis returned_def)
qed


end
