(* ===== verification/Run_Registry.thy ===== *)
theory Run_Registry
  imports Cowork_Prelude Interleavings
begin

text \<open>
  The turns a server runs: \<open>RunRegistry\<close>, \<open>RunHandle\<close> and \<open>TurnLifecycle\<close> of \<^verbatim>\<open>src/cowork/streaming/registry.py\<close> and
  the cancellation of a captured run in \<^verbatim>\<open>src/cowork/streaming/cancellation.py\<close>. The event loop runs one coroutine
  at a time and changes only at an \<open>await\<close>: a step below is what runs between two of them, so every
  interleaving of starts, turns, cancellations, deletes and the shutdown is a list of steps. What a producer
  and the outside decide (when a buffer opens, a task ends, a clock reads) comes with the step.
\<close>

section \<open>Turns\<close>

text \<open>A handle with its lifecycle, its task and what the registry reads of its buffer. \<open>tn_cancelled\<close> says that
  \<open>task.cancel()\<close> was called.\<close>

record turn =
  tn_cid :: string
  tn_id :: int
  tn_remote :: bool
  tn_created :: int
  tn_done :: bool
  tn_closed :: bool
  tn_finishing :: bool
  tn_saved :: bool
  tn_discarded :: bool
  tn_shutting_down :: bool
  tn_frame_deadline :: "int option"
  tn_timed_out :: bool
  tn_stalled :: bool
  tn_cancel_requested :: bool
  tn_cancelled :: bool

definition new_turn :: "string \<Rightarrow> int \<Rightarrow> bool \<Rightarrow> int \<Rightarrow> turn" where
  "new_turn cid n remote now = \<lparr>tn_cid = cid, tn_id = n, tn_remote = remote, tn_created = now, tn_done = False,
     tn_closed = False, tn_finishing = False, tn_saved = False, tn_discarded = False, tn_shutting_down = False,
     tn_frame_deadline = None, tn_timed_out = False, tn_stalled = False, tn_cancel_requested = False,
     tn_cancelled = False\<rparr>"

definition is_running :: "turn \<Rightarrow> bool" where
  "is_running t \<longleftrightarrow> \<not> tn_done t"

definition is_answering :: "turn \<Rightarrow> bool" where
  "is_answering t \<longleftrightarrow> is_running t \<and> \<not> tn_closed t \<and> \<not> tn_finishing t"

definition turn_request_cancel :: "turn \<Rightarrow> bool \<times> turn" where
  "turn_request_cancel t =
     (if \<not> is_running t then (False, t) else (True, t\<lparr>tn_cancel_requested := True, tn_cancelled := True\<rparr>))"

section \<open>Starts\<close>

datatype start_error =
    Turn_In_Progress int
  | Server_Shutting_Down
  | Start_Failed
  | Start_Cancelled

text \<open>Where a call of \<open>start\<close> is: waiting for the lock of its conversation, for the earlier turn's task, for its
  buffer, for the turn index, or for \<open>_forget_unstarted_run\<close> before it raises.\<close>

datatype start_phase =
    At_Lock
  | At_Earlier nat
  | At_Buffer
  | At_Publish
  | At_Forget start_error
  | Started nat
  | Refused start_error

record start_call =
  sc_cid :: string
  sc_turn :: int
  sc_remote :: bool
  sc_phase :: start_phase

text \<open>A call of \<open>cancel_run\<close> between its first check and the end of its write to the queue.\<close>

record cancel_call =
  cc_run :: nat
  cc_reason :: "string option"

text \<open>Every turn ever registered, by its run number; \<open>rg_by_cid\<close> is the registry's map. \<open>rg_index\<close> are the starts
  whose run is in the turn index, \<open>rg_shutdowns\<close> the handles each call of \<open>shutdown\<close> ends.\<close>

record registry =
  rg_turns :: "turn list"
  rg_by_cid :: "(string \<times> nat) list"
  rg_locks :: "(string \<times> nat) list"
  rg_closed :: bool
  rg_starts :: "(nat \<times> start_call) list"
  rg_index :: "nat list"
  rg_cancels :: "(nat \<times> cancel_call) list"
  rg_shutdowns :: "(nat \<times> nat list) list"

definition new_registry :: registry where
  "new_registry = \<lparr>rg_turns = [], rg_by_cid = [], rg_locks = [], rg_closed = False, rg_starts = [], rg_index = [],
     rg_cancels = [], rg_shutdowns = []\<rparr>"

definition set_phase :: "nat \<Rightarrow> start_call \<Rightarrow> start_phase \<Rightarrow> registry \<Rightarrow> registry" where
  "set_phase i c p r = r\<lparr>rg_starts := al_put i (c\<lparr>sc_phase := p\<rparr>) (rg_starts r)\<rparr>"

text \<open>The call leaves \<open>async with lock\<close>.\<close>

definition leave :: "nat \<Rightarrow> start_call \<Rightarrow> start_phase \<Rightarrow> registry \<Rightarrow> registry" where
  "leave i c p r = set_phase i c p (r\<lparr>rg_locks := al_del (sc_cid c) (rg_locks r)\<rparr>)"

definition hold :: "nat \<Rightarrow> start_call \<Rightarrow> start_phase \<Rightarrow> registry \<Rightarrow> registry" where
  "hold i c p r = set_phase i c p (r\<lparr>rg_locks := al_put (sc_cid c) i (rg_locks r)\<rparr>)"

text \<open>The checks of \<open>start\<close> once it has the lock, up to its first \<open>await\<close>.\<close>

definition start_enter :: "nat \<Rightarrow> start_call \<Rightarrow> registry \<Rightarrow> registry" where
  "start_enter i c r =
     (if rg_closed r then set_phase i c (Refused Server_Shutting_Down) r
      else (case map_of (rg_by_cid r) (sc_cid c) of
        None \<Rightarrow> hold i c At_Buffer r
      | Some k \<Rightarrow> let t = rg_turns r ! k in
          if is_answering t then set_phase i c (Refused (Turn_In_Progress (tn_id t))) r
          else if tn_saved t \<and> sc_turn c \<le> tn_id t then set_phase i c (Refused (Turn_In_Progress (tn_id t))) r
          else if is_running t \<and> \<not> tn_closed t then hold i c (At_Earlier k) r
          else hold i c At_Buffer r))"

text \<open>The last check and the registration, with no \<open>await\<close> between them.\<close>

definition start_register :: "bool \<Rightarrow> int \<Rightarrow> nat \<Rightarrow> start_call \<Rightarrow> registry \<Rightarrow> registry" where
  "start_register published now i c r =
     (if rg_closed r then
        (if published then set_phase i c (At_Forget Server_Shutting_Down) r
         else leave i c (Refused Server_Shutting_Down) r)
      else let k = length (rg_turns r) in
        leave i c (Started k) (r\<lparr>rg_turns := rg_turns r @ [new_turn (sc_cid c) (sc_turn c) (sc_remote c) now],
          rg_by_cid := al_put (sc_cid c) k (rg_by_cid r)\<rparr>))"

definition start_opened :: "bool \<Rightarrow> bool \<Rightarrow> int \<Rightarrow> nat \<Rightarrow> start_call \<Rightarrow> registry \<Rightarrow> registry" where
  "start_opened ok redis now i c r =
     (if \<not> ok then leave i c (Refused Start_Failed) r
      else if redis then set_phase i c At_Publish r
      else start_register False now i c r)"

text \<open>The write to the turn index has settled; a start that failed or was cancelled meanwhile removes its run.\<close>

definition start_published :: "bool \<Rightarrow> start_error option \<Rightarrow> int \<Rightarrow> nat \<Rightarrow> start_call \<Rightarrow> registry \<Rightarrow> registry" where
  "start_published committed err now i c r =
     (let r' = (if committed \<or> err = None then r\<lparr>rg_index := i # rg_index r\<rparr> else r) in
      case err of Some e \<Rightarrow> set_phase i c (At_Forget e) r' | None \<Rightarrow> start_register True now i c r')"

definition start_forgot :: "bool \<Rightarrow> nat \<Rightarrow> start_call \<Rightarrow> start_error \<Rightarrow> registry \<Rightarrow> registry" where
  "start_forgot ok i c e r =
     leave i c (Refused e) (if ok then r\<lparr>rg_index := removeAll i (rg_index r)\<rparr> else r)"

text \<open>The request is cancelled while \<open>start\<close> waits.\<close>

definition start_cancelled :: "nat \<Rightarrow> start_call \<Rightarrow> registry \<Rightarrow> registry" where
  "start_cancelled i c r = (case sc_phase c of
     At_Lock \<Rightarrow> set_phase i c (Refused Start_Cancelled) r
   | At_Earlier _ \<Rightarrow> leave i c (Refused Start_Cancelled) r
   | At_Buffer \<Rightarrow> leave i c (Refused Start_Cancelled) r
   | At_Forget _ \<Rightarrow> leave i c (Refused Start_Cancelled) r
   | _ \<Rightarrow> r)"

section \<open>Ending turns\<close>

definition on_turn :: "nat \<Rightarrow> (turn \<Rightarrow> turn) \<Rightarrow> registry \<Rightarrow> registry" where
  "on_turn k f r = (if k < length (rg_turns r) then r\<lparr>rg_turns := (rg_turns r)[k := f (rg_turns r ! k)]\<rparr> else r)"

definition close_registry :: "registry \<Rightarrow> registry" where
  "close_registry r = r\<lparr>rg_closed := True\<rparr>"

definition registry_get :: "string \<Rightarrow> registry \<Rightarrow> nat option" where
  "registry_get cid r = map_of (rg_by_cid r) cid"

text \<open>\<open>RunRegistry.cancel\<close> up to its wait.\<close>

definition registry_cancel :: "string \<Rightarrow> registry \<Rightarrow> bool \<times> registry" where
  "registry_cancel cid r = (case registry_get cid r of None \<Rightarrow> (False, r)
     | Some k \<Rightarrow> (fst (turn_request_cancel (rg_turns r ! k)), on_turn k (snd \<circ> turn_request_cancel) r))"

definition in_flight :: "registry \<Rightarrow> nat list" where
  "in_flight r = filter (\<lambda>k. is_running (rg_turns r ! k)) (map snd (rg_by_cid r))"

definition discard_turn :: "turn \<Rightarrow> turn" where
  "discard_turn t = (if tn_done t then t\<lparr>tn_discarded := True\<rparr> else t\<lparr>tn_discarded := True, tn_cancelled := True\<rparr>)"

definition registry_discard :: "string \<Rightarrow> registry \<Rightarrow> registry" where
  "registry_discard cid r = (case map_of (rg_by_cid r) cid of None \<Rightarrow> r
     | Some k \<Rightarrow> on_turn k discard_turn (r\<lparr>rg_by_cid := al_del cid (rg_by_cid r)\<rparr>))"

definition gc_finished :: "int \<Rightarrow> int \<Rightarrow> registry \<Rightarrow> registry" where
  "gc_finished max_age now r = r\<lparr>rg_by_cid := filter (\<lambda>(cid, k). is_running (rg_turns r ! k) \<or>
     now - tn_created (rg_turns r ! k) \<le> max_age) (rg_by_cid r)\<rparr>"

text \<open>\<open>shutdown\<close>: the running turns not marked yet are marked, with their frame deadline, then cancelled after the
  controller's flags are written, and those that ended with an open stream are sealed.\<close>

definition SHUTDOWN_FRAME_SECONDS_PAST_GRACE :: int where
  "SHUTDOWN_FRAME_SECONDS_PAST_GRACE = 1"

definition mark_shutting_down :: "int \<Rightarrow> turn \<Rightarrow> turn" where
  "mark_shutting_down deadline t = t\<lparr>tn_shutting_down := True,
     tn_frame_deadline := Some (deadline + SHUTDOWN_FRAME_SECONDS_PAST_GRACE)\<rparr>"

definition shutdown_mark :: "nat \<Rightarrow> int \<Rightarrow> int \<Rightarrow> registry \<Rightarrow> registry" where
  "shutdown_mark s timeout now r =
     (let handles = filter (\<lambda>k. \<not> tn_shutting_down (rg_turns r ! k)) (in_flight r) in
      if handles = [] then r
      else fold (\<lambda>k. on_turn k (mark_shutting_down (now + timeout))) handles
        (r\<lparr>rg_shutdowns := al_put s handles (rg_shutdowns r)\<rparr>))"

text \<open>The remote turns that get the controller's flag.\<close>

definition controller_turns :: "nat list \<Rightarrow> registry \<Rightarrow> nat list" where
  "controller_turns handles r = filter (\<lambda>k. tn_remote (rg_turns r ! k) \<and> is_answering (rg_turns r ! k)) handles"

definition cancel_task :: "turn \<Rightarrow> turn" where
  "cancel_task t = (if tn_done t then t else t\<lparr>tn_cancelled := True\<rparr>)"

definition shutdown_cancel :: "nat \<Rightarrow> registry \<Rightarrow> registry" where
  "shutdown_cancel s r = (case map_of (rg_shutdowns r) s of None \<Rightarrow> r
     | Some handles \<Rightarrow> fold (\<lambda>k. on_turn k cancel_task) handles r)"

text \<open>\<open>_seal_interrupted\<close> of the handles the predicate says it succeeds for.\<close>

definition seal_interrupted :: "bool \<Rightarrow> turn \<Rightarrow> turn" where
  "seal_interrupted ok t =
     (if tn_done t \<and> \<not> tn_discarded t \<and> \<not> tn_closed t \<and> ok then t\<lparr>tn_finishing := True, tn_closed := True\<rparr> else t)"

definition shutdown_seal :: "nat \<Rightarrow> (nat \<Rightarrow> bool) \<Rightarrow> registry \<Rightarrow> registry" where
  "shutdown_seal s ok r = (case map_of (rg_shutdowns r) s of None \<Rightarrow> r
     | Some handles \<Rightarrow> fold (\<lambda>k. on_turn k (seal_interrupted (ok k))) handles r)"

section \<open>Cancelling a captured run\<close>

definition STALLED_CANCEL_REASON :: string where
  "STALLED_CANCEL_REASON = ''stalled''"

definition may_cancel :: "turn \<Rightarrow> bool" where
  "may_cancel t \<longleftrightarrow> is_answering t \<and> \<not> tn_shutting_down t"

text \<open>\<open>cancel_run\<close> after its write, or at once where there is none to make.\<close>

definition cancel_run_end :: "string option \<Rightarrow> turn \<Rightarrow> bool \<times> turn" where
  "cancel_run_end reason t =
     (if \<not> may_cancel t then (False, t)
      else if tn_cancel_requested t then (True, t)
      else turn_request_cancel (t\<lparr>tn_stalled := (reason = Some STALLED_CANCEL_REASON)\<rparr>))"

definition cancel_run_begin :: "nat \<Rightarrow> nat \<Rightarrow> string option \<Rightarrow> bool \<Rightarrow> registry \<Rightarrow> registry" where
  "cancel_run_begin j k reason redis r =
     (if \<not> k < length (rg_turns r) \<or> \<not> may_cancel (rg_turns r ! k) then r
      else if redis \<or> tn_remote (rg_turns r ! k) then
        r\<lparr>rg_cancels := al_put j \<lparr>cc_run = k, cc_reason = reason\<rparr> (rg_cancels r)\<rparr>
      else on_turn k (snd \<circ> cancel_run_end reason) r)"

definition cancel_run_written :: "nat \<Rightarrow> bool \<Rightarrow> registry \<Rightarrow> registry" where
  "cancel_run_written j ok r = (case map_of (rg_cancels r) j of None \<Rightarrow> r
     | Some c \<Rightarrow> let r' = r\<lparr>rg_cancels := al_del j (rg_cancels r)\<rparr> in
         if ok then on_turn (cc_run c) (snd \<circ> cancel_run_end (cc_reason c)) r' else r')"

text \<open>\<open>watch_cancel\<close> with the cause it read, after the flag was there.\<close>

definition watch_cancel :: "string option \<Rightarrow> turn \<Rightarrow> turn" where
  "watch_cancel reason t =
     (if tn_done t \<or> tn_closed t \<or> tn_finishing t \<or> tn_shutting_down t \<or> tn_cancel_requested t then t
      else t\<lparr>tn_stalled := (reason = Some STALLED_CANCEL_REASON), tn_cancel_requested := True, tn_cancelled := True\<rparr>)"

text \<open>The idle watchdog reaps the turn.\<close>

definition reap :: "turn \<Rightarrow> turn" where
  "reap t = (if tn_done t then t else t\<lparr>tn_timed_out := True, tn_cancelled := True\<rparr>)"

section \<open>Interleavings\<close>

datatype registry_event =
    Start nat string int bool
  | Enter nat
  | Waited nat
  | Buffer_Opened nat bool bool int
  | Published nat bool "start_error option" int
  | Forgot nat bool
  | Start_Cancel nat
  | Question_Saved nat
  | Finishing nat
  | Buffer_Closed nat
  | Task_Done nat
  | Reaped nat
  | Flag_Read nat "string option"
  | Cancel_Begin nat nat "string option" bool
  | Cancel_Written nat bool
  | Cancel_Turn string
  | Discard string
  | Collect int int
  | Close_Registry
  | Shutdown_Mark nat int int
  | Shutdown_Cancel nat
  | Shutdown_Seal nat "nat \<Rightarrow> bool"

text \<open>A step of the call with that number, if it is there and in a phase that can take it.\<close>

definition on_start :: "nat \<Rightarrow> (start_call \<Rightarrow> registry \<Rightarrow> registry) \<Rightarrow> registry \<Rightarrow> registry" where
  "on_start i f r = (case map_of (rg_starts r) i of None \<Rightarrow> r | Some c \<Rightarrow> f c r)"

fun registry_step :: "registry_event \<Rightarrow> registry \<Rightarrow> registry" where
  "registry_step (Start i cid n remote) r =
     (if map_of (rg_starts r) i \<noteq> None then r
      else r\<lparr>rg_starts := al_put i \<lparr>sc_cid = cid, sc_turn = n, sc_remote = remote, sc_phase = At_Lock\<rparr> (rg_starts r)\<rparr>)"
| "registry_step (Enter i) r = on_start i (\<lambda>c r.
     if sc_phase c = At_Lock \<and> map_of (rg_locks r) (sc_cid c) = None then start_enter i c r else r) r"
| "registry_step (Waited i) r = on_start i (\<lambda>c r. case sc_phase c of
     At_Earlier k \<Rightarrow> if tn_done (rg_turns r ! k) then set_phase i c At_Buffer r else r | _ \<Rightarrow> r) r"
| "registry_step (Buffer_Opened i ok redis now) r = on_start i (\<lambda>c r.
     if sc_phase c = At_Buffer then start_opened ok redis now i c r else r) r"
| "registry_step (Published i committed err now) r = on_start i (\<lambda>c r.
     if sc_phase c = At_Publish then start_published committed err now i c r else r) r"
| "registry_step (Forgot i ok) r = on_start i (\<lambda>c r. case sc_phase c of
     At_Forget e \<Rightarrow> start_forgot ok i c e r | _ \<Rightarrow> r) r"
| "registry_step (Start_Cancel i) r = on_start i (\<lambda>c r. start_cancelled i c r) r"
| "registry_step (Question_Saved k) r = on_turn k (\<lambda>t. if tn_done t then t else t\<lparr>tn_saved := True\<rparr>) r"
| "registry_step (Finishing k) r = on_turn k (\<lambda>t. t\<lparr>tn_finishing := True\<rparr>) r"
| "registry_step (Buffer_Closed k) r = on_turn k (\<lambda>t. t\<lparr>tn_closed := True\<rparr>) r"
| "registry_step (Task_Done k) r = on_turn k (\<lambda>t. t\<lparr>tn_done := True\<rparr>) r"
| "registry_step (Reaped k) r = on_turn k reap r"
| "registry_step (Flag_Read k reason) r = on_turn k (watch_cancel reason) r"
| "registry_step (Cancel_Begin j k reason redis) r = cancel_run_begin j k reason redis r"
| "registry_step (Cancel_Written j ok) r = cancel_run_written j ok r"
| "registry_step (Cancel_Turn cid) r = snd (registry_cancel cid r)"
| "registry_step (Discard cid) r = registry_discard cid r"
| "registry_step (Collect max_age now) r = gc_finished max_age now r"
| "registry_step Close_Registry r = close_registry r"
| "registry_step (Shutdown_Mark s timeout now) r = shutdown_mark s timeout now r"
| "registry_step (Shutdown_Cancel s) r = shutdown_cancel s r"
| "registry_step (Shutdown_Seal s ok) r = shutdown_seal s ok r"

fun registry_run :: "registry_event list \<Rightarrow> registry \<Rightarrow> registry" where
  "registry_run [] r = r"
| "registry_run (e # es) r = registry_run es (registry_step e r)"

end
