(* ===== verification/Registry_Order.thy ===== *)
theory Registry_Order
  imports Run_Registry
begin

text \<open>What the steps of the registry keep: the order of a turn's states, and the invariant that ties the turns that
  can still write to the registry's map and to the starts under way.\<close>

section \<open>The order of a turn's states\<close>

text \<open>A turn that can still write to its stream and belongs to its conversation.\<close>

definition alive :: "turn \<Rightarrow> bool" where
  "alive t \<longleftrightarrow> is_running t \<and> \<not> tn_closed t \<and> \<not> tn_discarded t"

text \<open>Nothing revives a turn, no mark is taken back, and the cause of a cancellation is settled with the request or
  with the shutdown, whichever comes first.\<close>

definition turn_le :: "turn \<Rightarrow> turn \<Rightarrow> bool" where
  "turn_le t u \<longleftrightarrow> tn_cid u = tn_cid t \<and> tn_id u = tn_id t \<and> (alive u \<longrightarrow> alive t) \<and>
     (tn_discarded t \<longrightarrow> tn_discarded u) \<and> (tn_timed_out t \<longrightarrow> tn_timed_out u) \<and>
     (tn_shutting_down t \<longrightarrow> tn_shutting_down u) \<and> (tn_cancelled t \<longrightarrow> tn_cancelled u) \<and>
     (tn_cancel_requested t \<longrightarrow> tn_cancel_requested u) \<and>
     (tn_cancel_requested t \<or> tn_shutting_down t \<longrightarrow> tn_stalled u = tn_stalled t)"

lemmas turn_defs = alive_def is_running_def is_answering_def may_cancel_def turn_request_cancel_def

lemma turn_le_refl [simp]: "turn_le t t"
  by (simp add: turn_le_def)

lemma turn_le_trans: "turn_le t u \<Longrightarrow> turn_le u v \<Longrightarrow> turn_le t v"
  unfolding turn_le_def by metis

lemma turn_le_changes [simp]:
  "turn_le t (discard_turn t)" "turn_le t (mark_shutting_down d t)" "turn_le t (cancel_task t)"
  "turn_le t (seal_interrupted ok t)" "turn_le t (watch_cancel reason t)" "turn_le t (reap t)"
  "turn_le t (snd (turn_request_cancel t))" "turn_le t (snd (cancel_run_end reason t))"
  by (simp_all add: turn_le_def turn_defs discard_turn_def mark_shutting_down_def cancel_task_def
      seal_interrupted_def watch_cancel_def reap_def cancel_run_end_def)

lemma turn_le_producer [simp]:
  "turn_le t (if tn_done t then t else t\<lparr>tn_saved := True\<rparr>)" "turn_le t (t\<lparr>tn_finishing := True\<rparr>)"
  "turn_le t (t\<lparr>tn_closed := True\<rparr>)" "turn_le t (t\<lparr>tn_done := True\<rparr>)"
  by (simp_all add: turn_le_def turn_defs)

definition turns_le :: "turn list \<Rightarrow> turn list \<Rightarrow> bool" where
  "turns_le ts us \<longleftrightarrow> length ts \<le> length us \<and> (\<forall>k < length ts. turn_le (ts ! k) (us ! k))"

lemma turns_le_refl [simp]: "turns_le ts ts"
  by (simp add: turns_le_def)

lemma turns_le_trans: "turns_le ts us \<Longrightarrow> turns_le us vs \<Longrightarrow> turns_le ts vs"
  unfolding turns_le_def using turn_le_trans order_trans by (metis order_less_le_trans)

text \<open>A change of turns and nothing else: the turns move along the order, none is added.\<close>

definition turns_moved :: "registry \<Rightarrow> registry \<Rightarrow> bool" where
  "turns_moved r r' \<longleftrightarrow> turns_le (rg_turns r) (rg_turns r') \<and> length (rg_turns r') = length (rg_turns r) \<and>
     rg_by_cid r' = rg_by_cid r \<and> rg_locks r' = rg_locks r \<and> rg_starts r' = rg_starts r \<and> rg_closed r' = rg_closed r"

lemma turns_moved_refl [simp]: "turns_moved r r"
  by (simp add: turns_moved_def)

lemma turns_moved_trans: "turns_moved r s \<Longrightarrow> turns_moved s t \<Longrightarrow> turns_moved r t"
  unfolding turns_moved_def using turns_le_trans by metis

lemma on_turn_moved: "(\<And>t. turn_le t (f t)) \<Longrightarrow> turns_moved r (on_turn k f r)"
  by (auto simp: turns_moved_def on_turn_def turns_le_def nth_list_update)

lemma fold_on_turn_moved: "(\<And>k t. turn_le t (f k t)) \<Longrightarrow> turns_moved r (fold (\<lambda>k. on_turn k (f k)) ks r)"
proof (induction ks arbitrary: r)
  case (Cons k ks)
  then show ?case using turns_moved_trans [OF on_turn_moved [of "f k" r k]] by simp
qed simp

lemma turns_moved_shut [simp]: "turns_moved r (r\<lparr>rg_shutdowns := x\<rparr>)" "turns_moved r (r\<lparr>rg_cancels := y\<rparr>)"
  by (simp_all add: turns_moved_def)

lemma turns_moved_cancel_run:
  "turns_moved r (cancel_run_begin j k reason redis r)" "turns_moved r (cancel_run_written j ok r)"
  using on_turn_moved [of "snd \<circ> cancel_run_end reason" r k]
    turns_moved_trans [OF turns_moved_shut(2) on_turn_moved]
  by (auto simp: cancel_run_begin_def cancel_run_written_def Let_def split: option.split)

lemma turns_moved_cancel: "turns_moved r (snd (registry_cancel cid r))"
  using on_turn_moved [of "snd \<circ> turn_request_cancel" r] by (simp add: registry_cancel_def split: option.split)

lemma turns_moved_shutdown:
  "turns_moved r (shutdown_mark s timeout now r)" "turns_moved r (shutdown_cancel s r)"
  "turns_moved r (shutdown_seal s ok r)"
  using turns_moved_trans [OF turns_moved_shut(1) fold_on_turn_moved] fold_on_turn_moved
  by (auto simp: shutdown_mark_def shutdown_cancel_def shutdown_seal_def Let_def split: option.split)

lemmas moves = turns_moved_cancel_run turns_moved_cancel turns_moved_shutdown on_turn_moved

section \<open>At most one turn that can write\<close>

definition busy :: "registry \<Rightarrow> string \<Rightarrow> nat set" where
  "busy r cid = {k. k < length (rg_turns r) \<and> tn_cid (rg_turns r ! k) = cid \<and> alive (rg_turns r ! k)}"

definition holding :: "start_phase \<Rightarrow> bool" where
  "holding p \<longleftrightarrow> (case p of At_Lock \<Rightarrow> False | Started _ \<Rightarrow> False | Refused _ \<Rightarrow> False | _ \<Rightarrow> True)"

text \<open>A call past its lock holds it, and past the wait for the earlier turn nothing else of its conversation can
  write.\<close>

definition start_ok :: "registry \<Rightarrow> nat \<Rightarrow> start_call \<Rightarrow> bool" where
  "start_ok r i c \<longleftrightarrow> (holding (sc_phase c) \<longrightarrow> map_of (rg_locks r) (sc_cid c) = Some i) \<and> (case sc_phase c of
     At_Earlier k \<Rightarrow> busy r (sc_cid c) \<subseteq> {k}
   | At_Buffer \<Rightarrow> busy r (sc_cid c) = {}
   | At_Publish \<Rightarrow> busy r (sc_cid c) = {}
   | _ \<Rightarrow> True)"

definition registry_inv :: "registry \<Rightarrow> bool" where
  "registry_inv r \<longleftrightarrow> distinct (map fst (rg_by_cid r)) \<and>
     (\<forall>cid k. map_of (rg_by_cid r) cid = Some k \<longrightarrow> k < length (rg_turns r) \<and> tn_cid (rg_turns r ! k) = cid) \<and>
     (\<forall>cid. busy r cid \<subseteq> set_option (map_of (rg_by_cid r) cid)) \<and>
     (\<forall>i c. map_of (rg_starts r) i = Some c \<longrightarrow> start_ok r i c)"

lemma registry_inv_new: "registry_inv new_registry"
  by (simp add: registry_inv_def new_registry_def busy_def)

lemma busy_moved: "turns_le (rg_turns r) (rg_turns r') \<Longrightarrow> length (rg_turns r') = length (rg_turns r) \<Longrightarrow> busy r' cid \<subseteq> busy r cid"
  by (auto simp: busy_def turns_le_def turn_le_def)

lemma start_ok_shrink:
  "start_ok r i c \<Longrightarrow> rg_locks r' = rg_locks r \<Longrightarrow> busy r' (sc_cid c) \<subseteq> busy r (sc_cid c) \<Longrightarrow> start_ok r' i c"
  by (auto simp: start_ok_def split: start_phase.splits)

text \<open>Changing turns along the order and taking entries of turns that cannot write off the map.\<close>

lemma registry_inv_shrink:
  assumes inv: "registry_inv r"
    and le: "turns_le (rg_turns r) (rg_turns r')" "length (rg_turns r') = length (rg_turns r)"
    and same: "rg_locks r' = rg_locks r" "rg_starts r' = rg_starts r"
    and d: "distinct (map fst (rg_by_cid r'))"
    and m: "\<And>cid k. map_of (rg_by_cid r') cid = Some k \<Longrightarrow> map_of (rg_by_cid r) cid = Some k"
    and b: "\<And>cid. busy r' cid \<subseteq> set_option (map_of (rg_by_cid r') cid)"
  shows "registry_inv r'"
proof -
  have "tn_cid (rg_turns r' ! k) = tn_cid (rg_turns r ! k)" if "k < length (rg_turns r)" for k
    using le that by (simp add: turns_le_def turn_le_def)
  then have "k < length (rg_turns r') \<and> tn_cid (rg_turns r' ! k) = cid" if "map_of (rg_by_cid r') cid = Some k" for cid k
    using m [OF that] inv le(2) by (simp add: registry_inv_def)
  moreover have "start_ok r' i c" if "map_of (rg_starts r') i = Some c" for i c
    using that inv same by (intro start_ok_shrink [OF _ same(1) busy_moved [OF le]]) (simp add: registry_inv_def)
  ultimately show ?thesis using d b by (simp add: registry_inv_def)
qed

lemma registry_inv_moved: "registry_inv r \<Longrightarrow> turns_moved r r' \<Longrightarrow> registry_inv r'"
  by (rule registry_inv_shrink [of r])
    (use busy_moved in \<open>auto simp: turns_moved_def registry_inv_def subset_iff\<close>)

lemma registry_inv_close: "registry_inv r \<Longrightarrow> registry_inv (close_registry r)"
  by (simp add: registry_inv_def close_registry_def start_ok_def busy_def cong: start_phase.case_cong)

lemma busy_mapped: "registry_inv r \<Longrightarrow> k \<in> busy r cid \<Longrightarrow> map_of (rg_by_cid r) cid = Some k"
  unfolding registry_inv_def by fastforce

lemma busy_discard:
  assumes "registry_inv r" "map_of (rg_by_cid r) cid = Some k"
  shows "busy (registry_discard cid r) x \<subseteq> (if x = cid then {} else busy r x)"
proof -
  have k: "k < length (rg_turns r)" "tn_cid (rg_turns r ! k) = cid" "busy r cid \<subseteq> {k}"
    using assms by (auto simp: registry_inv_def) (metis assms(2) option.set(2) singletonD subsetD)+
  have "\<not> alive (discard_turn t)" for t by (simp add: alive_def discard_turn_def)
  then show ?thesis using k assms(2)
    by (auto simp: busy_def registry_discard_def on_turn_def nth_list_update split: if_splits)
qed

lemma registry_inv_discard:
  assumes inv: "registry_inv r"
  shows "registry_inv (registry_discard cid r)"
proof (cases "map_of (rg_by_cid r) cid")
  case None
  then show ?thesis using inv by (simp add: registry_discard_def)
next
  case (Some k)
  let ?r = "r\<lparr>rg_by_cid := al_del cid (rg_by_cid r)\<rparr>"
  have eq: "registry_discard cid r = on_turn k discard_turn ?r" using Some by (simp add: registry_discard_def)
  have mv: "turns_moved ?r (registry_discard cid r)" unfolding eq by (rule on_turn_moved) simp
  have b: "busy (registry_discard cid r) x \<subseteq> (if x = cid then {} else busy r x)" for x by (rule busy_discard [OF inv Some])
  show ?thesis
  proof (rule registry_inv_shrink [OF inv])
    fix x
    show "busy (registry_discard cid r) x \<subseteq> set_option (map_of (rg_by_cid (registry_discard cid r)) x)"
      using b [of x] busy_mapped [OF inv, of _ x] mv by (fastforce simp: turns_moved_def split: if_splits)
  qed (use mv inv in \<open>auto simp: turns_moved_def registry_inv_def split: if_splits\<close>)
qed

lemma registry_inv_gc:
  assumes inv: "registry_inv r"
  shows "registry_inv (gc_finished max_age now r)"
proof -
  let ?r = "gc_finished max_age now r"
  have d: "distinct (map fst (rg_by_cid r))" using inv by (simp add: registry_inv_def)
  have same: "rg_turns ?r = rg_turns r" "rg_locks ?r = rg_locks r" "rg_starts ?r = rg_starts r"
    by (simp_all add: gc_finished_def)
  have d': "distinct (map fst (rg_by_cid ?r))" using d by (simp add: gc_finished_def distinct_map_filter)
  have m: "map_of (rg_by_cid ?r) cid = Some k \<longleftrightarrow> map_of (rg_by_cid r) cid = Some k \<and>
      (is_running (rg_turns r ! k) \<or> now - tn_created (rg_turns r ! k) \<le> max_age)" for cid k
    unfolding map_of_mem [OF d', symmetric] map_of_mem [OF d, symmetric] by (auto simp: gc_finished_def)
  have "busy ?r cid \<subseteq> set_option (map_of (rg_by_cid ?r) cid)" for cid
  proof
    fix k assume k: "k \<in> busy ?r cid"
    then have "k \<in> busy r cid" by (simp add: busy_def same)
    then have "map_of (rg_by_cid r) cid = Some k" using inv unfolding registry_inv_def by fastforce
    moreover have "is_running (rg_turns r ! k)" using k by (simp add: busy_def same alive_def)
    ultimately show "k \<in> set_option (map_of (rg_by_cid ?r) cid)" using m by simp
  qed
  then show ?thesis using registry_inv_shrink [OF inv, of ?r] same d' m by simp
qed

section \<open>Starts keep the invariant\<close>

lemma start_ok_idle [simp]: "start_ok r i (c\<lparr>sc_phase := Started k\<rparr>)" "start_ok r i (c\<lparr>sc_phase := Refused e\<rparr>)"
  by (simp_all add: start_ok_def holding_def)

lemma registry_inv_set_phase:
  assumes "registry_inv r" "start_ok r i (c\<lparr>sc_phase := p\<rparr>)"
  shows "registry_inv (set_phase i c p r)"
proof -
  have "start_ok (set_phase i c p r) j d \<longleftrightarrow> start_ok r j d" "busy (set_phase i c p r) cid = busy r cid" for j d cid
    by (simp_all add: start_ok_def set_phase_def busy_def cong: start_phase.case_cong)
  then show ?thesis using assms by (auto simp: registry_inv_def set_phase_def)
qed

text \<open>Other calls of the conversation do not hold its lock.\<close>

lemma others_idle:
  assumes "registry_inv r" "map_of (rg_locks r) (sc_cid c) = Some i" "map_of (rg_starts r) j = Some d" "j \<noteq> i"
    "sc_cid d = sc_cid c"
  shows "\<not> holding (sc_phase d)"
proof -
  have "start_ok r j d" using assms(1,3) by (simp add: registry_inv_def)
  then show ?thesis using assms(2,4,5) by (simp add: start_ok_def)
qed

lemma start_ok_other:
  assumes "start_ok r j d" "sc_cid d \<noteq> x" "\<And>y. y \<noteq> x \<Longrightarrow> map_of (rg_locks r') y = map_of (rg_locks r) y"
    "\<And>y. y \<noteq> x \<Longrightarrow> busy r' y = busy r y"
  shows "start_ok r' j d"
  using assms unfolding start_ok_def by (simp cong: start_phase.case_cong)

lemma start_ok_not_holding: "\<not> holding (sc_phase d) \<Longrightarrow> start_ok r j d"
  by (auto simp: start_ok_def holding_def split: start_phase.splits)

text \<open>The call gives its lock back; a new turn of its conversation may have been registered.\<close>

lemma registry_inv_leave:
  assumes inv: "registry_inv r" and c: "map_of (rg_starts r) i = Some c" "holding (sc_phase c)" and p: "\<not> holding p"
    and r': "rg_locks r' = rg_locks r" "rg_starts r' = rg_starts r"
    and b: "\<And>y. y \<noteq> sc_cid c \<Longrightarrow> busy r' y = busy r y"
    and m: "distinct (map fst (rg_by_cid r'))"
      "\<And>cid k. map_of (rg_by_cid r') cid = Some k \<Longrightarrow> k < length (rg_turns r') \<and> tn_cid (rg_turns r' ! k) = cid"
      "\<And>cid. busy r' cid \<subseteq> set_option (map_of (rg_by_cid r') cid)"
  shows "registry_inv (leave i c p r')"
proof -
  let ?l = "leave i c p r'"
  have lock: "map_of (rg_locks r) (sc_cid c) = Some i" using inv c by (simp add: registry_inv_def start_ok_def)
  have same: "busy ?l x = busy r' x" "rg_by_cid ?l = rg_by_cid r'" "rg_turns ?l = rg_turns r'" for x
    by (simp_all add: leave_def set_phase_def busy_def)
  have locks: "y \<noteq> sc_cid c \<Longrightarrow> map_of (rg_locks ?l) y = map_of (rg_locks r) y" for y
    using r' by (simp add: leave_def set_phase_def)
  have "start_ok ?l j d" if d: "map_of (rg_starts ?l) j = Some d" for j d
  proof (cases "j = i")
    case True
    then have "d = c\<lparr>sc_phase := p\<rparr>" using d by (simp add: leave_def set_phase_def)
    then show ?thesis using p by (simp add: start_ok_not_holding)
  next
    case False
    then have d: "map_of (rg_starts r) j = Some d" using d r' by (simp add: leave_def set_phase_def)
    then have ok: "start_ok r j d" using inv by (simp add: registry_inv_def)
    show ?thesis
    proof (cases "sc_cid d = sc_cid c")
      case True
      then show ?thesis using others_idle [OF inv lock d False] by (simp add: start_ok_not_holding)
    next
      case other: False
      show ?thesis by (rule start_ok_other [OF ok other locks]) (simp_all add: b same)
    qed
  qed
  then show ?thesis using m by (simp add: registry_inv_def same)
qed

lemma registry_inv_leave_same:
  assumes "registry_inv r" "map_of (rg_starts r) i = Some c" "holding (sc_phase c)" "\<not> holding p"
  shows "registry_inv (leave i c p r)"
  by (rule registry_inv_leave [OF assms]) (use assms(1) in \<open>auto simp: registry_inv_def\<close>)

lemma registry_inv_hold:
  assumes inv: "registry_inv r" and free: "map_of (rg_locks r) (sc_cid c) = None"
    and ok: "start_ok (hold i c p r) i (c\<lparr>sc_phase := p\<rparr>)"
  shows "registry_inv (hold i c p r)"
proof -
  let ?h = "hold i c p r"
  have same: "busy ?h x = busy r x" "rg_by_cid ?h = rg_by_cid r" "rg_turns ?h = rg_turns r" for x
    by (simp_all add: hold_def set_phase_def busy_def)
  have "start_ok ?h j d" if d: "map_of (rg_starts ?h) j = Some d" for j d
  proof (cases "j = i")
    case True
    then show ?thesis using d ok by (simp add: hold_def set_phase_def)
  next
    case False
    then have "map_of (rg_starts r) j = Some d" using d by (simp add: hold_def set_phase_def)
    then have o: "start_ok r j d" using inv by (simp add: registry_inv_def)
    show ?thesis
    proof (cases "sc_cid d = sc_cid c")
      case True
      then show ?thesis using o free by (intro start_ok_not_holding) (auto simp: start_ok_def)
    next
      case other: False
      show ?thesis by (rule start_ok_other [OF o other]) (simp_all add: same, simp add: hold_def set_phase_def)
    qed
  qed
  then show ?thesis using inv by (simp add: registry_inv_def same)
qed

lemma start_enter_inv:
  assumes inv: "registry_inv r" and free: "map_of (rg_locks r) (sc_cid c) = None"
  shows "registry_inv (start_enter i c r)"
proof -
  have lock: "map_of (rg_locks (hold i c p r)) (sc_cid c) = Some i" for p by (simp add: hold_def set_phase_def)
  have busy: "busy (hold i c p r) x = busy r x" for p x by (simp add: hold_def set_phase_def busy_def)
  have refuse: "registry_inv (set_phase i c (Refused e) r)" for e by (rule registry_inv_set_phase [OF inv]) simp
  have buffer: "registry_inv (hold i c At_Buffer r)" if "busy r (sc_cid c) = {}"
    by (rule registry_inv_hold [OF inv free]) (use that in \<open>simp add: start_ok_def lock busy\<close>)
  have earlier: "registry_inv (hold i c (At_Earlier k) r)" if "map_of (rg_by_cid r) (sc_cid c) = Some k" for k
    by (rule registry_inv_hold [OF inv free])
      (use busy_mapped [OF inv, of _ "sc_cid c"] that in \<open>auto simp: start_ok_def lock busy\<close>)
  have none: "busy r (sc_cid c) = {}" if "map_of (rg_by_cid r) (sc_cid c) = None"
    using busy_mapped [OF inv, of _ "sc_cid c"] that by fastforce
  have dead: "busy r (sc_cid c) = {}" if "map_of (rg_by_cid r) (sc_cid c) = Some k"
    "\<not> (is_running (rg_turns r ! k) \<and> \<not> tn_closed (rg_turns r ! k))" for k
    using busy_mapped [OF inv, of _ "sc_cid c"] that by (fastforce simp: busy_def alive_def)
  show ?thesis using refuse buffer earlier none dead
    by (simp add: start_enter_def Let_def split: option.split)
qed

lemma start_register_inv:
  assumes inv: "registry_inv r" and c: "map_of (rg_starts r) i = Some c" and p: "sc_phase c \<in> {At_Buffer, At_Publish}"
  shows "registry_inv (start_register published now i c r)"
proof -
  have ok: "start_ok r i c" using inv c by (simp add: registry_inv_def)
  have h: "holding (sc_phase c)" using p by (auto simp: holding_def)
  have none: "busy r (sc_cid c) = {}" using ok p by (auto simp: start_ok_def)
  let ?k = "length (rg_turns r)" and ?t = "new_turn (sc_cid c) (sc_turn c) (sc_remote c) now"
  let ?r = "r\<lparr>rg_turns := rg_turns r @ [?t], rg_by_cid := al_put (sc_cid c) ?k (rg_by_cid r)\<rparr>"
  have busy: "busy ?r x = (if x = sc_cid c then {?k} else busy r x)" for x
    using none by (auto simp: busy_def nth_append new_turn_def alive_def is_running_def less_Suc_eq)
  have "registry_inv (leave i c (Started ?k) ?r)"
  proof (rule registry_inv_leave [OF inv c h])
    fix cid k assume "map_of (rg_by_cid ?r) cid = Some k"
    then show "k < length (rg_turns ?r) \<and> tn_cid (rg_turns ?r ! k) = cid"
      using inv by (auto simp: registry_inv_def nth_append new_turn_def less_Suc_eq split: if_splits)
  next
    fix cid show "busy ?r cid \<subseteq> set_option (map_of (rg_by_cid ?r) cid)"
      using inv by (simp add: busy registry_inv_def)
  next
    show "distinct (map fst (rg_by_cid ?r))" using inv by (simp add: registry_inv_def)
  qed (simp_all add: holding_def busy)
  moreover have "registry_inv (leave i c (Refused e) r)" for e
    by (rule registry_inv_leave_same [OF inv c h]) (simp add: holding_def)
  moreover have "registry_inv (set_phase i c (At_Forget e) r)" for e
    by (rule registry_inv_set_phase [OF inv]) (use ok h in \<open>simp add: start_ok_def holding_def\<close>)
  ultimately show ?thesis by (simp add: start_register_def Let_def)
qed

lemma registry_inv_index: "registry_inv (r\<lparr>rg_index := x\<rparr>) \<longleftrightarrow> registry_inv r"
proof -
  have b: "busy (r\<lparr>rg_index := x\<rparr>) = busy r" by (intro ext) (simp add: busy_def)
  have "start_ok (r\<lparr>rg_index := x\<rparr>) = start_ok r" by (intro ext) (simp add: start_ok_def b cong: start_phase.case_cong)
  then show ?thesis using b by (simp add: registry_inv_def)
qed

lemma start_ok_phase:
  assumes "start_ok r i c" "holding (sc_phase c)" "busy r (sc_cid c) = {} \<or> (\<exists>e. p = At_Forget e)"
  shows "start_ok r i (c\<lparr>sc_phase := p\<rparr>)"
  using assms by (auto simp: start_ok_def split: start_phase.splits)

lemma start_waited_inv:
  assumes inv: "registry_inv r" and c: "map_of (rg_starts r) i = Some c" "sc_phase c = At_Earlier k"
    and d: "tn_done (rg_turns r ! k)"
  shows "registry_inv (set_phase i c At_Buffer r)"
proof -
  have ok: "start_ok r i c" using inv c by (simp add: registry_inv_def)
  then have "busy r (sc_cid c) \<subseteq> {k}" using c by (simp add: start_ok_def)
  then have "busy r (sc_cid c) = {}" using d by (auto simp: busy_def alive_def is_running_def)
  then show ?thesis using ok c by (intro registry_inv_set_phase [OF inv] start_ok_phase) (simp_all add: holding_def)
qed

lemma start_opened_inv:
  assumes inv: "registry_inv r" and c: "map_of (rg_starts r) i = Some c" "sc_phase c = At_Buffer"
  shows "registry_inv (start_opened ok redis now i c r)"
proof -
  have "start_ok r i c" using inv c by (simp add: registry_inv_def)
  then have "registry_inv (set_phase i c At_Publish r)"
    using c by (intro registry_inv_set_phase [OF inv] start_ok_phase) (simp_all add: holding_def start_ok_def)
  moreover have "registry_inv (leave i c (Refused Start_Failed) r)"
    by (rule registry_inv_leave_same [OF inv c(1)]) (simp_all add: c holding_def)
  ultimately show ?thesis using start_register_inv [OF inv c(1)] c(2) by (simp add: start_opened_def)
qed

lemma start_published_inv:
  assumes inv: "registry_inv r" and c: "map_of (rg_starts r) i = Some c" "sc_phase c = At_Publish"
  shows "registry_inv (start_published committed err now i c r)"
proof -
  let ?r = "if committed \<or> err = None then r\<lparr>rg_index := i # rg_index r\<rparr> else r"
  have inv': "registry_inv ?r" using inv by (simp add: registry_inv_index)
  have c': "map_of (rg_starts ?r) i = Some c" using c by simp
  then have "start_ok ?r i c" using inv' by (simp add: registry_inv_def)
  then have "registry_inv (set_phase i c (At_Forget e) ?r)" for e
    using c by (intro registry_inv_set_phase [OF inv'] start_ok_phase) (simp_all add: holding_def)
  then show ?thesis using start_register_inv [OF inv' c'] c(2)
    by (cases err) (simp_all add: start_published_def Let_def)
qed

lemma start_forgot_inv:
  assumes inv: "registry_inv r" and c: "map_of (rg_starts r) i = Some c" "sc_phase c = At_Forget e"
  shows "registry_inv (start_forgot ok i c e r)"
proof -
  let ?r = "if ok then r\<lparr>rg_index := removeAll i (rg_index r)\<rparr> else r"
  have "registry_inv ?r" "map_of (rg_starts ?r) i = Some c" using inv c by (simp_all add: registry_inv_index)
  then show ?thesis unfolding start_forgot_def by (rule registry_inv_leave_same) (simp_all add: c holding_def)
qed

lemma start_cancelled_inv:
  assumes inv: "registry_inv r" and c: "map_of (rg_starts r) i = Some c"
  shows "registry_inv (start_cancelled i c r)"
  using inv registry_inv_set_phase [OF inv] registry_inv_leave_same [OF inv c]
  by (simp add: start_cancelled_def holding_def split: start_phase.split)

lemma registry_inv_start:
  assumes "registry_inv r" "map_of (rg_starts r) i = None"
  shows "registry_inv (r\<lparr>rg_starts := al_put i \<lparr>sc_cid = cid, sc_turn = n, sc_remote = b, sc_phase = At_Lock\<rparr> (rg_starts r)\<rparr>)"
  using registry_inv_set_phase [OF assms(1), where i = i and p = At_Lock and
      c = "\<lparr>sc_cid = cid, sc_turn = n, sc_remote = b, sc_phase = At_Lock\<rparr>"]
  by (simp add: set_phase_def start_ok_def holding_def)

lemma registry_step_inv:
  assumes inv: "registry_inv r"
  shows "registry_inv (registry_step e r)"
proof (cases e)
  case (Start i cid n remote)
  then show ?thesis using inv registry_inv_start [OF inv] by simp
next
  case (Enter i)
  then show ?thesis using inv start_enter_inv [OF inv] by (simp add: on_start_def split: option.split)
next
  case (Waited i)
  then show ?thesis using inv start_waited_inv [OF inv]
    by (simp add: on_start_def split: option.split start_phase.split)
next
  case (Buffer_Opened i ok redis now)
  then show ?thesis using inv start_opened_inv [OF inv] by (simp add: on_start_def split: option.split)
next
  case (Published i committed err now)
  then show ?thesis using inv start_published_inv [OF inv] by (simp add: on_start_def split: option.split)
next
  case (Forgot i ok)
  then show ?thesis using inv start_forgot_inv [OF inv]
    by (simp add: on_start_def split: option.split start_phase.split)
next
  case (Start_Cancel i)
  then show ?thesis using inv start_cancelled_inv [OF inv] by (simp add: on_start_def split: option.split)
next
  case (Discard cid)
  then show ?thesis using registry_inv_discard [OF inv] by simp
next
  case (Collect max_age now)
  then show ?thesis using registry_inv_gc [OF inv] by simp
next
  case Close_Registry
  then show ?thesis using registry_inv_close [OF inv] by simp
qed (use registry_inv_moved [OF inv] moves in simp_all)

interpretation turns: machine registry_step registry_run
  by unfold_locales simp_all

lemma registry_run_inv: "registry_inv r \<Longrightarrow> registry_inv (registry_run es r)"
  by (rule turns.run_keeps [where P = registry_inv, OF registry_step_inv])

section \<open>Steps move along the order\<close>

lemma on_start_turns:
  assumes "\<And>c. turns_le (rg_turns r) (rg_turns (f c r)) \<and> (rg_closed r \<longrightarrow> rg_closed (f c r) \<and>
      length (rg_turns (f c r)) = length (rg_turns r))"
  shows "turns_le (rg_turns r) (rg_turns (on_start i f r)) \<and> (rg_closed r \<longrightarrow> rg_closed (on_start i f r) \<and>
      length (rg_turns (on_start i f r)) = length (rg_turns r))"
  using assms by (simp add: on_start_def split: option.split)

lemma turns_le_append [simp]: "turns_le ts (ts @ us)"
  by (simp add: turns_le_def nth_append)

lemma discard_turns:
  "turns_le (rg_turns r) (rg_turns (registry_discard cid r))" "rg_closed (registry_discard cid r) = rg_closed r"
  "length (rg_turns (registry_discard cid r)) = length (rg_turns r)"
  by (auto simp: registry_discard_def on_turn_def turns_le_def nth_list_update split: option.split)

lemmas start_defs = start_enter_def start_opened_def start_published_def start_forgot_def start_cancelled_def
  start_register_def leave_def hold_def set_phase_def

text \<open>A closed registry stays closed and starts no turn.\<close>

lemma registry_step_turns:
  "turns_le (rg_turns r) (rg_turns (registry_step e r)) \<and> (rg_closed r \<longrightarrow> rg_closed (registry_step e r) \<and>
     length (rg_turns (registry_step e r)) = length (rg_turns r))"
proof (cases "\<exists>r'. registry_step e r = r' \<and> turns_moved r r'")
  case True
  then show ?thesis by (auto simp: turns_moved_def)
next
  case False
  show ?thesis
  proof (cases e)
    case (Discard cid)
    then show ?thesis by (simp add: discard_turns)
  qed (use False moves in \<open>auto simp: gc_finished_def close_registry_def start_defs Let_def
      intro!: on_start_turns split: option.split start_phase.split if_splits\<close>)
qed

lemma registry_run_turns:
  "turns_le (rg_turns r) (rg_turns (registry_run es r)) \<and> (rg_closed r \<longrightarrow> rg_closed (registry_run es r) \<and>
     length (rg_turns (registry_run es r)) = length (rg_turns r))"
  by (rule turns.run_moves [where R = "\<lambda>r s. turns_le (rg_turns r) (rg_turns s) \<and> (rg_closed r \<longrightarrow> rg_closed s \<and>
        length (rg_turns s) = length (rg_turns r))"])
    (use registry_step_turns turns_le_trans in auto)

section \<open>The shutdown\<close>

lemma fold_mark:
  "k < length (rg_turns r) \<Longrightarrow> k \<in> set ks \<or> tn_shutting_down (rg_turns r ! k) \<Longrightarrow>
     tn_shutting_down (rg_turns (fold (\<lambda>k. on_turn k (mark_shutting_down d)) ks r) ! k)"
proof (induction ks arbitrary: r)
  case (Cons j ks)
  have "tn_shutting_down (rg_turns (on_turn j (mark_shutting_down d) r) ! k)" if "k = j \<or> tn_shutting_down (rg_turns r ! k)"
    using that Cons.prems(1) by (auto simp: on_turn_def mark_shutting_down_def nth_list_update)
  moreover have "k < length (rg_turns (on_turn j (mark_shutting_down d) r))" using Cons.prems(1) by (simp add: on_turn_def)
  ultimately show ?case using Cons by auto
qed simp

lemma shutdown_marks_all:
  assumes inv: "registry_inv r" and k: "k < length (rg_turns r)" "alive (rg_turns r ! k)"
  shows "tn_shutting_down (rg_turns (shutdown_mark s timeout now r) ! k)"
proof -
  have "k \<in> busy r (tn_cid (rg_turns r ! k))" using k by (simp add: busy_def)
  then have "map_of (rg_by_cid r) (tn_cid (rg_turns r ! k)) = Some k" by (rule busy_mapped [OF inv])
  then have "k \<in> set (in_flight r)" using k by (force simp: in_flight_def alive_def dest: map_of_SomeD)
  then show ?thesis using k fold_mark [of k "r\<lparr>rg_shutdowns := _\<rparr>"]
    by (auto simp: shutdown_mark_def Let_def filter_empty_conv)
qed

end
