(* ===== verification/Registry_Claims.thy ===== *)
theory Registry_Claims
  imports Registry_Order
begin

text \<open>The properties of the registry of running turns.\<close>

text \<open>Two requests for one conversation while a turn answers, writes its final frame and ends; then the interface
  gives up on the second turn and the user stops it.\<close>

definition gx_turns :: "registry_event list" where
  "gx_turns = [Start 0 ''c'' 1 False, Enter 0, Start 1 ''c'' 1 False, Buffer_Opened 0 True False 0, Enter 1,
     Question_Saved 0, Start 2 ''c'' 2 False, Finishing 0, Enter 2, Buffer_Closed 0, Task_Done 0, Waited 2,
     Buffer_Opened 2 True False 5]"

definition gx_stalled :: "registry_event list" where
  "gx_stalled = gx_turns @ [Cancel_Begin 0 1 (Some ''stalled'') False]"

text \<open>C35. A conversation has at most one turn that can write. For every interleaving of starts, turns,
  cancellations, deletes, collections and the shutdown, of all turns ever registered for a conversation at
  most one runs with an open stream and was not discarded.\<close>

theorem one_writer_per_conversation:
  "length (filter (\<lambda>t. tn_cid t = cid \<and> alive t) (rg_turns (registry_run es new_registry))) \<le> 1"
proof -
  let ?r = "registry_run es new_registry"
  have inv: "registry_inv ?r" by (rule registry_run_inv [OF registry_inv_new])
  then have "busy ?r cid \<subseteq> set_option (map_of (rg_by_cid ?r) cid)" by (simp add: registry_inv_def)
  then have "card (busy ?r cid) \<le> card (set_option (map_of (rg_by_cid ?r) cid))" by (rule card_mono [rotated]) simp
  also have "\<dots> \<le> 1" by (cases "map_of (rg_by_cid ?r) cid") simp_all
  finally show ?thesis by (simp add: length_filter_conv_card busy_def)
qed

text \<open>C36. The shutdown misses no turn. Once the registry was closed and a shutdown has marked its turns, then
  whatever happens before, between and after, no turn that can write is left unmarked; in particular none
  starts behind the shutdown.\<close>

theorem shutdown_misses_no_turn:
  "filter (\<lambda>t. alive t \<and> \<not> tn_shutting_down t)
     (rg_turns (registry_run (es @ [Close_Registry] @ fs @ [Shutdown_Mark s timeout now] @ gs) new_registry)) = []"
proof -
  let ?r1 = "registry_run (es @ [Close_Registry] @ fs) new_registry"
  let ?r2 = "shutdown_mark s timeout now ?r1" and ?r3 = "registry_run gs (shutdown_mark s timeout now ?r1)"
  have inv: "registry_inv ?r1" by (rule registry_run_inv [OF registry_inv_new])
  have closed: "rg_closed ?r1"
    using registry_run_turns [of "close_registry (registry_run es new_registry)" fs]
    by (simp add: turns.run_split close_registry_def)
  have mv: "turns_moved ?r1 ?r2" by (rule moves)
  then have len: "length (rg_turns ?r2) = length (rg_turns ?r1)" "rg_closed ?r2" using closed by (simp_all add: turns_moved_def)
  have end_: "turns_le (rg_turns ?r2) (rg_turns ?r3)" "length (rg_turns ?r3) = length (rg_turns ?r2)"
    using registry_run_turns [of ?r2 gs] len(2) by simp_all
  have "tn_shutting_down (rg_turns ?r3 ! k)" if k: "k < length (rg_turns ?r3)" "alive (rg_turns ?r3 ! k)" for k
  proof -
    have le: "turn_le (rg_turns ?r2 ! k) (rg_turns ?r3 ! k)" "turn_le (rg_turns ?r1 ! k) (rg_turns ?r2 ! k)"
      using end_ mv len k(1) by (simp_all add: turns_le_def turns_moved_def)
    then have "alive (rg_turns ?r1 ! k)" using k(2) unfolding turn_le_def by blast
    then have "tn_shutting_down (rg_turns ?r2 ! k)" using shutdown_marks_all [OF inv] k(1) end_(2) len(1) by simp
    then show ?thesis using le(1) by (simp add: turn_le_def)
  qed
  then have "filter (\<lambda>t. alive t \<and> \<not> tn_shutting_down t) (rg_turns ?r3) = []"
    by (auto simp: filter_empty_conv in_set_conv_nth)
  then show ?thesis by (simp add: turns.run_split)
qed

text \<open>The cause of a cancellation is settled once: after a cancellation of a turn was requested, or the shutdown marked
  it, no later step changes whether it counts as stalled.\<close>

lemma cancellation_cause_settled:
  assumes "k < length (rg_turns r)" "tn_cancel_requested (rg_turns r ! k) \<or> tn_shutting_down (rg_turns r ! k)"
  shows "tn_stalled (rg_turns (registry_run es r) ! k) = tn_stalled (rg_turns r ! k)"
proof -
  have "turn_le (rg_turns r ! k) (rg_turns (registry_run es r) ! k)"
    using registry_run_turns [of r es] assms(1) by (simp add: turns_le_def)
  then show ?thesis using assms(2) unfolding turn_le_def by auto
qed

lemma stalled_turn_stays_stalled:
  "tn_stalled (rg_turns (registry_run [Cancel_Turn ''c'', Flag_Read 1 None] (registry_run gx_stalled new_registry)) ! 1)"
proof -
  have "1 < length (rg_turns (registry_run gx_stalled new_registry))"
    "tn_cancel_requested (rg_turns (registry_run gx_stalled new_registry) ! 1)"
    "tn_stalled (rg_turns (registry_run gx_stalled new_registry) ! 1)" by code_simp+
  then show ?thesis using cancellation_cause_settled by blast
qed

end
