(* ===== verification/Turn_Liveness.thy ===== *)
theory Turn_Liveness
  imports Stream_Records Interleavings
begin

text \<open>
  The idle bound of a turn, \<open>_run_bounded\<close> in \<^verbatim>\<open>src/cowork/streaming/registry.py\<close>, and the ticker that keeps a turn
  alive while a model call waits, \<open>ModelWaitTicker\<close> in \<^verbatim>\<open>src/cowork/streaming/liveness.py\<close>. Both poll the number of
  records in the turn's buffer; times are milliseconds of the loop's clock.
\<close>

section \<open>The idle bound\<close>

definition idle_bound_seconds :: "string option \<Rightarrow> int" where
  "idle_bound_seconds raw = (case raw of None \<Rightarrow> 600
     | Some s \<Rightarrow> (case int_of_text s of Inl _ \<Rightarrow> 600 | Inr v \<Rightarrow> if v \<le> 0 then 600 else v))"

section \<open>The watchdog\<close>

definition IDLE_POLL_SECONDS :: int where
  "IDLE_POLL_SECONDS = 15"

record watchdog =
  wd_seq :: int
  wd_progress :: int

definition watchdog_open :: "int \<Rightarrow> int \<Rightarrow> watchdog" where
  "watchdog_open seq now = \<lparr>wd_seq = seq, wd_progress = now\<rparr>"

text \<open>One pass of the loop: whether it reaps the turn, and what it remembers. The bound is in seconds.\<close>

definition watchdog_poll :: "int \<Rightarrow> int \<Rightarrow> int \<Rightarrow> watchdog \<Rightarrow> bool \<times> watchdog" where
  "watchdog_poll bound now seq w =
     (if seq \<noteq> wd_seq w then (False, \<lparr>wd_seq = seq, wd_progress = now\<rparr>)
      else (1000 * bound \<le> now - wd_progress w, w))"

text \<open>The samples the watchdog takes, up to the one at which it reaps.\<close>

fun watchdog_run :: "int \<Rightarrow> (int \<times> int) list \<Rightarrow> watchdog \<Rightarrow> int option" where
  "watchdog_run bound [] w = None"
| "watchdog_run bound ((now, seq) # ps) w = (case watchdog_poll bound now seq w of
     (True, _) \<Rightarrow> Some now
   | (False, w') \<Rightarrow> watchdog_run bound ps w')"

section \<open>The ticker\<close>

definition MODEL_WAIT_TICK_MS :: int where
  "MODEL_WAIT_TICK_MS = 20000"

definition MODEL_WAIT_POLL_MS :: int where
  "MODEL_WAIT_POLL_MS = 5000"

record ticker =
  tk_seq :: int
  tk_quiet :: int

definition ticker_open :: "int \<Rightarrow> int \<Rightarrow> ticker" where
  "ticker_open seq now = \<lparr>tk_seq = seq, tk_quiet = now\<rparr>"

text \<open>One pass of \<open>_tick\<close>: the number of records after it, and what it remembers. \<open>waiting\<close> says whether a snapshot
  of a waiting model call is there.\<close>

definition ticker_poll :: "bool \<Rightarrow> int \<Rightarrow> int \<Rightarrow> ticker \<Rightarrow> int \<times> ticker" where
  "ticker_poll waiting now seq k =
     (if seq \<noteq> tk_seq k then (seq, \<lparr>tk_seq = seq, tk_quiet = now\<rparr>)
      else if now - tk_quiet k < MODEL_WAIT_TICK_MS then (seq, k)
      else if \<not> waiting then (seq, k)
      else (seq + 1, \<lparr>tk_seq = seq + 1, tk_quiet = now\<rparr>))"

section \<open>A turn with both\<close>

text \<open>\<open>bt_changed\<close> is the time of the last record, for the statements only.\<close>

record bounded_turn =
  bt_seq :: int
  bt_now :: int
  bt_changed :: int
  bt_polled :: int
  bt_watchdog :: watchdog
  bt_ticker :: ticker
  bt_reaped :: bool

definition bounded_start :: "int \<Rightarrow> bounded_turn" where
  "bounded_start now = \<lparr>bt_seq = 0, bt_now = now, bt_changed = now, bt_polled = now,
     bt_watchdog = watchdog_open 0 now, bt_ticker = ticker_open 0 now, bt_reaped = False\<rparr>"

datatype liveness_event =
    Wrote int
  | Ticked int bool
  | Watched int

fun liveness_time :: "liveness_event \<Rightarrow> int" where
  "liveness_time (Wrote now) = now"
| "liveness_time (Ticked now _) = now"
| "liveness_time (Watched now) = now"

fun liveness_step :: "int \<Rightarrow> liveness_event \<Rightarrow> bounded_turn \<Rightarrow> bounded_turn" where
  "liveness_step bound (Wrote now) s = s\<lparr>bt_now := now, bt_seq := bt_seq s + 1, bt_changed := now\<rparr>"
| "liveness_step bound (Ticked now waiting) s = (case ticker_poll waiting now (bt_seq s) (bt_ticker s) of
     (seq, k) \<Rightarrow> s\<lparr>bt_now := now, bt_polled := now, bt_ticker := k, bt_seq := seq,
       bt_changed := (if seq = bt_seq s then bt_changed s else now)\<rparr>)"
| "liveness_step bound (Watched now) s = (case watchdog_poll bound now (bt_seq s) (bt_watchdog s) of
     (reaped, w) \<Rightarrow> s\<lparr>bt_now := now, bt_watchdog := w, bt_reaped := bt_reaped s \<or> reaped\<rparr>)"

fun liveness_run :: "int \<Rightarrow> liveness_event list \<Rightarrow> bounded_turn \<Rightarrow> bounded_turn" where
  "liveness_run bound [] s = s"
| "liveness_run bound (e # es) s = liveness_run bound es (liveness_step bound e s)"

text \<open>Time does not go back, and the loop is not late: nothing happens more than a poll interval after the ticker's
  last pass.\<close>

fun on_time :: "int \<Rightarrow> liveness_event list \<Rightarrow> bounded_turn \<Rightarrow> bool" where
  "on_time bound [] s = True"
| "on_time bound (e # es) s = (bt_now s \<le> liveness_time e \<and> liveness_time e \<le> bt_polled s + MODEL_WAIT_POLL_MS \<and>
     on_time bound es (liveness_step bound e s))"

fun model_waits :: "liveness_event \<Rightarrow> bool" where
  "model_waits (Ticked now waiting) = waiting"
| "model_waits _ = True"

section \<open>The watchdog and the ticker together\<close>

text \<open>The last record is at most a poll interval older than what the ticker believes, the ticker's belief is less than
  a tick old at its last pass, and what the watchdog believes is no older than the last record.\<close>

definition liveness_inv :: "bounded_turn \<Rightarrow> bool" where
  "liveness_inv s \<longleftrightarrow> bt_polled s \<le> bt_now s \<and> bt_now s \<le> bt_polled s + MODEL_WAIT_POLL_MS \<and> bt_changed s \<le> bt_now s \<and>
     tk_seq (bt_ticker s) \<le> bt_seq s \<and> wd_seq (bt_watchdog s) \<le> bt_seq s \<and>
     bt_polled s - tk_quiet (bt_ticker s) < MODEL_WAIT_TICK_MS \<and> tk_quiet (bt_ticker s) \<le> bt_polled s \<and>
     (tk_seq (bt_ticker s) = bt_seq s \<longrightarrow> tk_quiet (bt_ticker s) - MODEL_WAIT_POLL_MS \<le> bt_changed s) \<and>
     (tk_seq (bt_ticker s) \<noteq> bt_seq s \<longrightarrow> bt_polled s \<le> bt_changed s) \<and>
     (wd_seq (bt_watchdog s) = bt_seq s \<longrightarrow> bt_changed s \<le> wd_progress (bt_watchdog s)) \<and> \<not> bt_reaped s"

lemmas liveness_consts = MODEL_WAIT_TICK_MS_def MODEL_WAIT_POLL_MS_def

lemma liveness_inv_start: "liveness_inv (bounded_start now)"
  by (simp add: liveness_inv_def bounded_start_def watchdog_open_def ticker_open_def liveness_consts)

lemma liveness_inv_step:
  assumes "liveness_inv s" "bt_now s \<le> liveness_time e" "liveness_time e \<le> bt_polled s + MODEL_WAIT_POLL_MS"
    "model_waits e" "30 \<le> bound"
  shows "liveness_inv (liveness_step bound e s)"
proof (cases e)
  case (Wrote now)
  then show ?thesis using assms by (auto simp: liveness_inv_def liveness_consts)
next
  case (Ticked now waiting)
  then show ?thesis using assms by (auto simp: liveness_inv_def ticker_poll_def liveness_consts)
next
  case (Watched now)
  then show ?thesis using assms by (auto simp: liveness_inv_def watchdog_poll_def liveness_consts)
qed

interpretation waiting: guarded_machine "liveness_step bound" "liveness_run bound"
  "\<lambda>e s. bt_now s \<le> liveness_time e \<and> liveness_time e \<le> bt_polled s + MODEL_WAIT_POLL_MS \<and> model_waits e"
  "\<lambda>es s. on_time bound es s \<and> list_all model_waits es"
  for bound
  by unfold_locales auto

lemma liveness_run_inv:
  "liveness_inv s \<Longrightarrow> on_time bound es s \<Longrightarrow> list_all model_waits es \<Longrightarrow> 30 \<le> bound \<Longrightarrow>
     liveness_inv (liveness_run bound es s)"
  using waiting.allowed_keeps [where P = liveness_inv and bound = bound] liveness_inv_step by blast

section \<open>A silent turn is reaped\<close>

text \<open>Samples a poll interval apart, on a buffer that no longer changes.\<close>

definition silent_samples :: "int \<Rightarrow> int \<Rightarrow> nat \<Rightarrow> (int \<times> int) list" where
  "silent_samples now seq n = map (\<lambda>i. (now + 1000 * IDLE_POLL_SECONDS * int (Suc i), seq)) [0..<n]"

lemma watchdog_run_map:
  assumes "\<And>i. i < n \<Longrightarrow> f i - wd_progress w < 1000 * bound"
  shows "watchdog_run bound (map (\<lambda>i. (f i, wd_seq w)) [0..<n] @ ps) w = watchdog_run bound ps w"
  using assms
proof (induction n arbitrary: ps)
  case (Suc n)
  have "watchdog_run bound (map (\<lambda>i. (f i, wd_seq w)) [0..<n] @ (f n, wd_seq w) # ps) w =
      watchdog_run bound ((f n, wd_seq w) # ps) w" by (rule Suc.IH) (use Suc.prems in simp)
  also have "\<dots> = watchdog_run bound ps w" using Suc.prems [of n] by (simp add: watchdog_poll_def)
  finally show ?case by simp
qed simp

text \<open>The first sample that is late enough reaps.\<close>

lemma silent_reaped:
  assumes "0 < bound"
  defines "m \<equiv> nat ((bound - 1) div IDLE_POLL_SECONDS)"
  shows "m < n \<Longrightarrow> watchdog_run bound (silent_samples now seq n) \<lparr>wd_seq = seq, wd_progress = now\<rparr> =
    Some (now + 1000 * IDLE_POLL_SECONDS * ((bound - 1) div IDLE_POLL_SECONDS + 1))"
proof -
  assume n: "m < n"
  let ?w = "\<lparr>wd_seq = seq, wd_progress = now\<rparr>" and ?f = "\<lambda>i. now + 1000 * IDLE_POLL_SECONDS * int (Suc i)"
  have m: "int m = (bound - 1) div 15" using assms by (simp add: IDLE_POLL_SECONDS_def)
  have "15 * ((bound - 1) div 15) < bound" "bound \<le> 15 * ((bound - 1) div 15 + 1)" by presburger+
  then have bounds: "15 * int m < bound" "bound \<le> 15 * int (Suc m)" using m by simp_all
  have "[0..<n] = [0..<m] @ m # [Suc m..<n]" using n upt_add_eq_append [of 0 m "n - m"] upt_conv_Cons [OF n] by simp
  then have "silent_samples now seq n = map (\<lambda>i. (?f i, wd_seq ?w)) [0..<m] @ (?f m, seq) # map (\<lambda>i. (?f i, seq)) [Suc m..<n]"
    by (simp add: silent_samples_def)
  moreover have "?f i - wd_progress ?w < 1000 * bound" if "i < m" for i
    using that bounds by (simp add: IDLE_POLL_SECONDS_def)
  ultimately have "watchdog_run bound (silent_samples now seq n) ?w =
      watchdog_run bound ((?f m, seq) # map (\<lambda>i. (?f i, seq)) [Suc m..<n]) ?w" using watchdog_run_map [of m ?f ?w bound] by simp
  also have "\<dots> = Some (?f m)" using bounds by (simp add: watchdog_poll_def IDLE_POLL_SECONDS_def)
  finally show ?thesis using m by (simp add: IDLE_POLL_SECONDS_def)
qed

end
