(* ===== verification/Liveness_Claims.thy ===== *)
theory Liveness_Claims
  imports Turn_Liveness
begin

text \<open>The properties of the idle bound of a turn.\<close>

text \<open>A minute of a silent model call: the ticker every five seconds, the watchdog every fifteen.\<close>

definition lx_minute :: "liveness_event list" where
  "lx_minute = concat (map (\<lambda>k. [Ticked (15000 * k + 5000) True, Ticked (15000 * k + 10000) True, Ticked (15000 * k + 15000) True,
     Watched (15000 * k + 15000)]) [0, 1, 2, 3])"

lemma idle_bound_positive: "0 < idle_bound_seconds raw"
  by (simp add: idle_bound_seconds_def split: option.split sum.split)

text \<open>C38. A waiting model call is not taken for a hung turn. While the ticker passes on time and always finds a waiting
  call, the watchdog never reaps the turn, whatever else writes and whenever the watchdog looks, for every
  idle bound of at least thirty seconds.\<close>

theorem waiting_call_not_reaped:
  assumes "on_time (idle_bound_seconds raw) es (bounded_start now)" "list_all model_waits es" "30 \<le> idle_bound_seconds raw"
  shows "\<not> bt_reaped (liveness_run (idle_bound_seconds raw) es (bounded_start now))"
  using liveness_run_inv [OF liveness_inv_start assms] by (simp add: liveness_inv_def)

theorem waiting_call_not_reaped_witness:
  "\<not> bt_reaped (liveness_run (idle_bound_seconds (Some ''30'')) lx_minute (bounded_start 0))"
proof -
  have "on_time (idle_bound_seconds (Some ''30'')) lx_minute (bounded_start 0)" "list_all model_waits lx_minute"
    "30 \<le> idle_bound_seconds (Some ''30'')" by code_simp+
  then show ?thesis by (rule waiting_call_not_reaped)
qed

text \<open>C40. A hung turn is reaped, not too early and not too late. When the last record was written less than a poll
  interval before the watchdog noticed it and none follows, the watchdog reaps the turn; no sooner than the
  idle bound after that record, and less than two poll intervals past the bound. It is within one poll
  interval where the bound is a multiple of it.\<close>

theorem hung_turn_reaped:
  assumes "wd_seq w \<noteq> seq" "written \<le> noticed" "noticed < written + 1000 * IDLE_POLL_SECONDS"
    "nat ((idle_bound_seconds raw - 1) div IDLE_POLL_SECONDS) < n"
  shows "\<exists>t. watchdog_run (idle_bound_seconds raw) ((noticed, seq) # silent_samples noticed seq n) w = Some t \<and>
    written + 1000 * idle_bound_seconds raw \<le> t \<and>
    t < written + 1000 * (idle_bound_seconds raw + 2 * IDLE_POLL_SECONDS) \<and>
    (IDLE_POLL_SECONDS dvd idle_bound_seconds raw \<longrightarrow> t < written + 1000 * (idle_bound_seconds raw + IDLE_POLL_SECONDS))"
proof -
  let ?b = "idle_bound_seconds raw"
  define q where "q = (?b - 1) div 15"
  have q: "15 * q < ?b" "?b \<le> 15 * q + 15" unfolding q_def by presburger+
  have dvd: "?b = 15 * q + 15" if "15 dvd ?b" using that unfolding q_def by presburger
  have "watchdog_run ?b ((noticed, seq) # silent_samples noticed seq n) w =
      watchdog_run ?b (silent_samples noticed seq n) \<lparr>wd_seq = seq, wd_progress = noticed\<rparr>"
    using assms(1) by (simp add: watchdog_poll_def)
  also have "\<dots> = Some (noticed + 15000 * (q + 1))"
    using silent_reaped [OF idle_bound_positive assms(4)] by (simp add: IDLE_POLL_SECONDS_def q_def)
  finally show ?thesis using assms(2,3) q dvd by (auto simp: IDLE_POLL_SECONDS_def)
qed

theorem hung_turn_reaped_witness:
  "\<exists>t. watchdog_run (idle_bound_seconds None) ((15000, 1) # silent_samples 15000 1 40) (watchdog_open 0 0) = Some t \<and>
     t < 1 + 1000 * (600 + 15)"
proof -
  have "wd_seq (watchdog_open 0 0) \<noteq> 1" "(1::int) \<le> 15000" "(15000::int) < 1 + 1000 * IDLE_POLL_SECONDS"
    "nat ((idle_bound_seconds None - 1) div IDLE_POLL_SECONDS) < 40" "IDLE_POLL_SECONDS dvd idle_bound_seconds None"
    "idle_bound_seconds None = 600" "IDLE_POLL_SECONDS = 15" by code_simp+
  then show ?thesis using hung_turn_reaped [of "watchdog_open 0 0" 1 1 15000 None 40] by metis
qed

end
