(* ===== verification/Turn_Index.thy ===== *)
theory Turn_Index
  imports Json_Codec Interleavings
begin

text \<open>
  The shared index of current turns (\<^verbatim>\<open>src/cowork/streaming/turn_index.py\<close>): one Redis hash per conversation
  and one set of conversation ids, used by every replica at once. A Redis command, and a transaction once
  it executes, is atomic; a call of several round trips is a client that advances one round trip at a time
  while others run. \<open>WATCH\<close> is a flag of the client that any write to a watched key sets and that makes the
  client's transaction abort. A key may expire at any moment; whether expiry marks its watchers is left
  open, since Redis versions differ.
\<close>

section \<open>State\<close>

type_synonym turn_fields = "(string \<times> string) list"

text \<open>Clients in the middle of a call: \<open>list_turns\<close> between reading the members and pruning, \<open>_prune\<close> and
  \<open>forget_run\<close> between \<open>WATCH\<close> and \<open>EXEC\<close> (has it checked, was it marked), \<open>forget_turn\<close> after its \<open>DELETE\<close>.\<close>

datatype index_client =
    Listing "string list" "(string \<times> turn_fields) list" "string list"
  | Pruning "string list" bool bool
  | Forgetting_Run string string bool bool
  | Forgetting_Turn string

record turn_index =
  ti_hashes :: "(string \<times> turn_fields) list"
  ti_members :: "string list"
  ti_clients :: "(nat \<times> index_client) list"
  ti_listed :: "(string \<times> turn_fields) list"

definition empty_index :: turn_index where
  "empty_index = \<lparr>ti_hashes = [], ti_members = [], ti_clients = [], ti_listed = []\<rparr>"

section \<open>Redis\<close>

text \<open>A write to the hash of \<open>cid\<close> marks every client that watches it.\<close>

fun mark :: "string \<Rightarrow> index_client \<Rightarrow> index_client" where
  "mark cid (Pruning ids checked dirty) = Pruning ids checked (dirty \<or> cid \<in> set ids)"
| "mark cid (Forgetting_Run c run checked dirty) = Forgetting_Run c run checked (dirty \<or> cid = c)"
| "mark cid client = client"

definition touch :: "string \<Rightarrow> turn_index \<Rightarrow> turn_index" where
  "touch cid s = s\<lparr>ti_clients := map (\<lambda>(i, c). (i, mark cid c)) (ti_clients s)\<rparr>"

definition delete_hash :: "string \<Rightarrow> turn_index \<Rightarrow> turn_index" where
  "delete_hash cid s = (if map_of (ti_hashes s) cid = None then s
     else (touch cid s)\<lparr>ti_hashes := al_del cid (ti_hashes s)\<rparr>)"

definition srem :: "string list \<Rightarrow> turn_index \<Rightarrow> turn_index" where
  "srem ids s = s\<lparr>ti_members := filter (\<lambda>c. c \<notin> set ids) (ti_members s)\<rparr>"

definition sadd :: "string \<Rightarrow> turn_index \<Rightarrow> turn_index" where
  "sadd cid s = (if cid \<in> set (ti_members s) then s else s\<lparr>ti_members := ti_members s @ [cid]\<rparr>)"

section \<open>The calls\<close>

definition or_empty :: "string option \<Rightarrow> string" where
  "or_empty x = (case x of None \<Rightarrow> '''' | Some s \<Rightarrow> s)"

definition turn_fields_of ::
  "int \<Rightarrow> string \<Rightarrow> string option \<Rightarrow> string option \<Rightarrow> string option \<Rightarrow> string \<Rightarrow> turn_fields" where
  "turn_fields_of turn_id correlation_id org_id user_id rid started_at =
     [(''turn_id'', int_repr turn_id), (''correlation_id'', correlation_id), (''org_id'', or_empty org_id),
      (''user_id'', or_empty user_id), (''started_at'', started_at)] @
     (case rid of None \<Rightarrow> [] | Some r \<Rightarrow> [(''run_id'', r)])"

definition record_turn :: "string \<Rightarrow> turn_fields \<Rightarrow> turn_index \<Rightarrow> turn_index" where
  "record_turn cid flds s = sadd cid ((touch cid s)\<lparr>ti_hashes := al_put cid flds (ti_hashes s)\<rparr>)"

definition get_turn :: "string \<Rightarrow> turn_index \<Rightarrow> turn_fields option" where
  "get_turn cid s = (case map_of (ti_hashes s) cid of
     None \<Rightarrow> None | Some turn \<Rightarrow> if turn = [] then None else Some turn)"

record turn_owner =
  owner_org :: "string option"
  owner_user :: "string option"

definition none_if_empty :: "string option \<Rightarrow> string option" where
  "none_if_empty x = (if x = Some '''' then None else x)"

definition owner_from_index :: "turn_fields \<Rightarrow> turn_owner" where
  "owner_from_index turn = \<lparr>owner_org = none_if_empty (map_of turn ''org_id''),
     owner_user = none_if_empty (map_of turn ''user_id'')\<rparr>"

text \<open>What a client does in its next round trip, with the client it becomes, if any.\<close>

definition list_step ::
  "string list \<Rightarrow> (string \<times> turn_fields) list \<Rightarrow> string list \<Rightarrow> turn_index \<Rightarrow> turn_index \<times> index_client option" where
  "list_step todo out expired s = (case todo of
     cid # rest \<Rightarrow> (case get_turn cid s of
         None \<Rightarrow> (s, Some (Listing rest out (expired @ [cid])))
       | Some turn \<Rightarrow> (s, Some (Listing rest (out @ [(cid, turn)]) expired)))
   | [] \<Rightarrow> (s\<lparr>ti_listed := out\<rparr>, if expired = [] then None else Some (Pruning expired False False)))"

definition prune_step :: "string list \<Rightarrow> bool \<Rightarrow> bool \<Rightarrow> turn_index \<Rightarrow> turn_index \<times> index_client option" where
  "prune_step ids checked dirty s =
     (if \<not> checked then
        (if list_ex (\<lambda>cid. map_of (ti_hashes s) cid \<noteq> None) ids then (s, None)
         else (s, Some (Pruning ids True dirty)))
      else if dirty then (s, None)
      else (srem ids s, None))"

definition forget_run_step ::
  "string \<Rightarrow> string \<Rightarrow> bool \<Rightarrow> bool \<Rightarrow> turn_index \<Rightarrow> turn_index \<times> index_client option" where
  "forget_run_step cid rid checked dirty s =
     (if \<not> checked then
        (case map_of (ti_hashes s) cid of
           None \<Rightarrow> (s, None)
         | Some turn \<Rightarrow> if map_of turn ''run_id'' = Some rid
             then (s, Some (Forgetting_Run cid rid True dirty)) else (s, None))
      else if dirty then (s, None)
      else (srem [cid] (delete_hash cid s), None))"

fun client_step :: "index_client \<Rightarrow> turn_index \<Rightarrow> turn_index \<times> index_client option" where
  "client_step (Listing todo out expired) s = list_step todo out expired s"
| "client_step (Pruning ids checked dirty) s = prune_step ids checked dirty s"
| "client_step (Forgetting_Run cid rid checked dirty) s = forget_run_step cid rid checked dirty s"
| "client_step (Forgetting_Turn cid) s = (srem [cid] s, None)"

datatype index_event =
    Record_Turn string turn_fields
  | Expire string bool
  | List_Turns nat
  | Forget_Run nat string string
  | Forget_Turn nat string
  | Resume nat

definition set_client :: "nat \<Rightarrow> index_client option \<Rightarrow> turn_index \<Rightarrow> turn_index" where
  "set_client i c s = (case c of
     None \<Rightarrow> s\<lparr>ti_clients := al_del i (ti_clients s)\<rparr>
   | Some x \<Rightarrow> s\<lparr>ti_clients := al_put i x (ti_clients s)\<rparr>)"

fun index_step :: "index_event \<Rightarrow> turn_index \<Rightarrow> turn_index" where
  "index_step (Record_Turn cid flds) s = record_turn cid flds s"
| "index_step (Expire cid marks) s = (if marks then delete_hash cid s
     else s\<lparr>ti_hashes := al_del cid (ti_hashes s)\<rparr>)"
| "index_step (List_Turns i) s = (if ti_members s = [] then s\<lparr>ti_listed := []\<rparr>
     else set_client i (Some (Listing (ti_members s) [] [])) s)"
| "index_step (Forget_Run i cid rid) s = set_client i (Some (Forgetting_Run cid rid False False)) s"
| "index_step (Forget_Turn i cid) s = set_client i (Some (Forgetting_Turn cid)) (delete_hash cid s)"
| "index_step (Resume i) s = (case map_of (ti_clients s) i of
     None \<Rightarrow> s
   | Some c \<Rightarrow> (case client_step c (s\<lparr>ti_clients := al_del i (ti_clients s)\<rparr>) of (s', c') \<Rightarrow> set_client i c' s'))"

fun index_run :: "index_event list \<Rightarrow> turn_index \<Rightarrow> turn_index" where
  "index_run [] s = s"
| "index_run (ev # evs) s = index_run evs (index_step ev s)"

text \<open>A new call has its own client; \<open>forget_turn\<close> is the call of a conversation's deletion.\<close>

fun index_event_ok :: "index_event \<Rightarrow> turn_index \<Rightarrow> bool" where
  "index_event_ok (Record_Turn cid flds) s \<longleftrightarrow> flds \<noteq> []"
| "index_event_ok (List_Turns i) s \<longleftrightarrow> map_of (ti_clients s) i = None"
| "index_event_ok (Forget_Run i cid rid) s \<longleftrightarrow> map_of (ti_clients s) i = None"
| "index_event_ok (Forget_Turn i cid) s \<longleftrightarrow> False"
| "index_event_ok _ s \<longleftrightarrow> True"

fun index_events_ok :: "index_event list \<Rightarrow> turn_index \<Rightarrow> bool" where
  "index_events_ok [] s \<longleftrightarrow> True"
| "index_events_ok (ev # evs) s \<longleftrightarrow> index_event_ok ev s \<and> index_events_ok evs (index_step ev s)"

section \<open>The invariant\<close>

text \<open>A client that checked and was not marked still sees what it checked.\<close>

fun client_ok :: "(string \<rightharpoonup> turn_fields) \<Rightarrow> index_client \<Rightarrow> bool" where
  "client_ok h (Pruning ids checked dirty) \<longleftrightarrow> (checked \<and> \<not> dirty \<longrightarrow> (\<forall>cid \<in> set ids. h cid = None))"
| "client_ok h (Forgetting_Run cid rid checked dirty) \<longleftrightarrow> (checked \<and> \<not> dirty \<longrightarrow>
     (\<forall>turn. h cid = Some turn \<longrightarrow> map_of turn ''run_id'' = Some rid))"
| "client_ok h (Forgetting_Turn cid) \<longleftrightarrow> False"
| "client_ok h (Listing todo out expired) \<longleftrightarrow> True"

definition index_inv :: "turn_index \<Rightarrow> bool" where
  "index_inv s \<longleftrightarrow> dom (map_of (ti_hashes s)) \<subseteq> set (ti_members s) \<and>
     (\<forall>c \<in> set (ti_clients s). client_ok (map_of (ti_hashes s)) (snd c))"

lemma mark_ok: "client_ok h c \<Longrightarrow> client_ok (h(cid := v)) (mark cid c)"
  by (cases c) auto

lemma vanish_ok: "client_ok h c \<Longrightarrow> client_ok (h(cid := None)) c"
  by (cases c) auto

lemma set_touch:
  "ti_hashes (touch cid s) = ti_hashes s" "ti_members (touch cid s) = ti_members s"
  "ti_clients (touch cid s) = map (\<lambda>(i, c). (i, mark cid c)) (ti_clients s)"
  by (simp_all add: touch_def)

lemma index_inv_listed [simp]: "index_inv (s\<lparr>ti_listed := x\<rparr>) = index_inv s"
  by (simp add: index_inv_def)

lemma record_turn_inv: "index_inv s \<Longrightarrow> index_inv (record_turn cid flds s)"
  by (auto simp: index_inv_def record_turn_def sadd_def set_touch mark_ok)

lemma delete_hash_fields:
  "map_of (ti_hashes (delete_hash cid s)) = (map_of (ti_hashes s))(cid := None)"
  "ti_members (delete_hash cid s) = ti_members s"
  by (auto simp: delete_hash_def set_touch)

lemma delete_hash_inv: "index_inv s \<Longrightarrow> index_inv (delete_hash cid s)"
  by (auto simp: index_inv_def delete_hash_def set_touch mark_ok)

lemma set_client_inv:
  assumes "index_inv s" "\<And>x. c = Some x \<Longrightarrow> client_ok (map_of (ti_hashes s)) x"
  shows "index_inv (set_client i c s)"
proof -
  have put: "set (al_put i x ps) \<subseteq> insert (i, x) (set ps)" for x :: index_client and ps
    by (induction ps) auto
  show ?thesis
  proof (cases c)
    case (Some x)
    then show ?thesis using assms put [of x "ti_clients s"] by (fastforce simp: index_inv_def set_client_def)
  qed (use assms(1) in \<open>auto simp: index_inv_def set_client_def al_del_def\<close>)
qed

lemma drop_client_inv: "index_inv s \<Longrightarrow> index_inv (s\<lparr>ti_clients := al_del i (ti_clients s)\<rparr>)"
  using set_client_inv [of s None i] by (simp add: set_client_def)

lemma srem_inv:
  "index_inv s \<Longrightarrow> (\<And>cid. cid \<in> set ids \<Longrightarrow> map_of (ti_hashes s) cid = None) \<Longrightarrow> index_inv (srem ids s)"
  by (auto simp: index_inv_def srem_def)

lemma client_step_inv:
  assumes "index_inv s" "client_ok (map_of (ti_hashes s)) c" "client_step c s = (s', c')"
  shows "index_inv s' \<and> (\<forall>x. c' = Some x \<longrightarrow> client_ok (map_of (ti_hashes s')) x)"
proof (cases c)
  case (Listing todo out expired)
  then show ?thesis using assms
    by (auto simp: list_step_def split: list.splits option.splits if_splits)
next
  case (Pruning ids checked dirty)
  then show ?thesis using assms srem_inv [of s ids]
    by (auto simp: prune_step_def list_ex_iff split: if_splits)
next
  case (Forgetting_Run cid rid checked dirty)
  moreover have "index_inv (srem [cid] (delete_hash cid s))"
    by (rule srem_inv [OF delete_hash_inv [OF assms(1)]]) (simp add: delete_hash_fields)
  ultimately show ?thesis using assms by (auto simp: forget_run_step_def split: if_splits option.splits)
next
  case (Forgetting_Turn cid)
  then show ?thesis using assms(2) by simp
qed

lemma index_step_inv:
  assumes "index_inv s" "index_event_ok ev s"
  shows "index_inv (index_step ev s)"
proof (cases ev)
  case (Expire cid marks)
  then show ?thesis using assms delete_hash_inv
    by (auto simp: index_inv_def vanish_ok)
next
  case (Resume i)
  show ?thesis
  proof (cases "map_of (ti_clients s) i")
    case (Some c)
    let ?s = "s\<lparr>ti_clients := al_del i (ti_clients s)\<rparr>"
    obtain s' c' where step: "client_step c ?s = (s', c')" by (cases "client_step c ?s")
    have "client_ok (map_of (ti_hashes ?s)) c" using assms(1) map_of_SomeD [OF Some] by (auto simp: index_inv_def)
    then have "index_inv s' \<and> (\<forall>x. c' = Some x \<longrightarrow> client_ok (map_of (ti_hashes s')) x)"
      using client_step_inv [OF drop_client_inv [OF assms(1)] _ step] by simp
    then show ?thesis using Resume Some step by (auto intro!: set_client_inv)
  qed (use assms Resume in simp)
next
  case (List_Turns i)
  then show ?thesis using assms(1) List_Turns by (auto intro!: set_client_inv)
qed (use assms record_turn_inv in \<open>auto intro!: set_client_inv\<close>)

interpretation indexing: guarded_machine index_step index_run index_event_ok index_events_ok
  by unfold_locales simp_all

lemma index_run_inv: "index_inv s \<Longrightarrow> index_events_ok evs s \<Longrightarrow> index_inv (index_run evs s)"
  by (rule indexing.allowed_keeps [where P = index_inv, OF index_step_inv])

lemma index_inv_empty: "index_inv empty_index"
  by (simp add: index_inv_def empty_index_def)

section \<open>What a call removes\<close>

lemma client_step_removes:
  assumes "client_ok (map_of (ti_hashes s)) c" "client_step c s = (s', c')"
    and "map_of (ti_hashes s) cid = Some turn" "map_of (ti_hashes s') cid = None"
  shows "\<exists>rid d. c = Forgetting_Run cid rid True d \<and> map_of turn ''run_id'' = Some rid"
  using assms
  by (cases c) (auto simp: list_step_def prune_step_def forget_run_step_def srem_def delete_hash_fields
      split: list.splits option.splits if_splits)

lemma client_step_keeps:
  "client_step c s = (s', c') \<Longrightarrow>
     map_of (ti_hashes s') cid = None \<or> map_of (ti_hashes s') cid = map_of (ti_hashes s) cid"
  by (cases c) (auto simp: list_step_def prune_step_def forget_run_step_def srem_def delete_hash_fields
      split: list.splits option.splits if_splits)

end
