(* ===== verification/Index_Claims.thy ===== *)
theory Index_Claims
  imports Turn_Index
begin

text \<open>The properties of the shared turn index.\<close>

definition ix_fields :: turn_fields where
  "ix_fields = turn_fields_of 3 ''corr'' (Some ''org'') None (Some ''run'') ''0''"

text \<open>A listing that reads an expired turn, which is recorded again before the prune lands.\<close>

definition ix_race :: "index_event list" where
  "ix_race = [Record_Turn ''c'' ix_fields, Expire ''c'' False, List_Turns 0, Resume 0, Resume 0, Resume 0,
     Record_Turn ''c'' ix_fields, Resume 0]"



text \<open>C21. Pruning never hides a live turn. For every interleaving of recording turns, listing and pruning,
  abandoning runs and keys expiring, a conversation with a recorded turn is a member of the set that
  \<open>list_turns\<close> starts from.\<close>

theorem recorded_turn_listed:
  assumes "index_events_ok evs empty_index" "get_turn cid (index_run evs empty_index) \<noteq> None"
  shows "cid \<in> set (ti_members (index_run evs empty_index))"
proof -
  have "index_inv (index_run evs empty_index)" by (rule index_run_inv [OF index_inv_empty assms(1)])
  moreover have "map_of (ti_hashes (index_run evs empty_index)) cid \<noteq> None"
    using assms(2) by (auto simp: get_turn_def split: option.splits)
  ultimately show ?thesis by (auto simp: index_inv_def)
qed

theorem recorded_turn_listed_witness:
  "ti_clients (index_run ix_race empty_index) = [] \<and> ''c'' \<in> set (ti_members (index_run ix_race empty_index))"
proof -
  have "index_events_ok ix_race empty_index" "get_turn ''c'' (index_run ix_race empty_index) \<noteq> None"
    "ti_clients (index_run ix_race empty_index) = []" by code_simp+
  then show ?thesis using recorded_turn_listed by blast
qed




end
