(* ===== verification/Store_Journal.thy ===== *)
theory Store_Journal
  imports Document_Store Answer_Text
begin

text \<open>
  The transaction journal of the local control-plane store: \<open>_save_many\<close> and \<open>_recover_transaction\<close> of
  \<^verbatim>\<open>src/cowork/coding/control_store.py\<close>, operation by operation on the files. Every file operation has a fate: it is
  done, it raises an \<open>OSError\<close>, or the process dies at it. A text is written in two operations, creating an empty
  file and filling it; a rename replaces its target in one. What dies is the process: the order in which a
  disk makes operations durable is not modelled.
\<close>

section \<open>Files and fates\<close>

text \<open>The document files by collection and id, the hidden staging files by collection and name (\<open>None\<close>: created and not
  filled), the journal and its temporary file.\<close>

record 'd disk =
  dk_docs :: "((string \<times> string) \<times> 'd) list"
  dk_stages :: "((string \<times> string) \<times> 'd option) list"
  dk_journal :: "json option"
  dk_temp :: "json option option"

datatype fate = Go | Fail | Crash

datatype 'a outcome = Returned_Val 'a | Raised_Err error | Crashed

text \<open>What the process holds besides: the fates to come, and the local list \<open>staged\<close>.\<close>

record 'd world =
  w_disk :: "'d disk"
  w_fates :: "fate list"
  w_staged :: "(string \<times> string \<times> string) list"

type_synonym ('d, 'a) io = "'d world \<Rightarrow> 'a outcome \<times> 'd world"

definition io_return :: "'a \<Rightarrow> ('d, 'a) io" where
  "io_return x w = (Returned_Val x, w)"

definition io_raise :: "error \<Rightarrow> ('d, 'a) io" where
  "io_raise e w = (Raised_Err e, w)"

definition io_bind :: "('d, 'a) io \<Rightarrow> ('a \<Rightarrow> ('d, 'b) io) \<Rightarrow> ('d, 'b) io" where
  "io_bind m f w = (case m w of
     (Returned_Val x, w') \<Rightarrow> f x w' | (Raised_Err e, w') \<Rightarrow> (Raised_Err e, w') | (Crashed, w') \<Rightarrow> (Crashed, w'))"

definition io_catch :: "('d, 'a) io \<Rightarrow> (error \<Rightarrow> ('d, 'a) io) \<Rightarrow> ('d, 'a) io" where
  "io_catch m h w = (case m w of (Raised_Err e, w') \<Rightarrow> h e w' | r \<Rightarrow> r)"

text \<open>\<open>finally\<close>: also after an exception, not after a crash; its own exception replaces the outcome.\<close>

definition io_finally :: "('d, 'a) io \<Rightarrow> ('d, unit) io \<Rightarrow> ('d, 'a) io" where
  "io_finally m c w = (case m w of
     (Crashed, w') \<Rightarrow> (Crashed, w')
   | (r, w') \<Rightarrow> (case c w' of (Returned_Val _, w'') \<Rightarrow> (r, w'')
       | (Raised_Err e, w'') \<Rightarrow> (Raised_Err e, w'') | (Crashed, w'') \<Rightarrow> (Crashed, w'')))"

definition io_error :: error where
  "io_error = RuntimeError ''OSError''"

text \<open>A file operation; \<open>None\<close> is a missing file.\<close>

definition io_op :: "('d disk \<Rightarrow> 'd disk option) \<Rightarrow> ('d, unit) io" where
  "io_op f w = (case w_fates w of
     Fail # fs \<Rightarrow> (Raised_Err io_error, w\<lparr>w_fates := fs\<rparr>)
   | Crash # fs \<Rightarrow> (Crashed, w\<lparr>w_fates := fs\<rparr>)
   | _ \<Rightarrow> (let w' = w\<lparr>w_fates := tl (w_fates w)\<rparr> in case f (w_disk w) of
       None \<Rightarrow> (Raised_Err io_error, w') | Some d \<Rightarrow> (Returned_Val (), w'\<lparr>w_disk := d\<rparr>)))"

fun io_all :: "('a \<Rightarrow> ('d, unit) io) \<Rightarrow> 'a list \<Rightarrow> ('d, unit) io" where
  "io_all f [] = io_return ()"
| "io_all f (x # xs) = io_bind (f x) (\<lambda>_. io_all f xs)"

section \<open>File operations\<close>

definition write_stage :: "string \<Rightarrow> string \<Rightarrow> 'd option \<Rightarrow> 'd disk \<Rightarrow> 'd disk option" where
  "write_stage c n x d = Some (d\<lparr>dk_stages := al_put (c, n) x (dk_stages d)\<rparr>)"

definition write_temp :: "json option \<Rightarrow> 'd disk \<Rightarrow> 'd disk option" where
  "write_temp x d = Some (d\<lparr>dk_temp := Some x\<rparr>)"

definition publish_journal :: "'d disk \<Rightarrow> 'd disk option" where
  "publish_journal d = (case dk_temp d of
     Some (Some j) \<Rightarrow> Some (d\<lparr>dk_journal := Some j, dk_temp := None\<rparr>) | _ \<Rightarrow> None)"

definition move_stage :: "string \<Rightarrow> string \<Rightarrow> string \<Rightarrow> 'd disk \<Rightarrow> 'd disk option" where
  "move_stage c n i d = (case map_of (dk_stages d) (c, n) of
     Some (Some x) \<Rightarrow> Some (d\<lparr>dk_stages := al_del (c, n) (dk_stages d), dk_docs := al_put (c, i) x (dk_docs d)\<rparr>)
   | _ \<Rightarrow> None)"

definition unlink_journal :: "'d disk \<Rightarrow> 'd disk option" where
  "unlink_journal d = (if dk_journal d = None then None else Some (d\<lparr>dk_journal := None\<rparr>))"

definition unlink_temp :: "'d disk \<Rightarrow> 'd disk option" where
  "unlink_temp d = Some (d\<lparr>dk_temp := None\<rparr>)"

definition unlink_stage :: "string \<Rightarrow> string \<Rightarrow> 'd disk \<Rightarrow> 'd disk option" where
  "unlink_stage c n d = Some (d\<lparr>dk_stages := al_del (c, n) (dk_stages d)\<rparr>)"

definition unlink_doc :: "string \<Rightarrow> string \<Rightarrow> 'd disk \<Rightarrow> 'd disk option" where
  "unlink_doc c i d = Some (d\<lparr>dk_docs := al_del (c, i) (dk_docs d)\<rparr>)"

section \<open>Recovery\<close>

definition COLLECTIONS :: "string list" where
  "COLLECTIONS = [''computers'', ''tasks'', ''runs'', ''workspaces'', ''grants'', ''commands'', ''runtime_credentials'',
     ''registration_credentials'', ''run_credentials'', ''audit'']"

definition invalid_journal :: error where
  "invalid_journal = ValueError ''invalid control-plane transaction journal''"

text \<open>\<open>Path(stage).name == stage\<close>.\<close>

definition plain_name :: "string \<Rightarrow> bool" where
  "plain_name s \<longleftrightarrow> CHR ''/'' \<notin> set s \<and> s \<noteq> ''.''"

definition recover_entry :: "json \<Rightarrow> ('d, unit) io" where
  "recover_entry raw = (case raw of
     JDict e \<Rightarrow>
       (case (get_or_null e ''collection'', get_or_null e ''document_id'', get_or_null e ''stage'') of
          (JStr c, JStr i, JStr n) \<Rightarrow>
            if c \<notin> set COLLECTIONS \<or> \<not> plain_name n then io_raise invalid_journal
            else if \<not> path_ok i then io_raise invalid_id
            else io_bind (io_op (unlink_doc c i)) (\<lambda>_. io_op (unlink_stage c n))
        | _ \<Rightarrow> io_raise invalid_journal)
   | _ \<Rightarrow> io_raise invalid_journal)"

definition recover_transaction :: "('d, unit) io" where
  "recover_transaction = (\<lambda>w. case dk_journal (w_disk w) of
     None \<Rightarrow> (Returned_Val (), w)
   | Some payload \<Rightarrow> io_bind (io_op Some) (\<lambda>_. case payload of
       JDict p \<Rightarrow>
         (if \<not> py_eq (get_or_null p ''schema_version'') (JInt 1)
          then io_raise (ValueError ''unsupported control-plane transaction journal'')
          else case get_or_null p ''entries'' of
            JList es \<Rightarrow> io_bind (io_all recover_entry es) (\<lambda>_. io_op unlink_journal)
          | _ \<Rightarrow> io_raise (ValueError ''unsupported control-plane transaction journal''))
     | _ \<Rightarrow> io_raise (AttributeError ''get'')) w)"

section \<open>Saving several documents\<close>

text \<open>A document with its collection and its id.\<close>

type_synonym 'd pending_doc = "string \<times> string \<times> 'd"

definition stage_name :: "string \<Rightarrow> string \<Rightarrow> string" where
  "stage_name tx i = ''.'' @ i @ ''.'' @ tx @ ''.tmp''"

definition journal_entry :: "string \<Rightarrow> 'd pending_doc \<Rightarrow> json" where
  "journal_entry tx = (\<lambda>(c, i, _). JDict [(''collection'', JStr c), (''document_id'', JStr i),
     (''stage'', JStr (stage_name tx i))])"

definition journal_of :: "string \<Rightarrow> 'd pending_doc list \<Rightarrow> json" where
  "journal_of tx ds = JDict [(''schema_version'', JInt 1), (''entries'', JList (map (journal_entry tx) ds))]"

text \<open>The target is checked, then its text is staged.\<close>

definition stage_document :: "string \<Rightarrow> 'd pending_doc \<Rightarrow> ('d, unit) io" where
  "stage_document tx = (\<lambda>(c, i, d) w.
     if c \<notin> set COLLECTIONS then (Raised_Err (ValueError ''unknown control-plane collection''), w)
     else if \<not> path_ok i then (Raised_Err invalid_id, w)
     else if map_of (dk_docs (w_disk w)) (c, i) \<noteq> None then (Raised_Err (StateConflict (rev (dropWhile (\<lambda>x. x = CHR ''s'') (rev c)) @ '' already exists'')), w)
     else io_bind (io_op (write_stage c (stage_name tx i) None)) (\<lambda>_.
       io_bind (io_op (write_stage c (stage_name tx i) (Some d))) (\<lambda>_ w.
         (Returned_Val (), w\<lparr>w_staged := w_staged w @ [(c, stage_name tx i, i)]\<rparr>))) w)"

definition save_body :: "string \<Rightarrow> 'd pending_doc list \<Rightarrow> ('d, unit) io" where
  "save_body tx ds =
     io_bind (io_all (stage_document tx) ds) (\<lambda>_.
     io_bind (io_op (write_temp None)) (\<lambda>_.
     io_bind (io_op (write_temp (Some (journal_of tx ds)))) (\<lambda>_.
     io_bind (io_op publish_journal) (\<lambda>_.
     io_bind (io_all (\<lambda>(c, i, _). io_op (move_stage c (stage_name tx i) i)) ds) (\<lambda>_.
     io_op unlink_journal)))))"

definition save_cleanup :: "('d, unit) io" where
  "save_cleanup = io_bind (io_op unlink_temp) (\<lambda>_ w. io_all (\<lambda>(c, n, _). io_op (unlink_stage c n)) (w_staged w) w)"

definition save_failed :: "error \<Rightarrow> ('d, unit) io" where
  "save_failed e w = (if dk_journal (w_disk w) \<noteq> None
     then io_bind recover_transaction (\<lambda>_. io_raise e) w else io_raise e w)"

definition save_many :: "string \<Rightarrow> 'd pending_doc list \<Rightarrow> ('d, unit) io" where
  "save_many tx ds = (\<lambda>w. io_finally (io_catch (save_body tx ds) save_failed) save_cleanup (w\<lparr>w_staged := []\<rparr>))"

text \<open>The process starts again: recovery runs with the fates of each attempt until one returns.\<close>

definition restart :: "fate list \<Rightarrow> 'd world \<Rightarrow> 'd world" where
  "restart fates w = snd (recover_transaction (w\<lparr>w_fates := fates, w_staged := []\<rparr>))"

definition started :: "fate list \<Rightarrow> 'd world \<Rightarrow> bool" where
  "started fates w \<longleftrightarrow> fst (recover_transaction (w\<lparr>w_fates := fates, w_staged := []\<rparr>)) = Returned_Val ()"

section \<open>What a computation keeps of the disk\<close>

definition disk_keeps :: "('d disk \<Rightarrow> bool) \<Rightarrow> ('d, 'a) io \<Rightarrow> bool" where
  "disk_keeps P m \<longleftrightarrow> (\<forall>w. P (w_disk w) \<longrightarrow> P (w_disk (snd (m w))))"

named_theorems disk_keep

lemma disk_keepsD: "disk_keeps P m \<Longrightarrow> P (w_disk w) \<Longrightarrow> P (w_disk (snd (m w)))"
  by (simp add: disk_keeps_def)

lemma disk_keeps_basic [disk_keep]: "disk_keeps P (io_return x)" "disk_keeps P (io_raise e)"
  by (simp_all add: disk_keeps_def io_return_def io_raise_def)

lemma disk_keeps_bind [disk_keep]:
  fixes m :: "('d, 'a) io"
  assumes m: "disk_keeps P m" and f: "\<And>x. disk_keeps P (f x)"
  shows "disk_keeps P (io_bind m f)"
proof (unfold disk_keeps_def, intro allI impI)
  fix w :: "'d world"
  assume w: "P (w_disk w)"
  obtain r w' where r: "m w = (r, w')" by fastforce
  then have "P (w_disk w')" using disk_keepsD [OF m w] by simp
  then show "P (w_disk (snd (io_bind m f w)))" using r disk_keepsD [OF f] by (cases r) (simp_all add: io_bind_def)
qed

lemma disk_keeps_op [disk_keep]: "(\<And>d d'. P d \<Longrightarrow> f d = Some d' \<Longrightarrow> P d') \<Longrightarrow> disk_keeps P (io_op f)"
  by (auto simp: disk_keeps_def io_op_def Let_def split: list.split fate.split option.split)

lemma disk_keeps_all [disk_keep]: "(\<And>x. x \<in> set xs \<Longrightarrow> disk_keeps P (f x)) \<Longrightarrow> disk_keeps P (io_all f xs)"
  by (induction xs) (simp_all add: disk_keep)

lemma disk_keeps_if [disk_keep]: "disk_keeps P m \<Longrightarrow> disk_keeps P n \<Longrightarrow> disk_keeps P (if b then m else n)"
  by simp

text \<open>What a computation that returned did.\<close>

lemma io_bind_Returned:
  assumes "fst (io_bind m f w) = Returned_Val y"
  obtains x where "fst (m w) = Returned_Val x" "fst (f x (snd (m w))) = Returned_Val y"
    "snd (io_bind m f w) = snd (f x (snd (m w)))"
  using assms by (auto simp: io_bind_def split: prod.splits outcome.splits)

lemma io_op_Returned:
  assumes "fst (io_op f w) = Returned_Val u"
  shows "f (w_disk w) = Some (w_disk (snd (io_op f w)))" "w_staged (snd (io_op f w)) = w_staged w"
  using assms by (auto simp: io_op_def Let_def split: list.splits fate.splits option.splits)

lemma io_op_disk: "fst (io_op f w) = Returned_Val u \<Longrightarrow> w_disk (snd (io_op f w)) = the (f (w_disk w))"
  by (simp add: io_op_Returned(1))

section \<open>The three states of a transaction\<close>

definition doc_view :: "'d disk \<Rightarrow> (string \<times> string) \<rightharpoonup> 'd" where
  "doc_view d = map_of (dk_docs d)"

definition pending_keys :: "'d pending_doc list \<Rightarrow> (string \<times> string) list" where
  "pending_keys = map (\<lambda>(c, i, _). (c, i))"

definition pending_docs :: "'d pending_doc list \<Rightarrow> ((string \<times> string) \<times> 'd) list" where
  "pending_docs = map (\<lambda>(c, i, d). ((c, i), d))"

text \<open>Nothing written; the journal out, with all targets new; everything written.\<close>

definition untouched :: "((string \<times> string) \<rightharpoonup> 'd) \<Rightarrow> 'd disk \<Rightarrow> bool" where
  "untouched old d \<longleftrightarrow> dk_journal d = None \<and> doc_view d = old"

definition all_new :: "((string \<times> string) \<rightharpoonup> 'd) \<Rightarrow> 'd pending_doc list \<Rightarrow> bool" where
  "all_new old ds \<longleftrightarrow> (\<forall>(c, i, x) \<in> set ds. c \<in> set COLLECTIONS \<and> path_ok i \<and> old (c, i) = None)"

definition in_progress :: "((string \<times> string) \<rightharpoonup> 'd) \<Rightarrow> string \<Rightarrow> 'd pending_doc list \<Rightarrow> 'd disk \<Rightarrow> bool" where
  "in_progress old tx ds d \<longleftrightarrow> dk_journal d = Some (journal_of tx ds) \<and>
     (\<forall>k. k \<notin> set (pending_keys ds) \<longrightarrow> doc_view d k = old k)"

definition committed :: "((string \<times> string) \<rightharpoonup> 'd) \<Rightarrow> 'd pending_doc list \<Rightarrow> 'd disk \<Rightarrow> bool" where
  "committed old ds d \<longleftrightarrow> dk_journal d = None \<and> doc_view d = old ++ map_of (pending_docs ds)"

definition recoverable :: "((string \<times> string) \<rightharpoonup> 'd) \<Rightarrow> string \<Rightarrow> 'd pending_doc list \<Rightarrow> 'd disk \<Rightarrow> bool" where
  "recoverable old tx ds d \<longleftrightarrow>
     untouched old d \<or> in_progress old tx ds d \<and> all_new old ds \<or> committed old ds d"

lemmas tx_defs = untouched_def in_progress_def committed_def doc_view_def

lemma stage_ops_keep:
  assumes "\<And>d d'. dk_docs d' = dk_docs d \<Longrightarrow> dk_journal d' = dk_journal d \<Longrightarrow> P d \<Longrightarrow> P d'"
  shows "disk_keeps P (io_op (write_stage c n x))" "disk_keeps P (io_op (write_temp j))"
    "disk_keeps P (io_op unlink_temp)" "disk_keeps P (io_op (unlink_stage c n))"
  by (rule disk_keep; use assms in \<open>force simp: write_stage_def write_temp_def unlink_temp_def unlink_stage_def\<close>)+

lemma stage_ops_view:
  "disk_keeps (untouched old) (io_op (write_stage c n x))" "disk_keeps (untouched old) (io_op (write_temp j))"
  "disk_keeps (recoverable old tx ds) (io_op unlink_temp)" "disk_keeps (recoverable old tx ds) (io_op (unlink_stage c n))"
  "disk_keeps (committed old ds) (io_op unlink_temp)" "disk_keeps (committed old ds) (io_op (unlink_stage c n))"
  by (rule stage_ops_keep; simp add: tx_defs recoverable_def)+

section \<open>Recovery\<close>

lemma journal_lookup:
  "get_or_null [(''collection'', a), (''document_id'', b), (''stage'', e)] ''collection'' = a"
  "get_or_null [(''collection'', a), (''document_id'', b), (''stage'', e)] ''document_id'' = b"
  "get_or_null [(''collection'', a), (''document_id'', b), (''stage'', e)] ''stage'' = e"
  by (simp_all add: get_or_null_def)

lemma plain_stage_name:
  assumes "path_ok i" "CHR ''/'' \<notin> set tx"
  shows "plain_name (stage_name tx i)"
proof -
  have "CHR ''/'' \<notin> set i" using assms(1) by (auto simp: path_ok_def id_char_def list_all_iff Let_def)
  then show ?thesis using assms by (auto simp: plain_name_def stage_name_def)
qed

text \<open>An entry of a journal the store wrote.\<close>

lemma recover_own_entry:
  assumes "c \<in> set COLLECTIONS" "path_ok i" "CHR ''/'' \<notin> set tx"
  shows "recover_entry (journal_entry tx (c, i, x)) =
    io_bind (io_op (unlink_doc c i)) (\<lambda>_. io_op (unlink_stage c (stage_name tx i)))"
  using assms by (simp add: recover_entry_def journal_entry_def journal_lookup plain_stage_name)

lemma unlink_docs_keep:
  assumes "(c, i) \<in> set (pending_keys ds)"
  shows "disk_keeps (\<lambda>d. in_progress old tx ds d \<and> Q (doc_view d)) (io_op (unlink_stage c' n))"
    "(\<And>v. Q v \<Longrightarrow> Q (v((c, i) := None))) \<Longrightarrow>
       disk_keeps (\<lambda>d. in_progress old tx ds d \<and> Q (doc_view d)) (io_op (unlink_doc c i))"
proof -
  show "disk_keeps (\<lambda>d. in_progress old tx ds d \<and> Q (doc_view d)) (io_op (unlink_stage c' n))"
    by (rule stage_ops_keep) (simp add: tx_defs)
next
  assume Q: "\<And>v. Q v \<Longrightarrow> Q (v((c, i) := None))"
  show "disk_keeps (\<lambda>d. in_progress old tx ds d \<and> Q (doc_view d)) (io_op (unlink_doc c i))"
  proof (rule disk_keeps_op)
    fix d d' assume d: "in_progress old tx ds d \<and> Q (doc_view d)" "unlink_doc c i d = Some d'"
    then have "doc_view d' = (doc_view d)((c, i) := None)" "dk_journal d' = dk_journal d"
      by (auto simp: unlink_doc_def doc_view_def)
    then show "in_progress old tx ds d' \<and> Q (doc_view d')" using d Q assms by (auto simp: in_progress_def)
  qed
qed

lemma all_new_Cons: "all_new old ((c, i, x) # ds) \<longleftrightarrow> c \<in> set COLLECTIONS \<and> path_ok i \<and> old (c, i) = None \<and> all_new old ds"
  by (auto simp: all_new_def)

lemma pending_simps [simp]:
  "pending_keys [] = []" "pending_keys ((c, i, x) # ds) = (c, i) # pending_keys ds"
  "pending_docs [] = []" "pending_docs ((c, i, x) # ds) = ((c, i), x) # pending_docs ds"
  by (simp_all add: pending_keys_def pending_docs_def)

lemma recover_entries_keep:
  assumes "all_new old es" "CHR ''/'' \<notin> set tx" "set (pending_keys es) \<subseteq> set (pending_keys ds)"
    "\<And>v k. Q v \<Longrightarrow> Q (v(k := None))"
  shows "disk_keeps (\<lambda>d. in_progress old tx ds d \<and> Q (doc_view d)) (io_all recover_entry (map (journal_entry tx) es))"
  using assms(1,3)
proof (induction es)
  case Nil
  then show ?case by (simp add: disk_keep)
next
  case (Cons e es)
  obtain c i x where e: "e = (c, i, x)" by (metis prod_cases3)
  have k: "(c, i) \<in> set (pending_keys ds)" using Cons.prems e by simp
  have "disk_keeps (\<lambda>d. in_progress old tx ds d \<and> Q (doc_view d)) (recover_entry (journal_entry tx e))"
    using Cons.prems(1) e assms(2) unlink_docs_keep [OF k, where old = old and tx = tx and Q = Q] assms(4)
    by (simp add: recover_own_entry all_new_Cons disk_keep)
  moreover have "disk_keeps (\<lambda>d. in_progress old tx ds d \<and> Q (doc_view d)) (io_all recover_entry (map (journal_entry tx) es))"
    by (rule Cons.IH) (use Cons.prems e in \<open>auto simp: all_new_Cons\<close>)
  ultimately show ?case by (simp add: disk_keep)
qed

lemma recover_entries_done:
  assumes "all_new old es" "CHR ''/'' \<notin> set tx" "set (pending_keys es) \<subseteq> set (pending_keys ds)"
    "in_progress old tx ds (w_disk w)"
    "fst (io_all recover_entry (map (journal_entry tx) es) w) = Returned_Val u" "k \<in> set (pending_keys es)"
  shows "doc_view (w_disk (snd (io_all recover_entry (map (journal_entry tx) es) w))) k = None"
  using assms(1,3,4,5,6)
proof (induction es arbitrary: w)
  case (Cons e es)
  obtain c i x where e: "e = (c, i, x)" by (metis prod_cases3)
  have ok: "c \<in> set COLLECTIONS" "path_ok i" "all_new old es" "(c, i) \<in> set (pending_keys ds)"
    "set (pending_keys es) \<subseteq> set (pending_keys ds)" using Cons.prems(1,2) e by (simp_all add: all_new_Cons)
  let ?m = "recover_entry (journal_entry tx e)" and ?ms = "io_all recover_entry (map (journal_entry tx) es)"
  obtain y where y: "fst (?m w) = Returned_Val y" "fst (?ms (snd (?m w))) = Returned_Val u"
      "snd (io_all recover_entry (map (journal_entry tx) (e # es)) w) = snd (?ms (snd (?m w)))"
    using Cons.prems(4) by (auto elim: io_bind_Returned)
  have m: "?m = io_bind (io_op (unlink_doc c i)) (\<lambda>_. io_op (unlink_stage c (stage_name tx i)))"
    using ok e assms(2) by (simp add: recover_own_entry)
  have gone: "doc_view (w_disk (snd (?m w))) (c, i) = None"
    using y(1) unfolding m
    by (elim io_bind_Returned) (simp add: io_op_disk unlink_doc_def unlink_stage_def doc_view_def)
  have prog: "in_progress old tx ds (w_disk (snd (?m w)))"
    using disk_keepsD [OF recover_entries_keep [OF _ assms(2), of old "[e]" ds "\<lambda>_. True"], of w] Cons.prems e ok
    by (simp add: all_new_Cons all_new_def io_bind_def io_return_def split: prod.splits outcome.splits)
  show ?case
  proof (cases "k \<in> set (pending_keys es)")
    case True
    then show ?thesis using Cons.IH [OF ok(3,5) prog y(2)] y(3) by simp
  next
    case False
    then have k: "k = (c, i)" using Cons.prems(5) e by simp
    have "(\<lambda>v. v k = None) (doc_view (w_disk (snd (?ms (snd (?m w))))))"
      using disk_keepsD [OF recover_entries_keep [OF ok(3) assms(2) ok(5), of "\<lambda>v. v k = None"], of "snd (?m w)"]
        prog gone k by auto
    then show ?thesis using y(3) by simp
  qed
qed simp

section \<open>Steps in order\<close>

text \<open>However a computation ends the disk satisfies \<open>P\<close>, and if it returns also \<open>Q\<close>.\<close>

definition ensures :: "('d disk \<Rightarrow> bool) \<Rightarrow> ('d disk \<Rightarrow> bool) \<Rightarrow> 'a outcome \<times> 'd world \<Rightarrow> bool" where
  "ensures P Q r \<longleftrightarrow> P (w_disk (snd r)) \<and> (\<forall>u. fst r = Returned_Val u \<longrightarrow> Q (w_disk (snd r)))"

lemma ensures_bind:
  assumes "ensures P Q (m w)" "\<And>x w'. m w = (Returned_Val x, w') \<Longrightarrow> P (w_disk w') \<Longrightarrow> Q (w_disk w') \<Longrightarrow> ensures P R (f x w')"
  shows "ensures P R (io_bind m f w)"
proof -
  obtain r w' where r: "m w = (r, w')" by fastforce
  show ?thesis
  proof (cases r)
    case (Returned_Val x)
    then show ?thesis using assms(1) assms(2) [of x w'] r by (simp add: ensures_def io_bind_def)
  qed (use assms(1) r in \<open>simp_all add: ensures_def io_bind_def\<close>)
qed

lemma ensures_op:
  "P (w_disk w) \<Longrightarrow> (\<And>d. f (w_disk w) = Some d \<Longrightarrow> P d \<and> Q d) \<Longrightarrow> ensures P Q (io_op f w)"
  by (auto simp: ensures_def io_op_def Let_def split: list.split fate.split option.split)

lemma ensures_catch:
  assumes "ensures P Q (m w)" "\<And>e w'. P (w_disk w') \<Longrightarrow> ensures P Q (h e w')"
  shows "ensures P Q (io_catch m h w)"
proof -
  obtain r w' where r: "m w = (r, w')" by fastforce
  then show ?thesis using assms(1) assms(2) [of w'] by (cases r) (simp_all add: ensures_def io_catch_def)
qed

lemma ensures_finally:
  assumes "ensures P Q (m w)" "disk_keeps P c" "disk_keeps Q c"
  shows "ensures P Q (io_finally m c w)"
proof -
  obtain r v where r: "m w = (r, v)" by fastforce
  obtain q x where q: "c v = (q, x)" by fastforce
  have "P (w_disk v) \<Longrightarrow> P (w_disk x)" "Q (w_disk v) \<Longrightarrow> Q (w_disk x)"
    using disk_keepsD [OF assms(2), of v] disk_keepsD [OF assms(3), of v] q by simp_all
  then show ?thesis using assms(1) r q by (cases r; cases q) (simp_all add: ensures_def io_finally_def)
qed

lemma recover_own:
  assumes "in_progress old tx ds (w_disk w)"
  shows "recover_transaction w = io_bind (io_op Some) (\<lambda>_.
    io_bind (io_all recover_entry (map (journal_entry tx) ds)) (\<lambda>_. io_op unlink_journal)) w"
  using assms by (simp add: recover_transaction_def in_progress_def journal_of_def get_or_null_def)

lemma cleared_untouched:
  assumes "in_progress old tx ds d" "all_new old ds" "\<And>k. k \<in> set (pending_keys ds) \<Longrightarrow> doc_view d k = None"
  shows "doc_view d = old"
proof
  fix k
  have "old k = None" if "k \<in> set (pending_keys ds)" using that assms(2) by (auto simp: pending_keys_def all_new_def)
  then show "doc_view d k = old k" using assms(1,3) unfolding in_progress_def by metis
qed

lemma recover_in_progress:
  assumes p: "in_progress old tx ds (w_disk w)" and n: "all_new old ds" and tx: "CHR ''/'' \<notin> set tx"
  shows "ensures (recoverable old tx ds) (untouched old) (recover_transaction w)"
  unfolding recover_own [OF p]
proof (rule ensures_bind [where Q = "in_progress old tx ds"])
  show "ensures (recoverable old tx ds) (in_progress old tx ds) (io_op Some w)"
    by (rule ensures_op) (use p n in \<open>auto simp: recoverable_def\<close>)
next
  fix u and w' :: "'a world"
  assume p': "in_progress old tx ds (w_disk w')"
  let ?m = "io_all recover_entry (map (journal_entry tx) ds)"
  have keep: "in_progress old tx ds (w_disk (snd (?m w')))"
    using disk_keepsD [OF recover_entries_keep [OF n tx subset_refl, of "\<lambda>_. True"], of w'] p' by simp
  show "ensures (recoverable old tx ds) (untouched old) (io_bind ?m (\<lambda>_. io_op unlink_journal) w')"
  proof (rule ensures_bind [where Q = "\<lambda>d. in_progress old tx ds d \<and> doc_view d = old"])
    have "doc_view (w_disk (snd (?m w'))) = old" if "fst (?m w') = Returned_Val u" for u
      by (rule cleared_untouched [OF keep n]) (rule recover_entries_done [OF n tx subset_refl p' that])
    then show "ensures (recoverable old tx ds) (\<lambda>d. in_progress old tx ds d \<and> doc_view d = old) (?m w')"
      using keep n by (simp add: ensures_def recoverable_def)
  next
    fix u and v :: "'a world" assume "in_progress old tx ds (w_disk v) \<and> doc_view (w_disk v) = old"
    then show "ensures (recoverable old tx ds) (untouched old) (io_op unlink_journal v)"
      using n by (intro ensures_op)
        (auto simp: recoverable_def untouched_def unlink_journal_def doc_view_def split: if_splits)
  qed
qed

lemma recover_settled: "dk_journal (w_disk w) = None \<Longrightarrow> recover_transaction w = (Returned_Val (), w)"
  by (simp add: recover_transaction_def)

lemma recover_ok:
  assumes "recoverable old tx ds (w_disk w)" "CHR ''/'' \<notin> set tx"
  shows "ensures (recoverable old tx ds) (\<lambda>d. untouched old d \<or> committed old ds d) (recover_transaction w)"
  using assms recover_in_progress [of old tx ds w] recover_settled [of w]
  unfolding recoverable_def ensures_def by (auto simp: untouched_def committed_def)

section \<open>Saving\<close>

lemma stage_name_inj: "stage_name tx i = stage_name tx j \<longleftrightarrow> i = j"
  by (simp add: stage_name_def)

definition staged_docs :: "string \<Rightarrow> 'd pending_doc list \<Rightarrow> ((string \<times> string) \<times> 'd option) list" where
  "staged_docs tx = map (\<lambda>(c, i, x). ((c, stage_name tx i), Some x))"

lemma staged_docs_simps [simp]:
  "staged_docs tx [] = []" "staged_docs tx ((c, i, x) # ds) = ((c, stage_name tx i), Some x) # staged_docs tx ds"
  by (simp_all add: staged_docs_def)

lemma staged_docs_new:
  "(c, i) \<notin> set (pending_keys ds) \<Longrightarrow> (c, stage_name tx i) \<notin> dom (map_of (staged_docs tx ds))"
  by (induction ds) (auto simp: stage_name_inj)

lemma pending_docs_new: "k \<notin> set (pending_keys ds) \<Longrightarrow> k \<notin> dom (map_of (pending_docs ds))"
  by (induction ds) auto

lemma map_add_first: "k \<notin> dom r \<Longrightarrow> m(k \<mapsto> v) ++ r = m ++ r(k \<mapsto> v)"
  by (auto simp: map_add_def fun_eq_iff split: option.split)

lemma stage_document_ensures:
  assumes "untouched old (w_disk w)"
  shows "ensures (untouched old) (\<lambda>d. untouched old d \<and> c \<in> set COLLECTIONS \<and> path_ok i \<and> old (c, i) = None \<and>
    map_of (dk_stages d) = (map_of (dk_stages (w_disk w)))((c, stage_name tx i) \<mapsto> Some x)) (stage_document tx (c, i, x) w)"
proof (cases "c \<in> set COLLECTIONS \<and> path_ok i \<and> map_of (dk_docs (w_disk w)) (c, i) = None")
  case False
  then show ?thesis using assms by (auto simp: stage_document_def ensures_def)
next
  case True
  let ?s = "stage_name tx i" and ?st = "map_of (dk_stages (w_disk w))"
  have "ensures (untouched old) (\<lambda>d. untouched old d \<and> map_of (dk_stages d) = ?st((c, ?s) \<mapsto> Some x))
      (io_bind (io_op (write_stage c ?s None)) (\<lambda>_. io_bind (io_op (write_stage c ?s (Some x))) (\<lambda>_ w.
        (Returned_Val (), w\<lparr>w_staged := w_staged w @ [(c, ?s, i)]\<rparr>))) w)"
  proof (rule ensures_bind [where Q = "\<lambda>d. untouched old d \<and> map_of (dk_stages d) = ?st((c, ?s) \<mapsto> None)"], goal_cases)
    case 1
    then show ?case using assms by (intro ensures_op) (auto simp: write_stage_def untouched_def doc_view_def)
  next
    case (2 u w')
    then show ?case
      by (intro ensures_bind [where Q = "\<lambda>d. untouched old d \<and> map_of (dk_stages d) = ?st((c, ?s) \<mapsto> Some x)"] ensures_op)
        (auto simp: write_stage_def untouched_def doc_view_def ensures_def)
  qed
  then show ?thesis using True assms by (auto simp: stage_document_def ensures_def untouched_def doc_view_def)
qed

lemma stage_all_ensures:
  assumes "untouched old (w_disk w)" "distinct (pending_keys ds)"
  shows "ensures (untouched old) (\<lambda>d. untouched old d \<and> all_new old ds \<and>
    map_of (dk_stages d) = map_of (dk_stages (w_disk w)) ++ map_of (staged_docs tx ds)) (io_all (stage_document tx) ds w)"
  using assms
proof (induction ds arbitrary: w)
  case Nil
  then show ?case by (simp add: ensures_def io_return_def all_new_def)
next
  case (Cons e ds)
  obtain c i x where e: "e = (c, i, x)" by (metis prod_cases3)
  have new: "(c, i) \<notin> set (pending_keys ds)" "distinct (pending_keys ds)" using Cons.prems(2) e by simp_all
  show ?case unfolding io_all.simps
  proof (rule ensures_bind [where Q = "\<lambda>d. untouched old d \<and> c \<in> set COLLECTIONS \<and> path_ok i \<and> old (c, i) = None \<and>
      map_of (dk_stages d) = (map_of (dk_stages (w_disk w)))((c, stage_name tx i) \<mapsto> Some x)"], goal_cases)
    case 1
    show ?case unfolding e by (rule stage_document_ensures [OF Cons.prems(1)])
  next
    case (2 u w')
    have v: "map_of (dk_stages (w_disk w')) ++ map_of (staged_docs tx ds) =
        map_of (dk_stages (w_disk w)) ++ map_of (staged_docs tx (e # ds))"
      using 2(3) map_add_first [OF staged_docs_new [OF new(1), of tx], of "map_of (dk_stages (w_disk w))" "Some x"]
      by (simp only: e staged_docs_simps map_of.simps fst_conv snd_conv)
    have "ensures (untouched old) (\<lambda>d. untouched old d \<and> all_new old ds \<and>
        map_of (dk_stages d) = map_of (dk_stages (w_disk w')) ++ map_of (staged_docs tx ds)) (io_all (stage_document tx) ds w')"
      by (rule Cons.IH) (use 2(3) new(2) in simp_all)
    then show ?case using 2(3) unfolding v ensures_def e all_new_Cons by blast
  qed
qed

lemma move_ensures:
  assumes "in_progress old tx ds (w_disk w)" "(c, i) \<in> set (pending_keys ds)"
    "map_of (dk_stages (w_disk w)) (c, stage_name tx i) = Some (Some x)"
  shows "ensures (in_progress old tx ds) (\<lambda>d. in_progress old tx ds d \<and> doc_view d = (doc_view (w_disk w))((c, i) \<mapsto> x) \<and>
    map_of (dk_stages d) = (map_of (dk_stages (w_disk w)))((c, stage_name tx i) := None))
    (io_op (move_stage c (stage_name tx i) i) w)"
  using assms by (intro ensures_op) (auto simp: move_stage_def in_progress_def doc_view_def)

lemma moves_ensures:
  assumes "in_progress old tx ds (w_disk w)" "set (pending_keys es) \<subseteq> set (pending_keys ds)" "distinct (pending_keys es)"
    "\<forall>(c, i, x) \<in> set es. map_of (dk_stages (w_disk w)) (c, stage_name tx i) = Some (Some x)"
  shows "ensures (in_progress old tx ds) (\<lambda>d. in_progress old tx ds d \<and> doc_view d = doc_view (w_disk w) ++ map_of (pending_docs es))
    (io_all (\<lambda>(c, i, _). io_op (move_stage c (stage_name tx i) i)) es w)"
  using assms
proof (induction es arbitrary: w)
  case Nil
  then show ?case by (simp add: ensures_def io_return_def)
next
  case (Cons e es)
  obtain c i x where e: "e = (c, i, x)" by (metis prod_cases3)
  have k: "(c, i) \<in> set (pending_keys ds)" "map_of (dk_stages (w_disk w)) (c, stage_name tx i) = Some (Some x)"
    "(c, i) \<notin> set (pending_keys es)" using Cons.prems e by auto
  show ?case unfolding io_all.simps
  proof (rule ensures_bind [OF _ , where Q = "\<lambda>d. in_progress old tx ds d \<and> doc_view d = (doc_view (w_disk w))((c, i) \<mapsto> x) \<and>
      map_of (dk_stages d) = (map_of (dk_stages (w_disk w)))((c, stage_name tx i) := None)"], goal_cases)
    case 1
    then show ?case using move_ensures [OF Cons.prems(1) k(1,2)] by (simp add: e)
  next
    case (2 u w')
    have hold: "\<forall>(c, i, x) \<in> set es. map_of (dk_stages (w_disk w')) (c, stage_name tx i) = Some (Some x)"
    proof (clarify)
      fix c' i' x' assume m: "(c', i', x') \<in> set es"
      then have "(c', i') \<in> set (pending_keys es)" by (force simp: pending_keys_def)
      then have "(c', i') \<noteq> (c, i)" using k(3) by blast
      then show "map_of (dk_stages (w_disk w')) (c', stage_name tx i') = Some (Some x')"
        using 2(3) m Cons.prems(4) by (auto simp: stage_name_inj)
    qed
    have "ensures (in_progress old tx ds) (\<lambda>d. in_progress old tx ds d \<and> doc_view d = doc_view (w_disk w') ++ map_of (pending_docs es))
        (io_all (\<lambda>(c, i, _). io_op (move_stage c (stage_name tx i) i)) es w')"
      by (rule Cons.IH [OF _ _ _ hold]) (use 2(3) Cons.prems(2,3) e in simp_all)
    moreover have "doc_view (w_disk w') ++ map_of (pending_docs es) = doc_view (w_disk w) ++ map_of (pending_docs (e # es))"
      using 2(3) map_add_first [OF pending_docs_new [OF k(3)], of "doc_view (w_disk w)" x]
      by (simp only: e pending_simps map_of.simps fst_conv snd_conv)
    ultimately show ?case by simp
  qed
qed

text \<open>From the journal on, the steps of a save that returns write everything.\<close>

lemma publish_ensures:
  assumes "untouched old (w_disk w)" "all_new old ds" "distinct (pending_keys ds)"
    "map_of (dk_stages (w_disk w)) = m ++ map_of (staged_docs tx ds)" "dk_temp (w_disk w) = Some (Some (journal_of tx ds))"
  shows "ensures (recoverable old tx ds) (committed old ds) (io_bind (io_op publish_journal) (\<lambda>_.
     io_bind (io_all (\<lambda>(c, i, _). io_op (move_stage c (stage_name tx i) i)) ds) (\<lambda>_. io_op unlink_journal)) w)"
proof (rule ensures_bind [where Q = "\<lambda>d. in_progress old tx ds d \<and> doc_view d = old \<and>
    map_of (dk_stages d) = m ++ map_of (staged_docs tx ds)"], goal_cases)
  case 1
  then show ?case using assms
    by (intro ensures_op) (auto simp: publish_journal_def recoverable_def untouched_def in_progress_def doc_view_def)
next
  case (2 u w')
  have "map_of (staged_docs tx ds) (c, stage_name tx i) = Some (Some x)" if "(c, i, x) \<in> set ds" for c i x
    using that assms(3) by (induction ds) (auto simp: stage_name_inj pending_keys_def image_iff)
  then have hold: "\<forall>(c, i, x) \<in> set ds. map_of (dk_stages (w_disk w')) (c, stage_name tx i) = Some (Some x)"
    using 2(3) by (auto simp: map_add_def)
  have "ensures (in_progress old tx ds) (\<lambda>d. in_progress old tx ds d \<and> doc_view d = old ++ map_of (pending_docs ds))
      (io_all (\<lambda>(c, i, _). io_op (move_stage c (stage_name tx i) i)) ds w')"
    using moves_ensures [OF _ subset_refl assms(3) hold] 2(3) by simp
  then have moved: "ensures (recoverable old tx ds) (\<lambda>d. in_progress old tx ds d \<and> doc_view d = old ++ map_of (pending_docs ds))
      (io_all (\<lambda>(c, i, _). io_op (move_stage c (stage_name tx i) i)) ds w')"
    using assms(2) by (simp add: ensures_def recoverable_def)
  show ?case
  proof (rule ensures_bind [where m = "io_all (\<lambda>(c, i, _). io_op (move_stage c (stage_name tx i) i)) ds", OF moved])
    fix u and v :: "'a world"
    assume "in_progress old tx ds (w_disk v) \<and> doc_view (w_disk v) = old ++ map_of (pending_docs ds)"
    then show "ensures (recoverable old tx ds) (committed old ds) (io_op unlink_journal v)"
      using assms(2) by (intro ensures_op)
        (auto simp: recoverable_def committed_def unlink_journal_def doc_view_def split: if_splits)
  qed
qed

lemma save_body_ensures:
  assumes "untouched old (w_disk w)" "distinct (pending_keys ds)"
  shows "ensures (recoverable old tx ds) (committed old ds) (save_body tx ds w)"
  unfolding save_body_def
proof (rule ensures_bind [where Q = "\<lambda>d. untouched old d \<and> all_new old ds \<and>
    map_of (dk_stages d) = map_of (dk_stages (w_disk w)) ++ map_of (staged_docs tx ds)"], goal_cases)
  case 1
  then show ?case using stage_all_ensures [OF assms, of tx] by (simp add: ensures_def recoverable_def)
next
  let ?Q = "\<lambda>d. untouched old d \<and> all_new old ds \<and>
    map_of (dk_stages d) = map_of (dk_stages (w_disk w)) ++ map_of (staged_docs tx ds)"
  have temp: "ensures (recoverable old tx ds) (\<lambda>d. ?Q d \<and> dk_temp d = Some j) (io_op (write_temp j) v)"
    if "?Q (w_disk v)" for j and v :: "'a world"
    using that by (intro ensures_op) (auto simp: write_temp_def recoverable_def untouched_def doc_view_def)
  case (2 u w')
  show ?case
  proof (rule ensures_bind [where Q = ?Q], goal_cases)
    case 1
    then show ?case using temp [OF 2(3), of None] by (simp add: ensures_def)
  next
    case (2 u v)
    show ?case
    proof (rule ensures_bind [where m = "io_op (write_temp (Some (journal_of tx ds)))", OF temp [OF 2(3)]], goal_cases)
      case (1 u v')
      then show ?case using publish_ensures [OF _ _ assms(2)] by blast
    qed
  qed
qed

lemma cleanup_keeps_if:
  assumes "disk_keeps P (io_op unlink_temp)" "\<And>c n. disk_keeps P (io_op (unlink_stage c n))"
  shows "disk_keeps P save_cleanup"
  unfolding save_cleanup_def
proof (rule disk_keeps_bind [OF assms(1)])
  have "disk_keeps P (io_all (\<lambda>(c, n, _). io_op (unlink_stage c n)) xs)" for xs :: "(string \<times> string \<times> string) list"
    by (rule disk_keeps_all) (auto intro: assms(2))
  then show "disk_keeps P (\<lambda>w. io_all (\<lambda>(c, n, _). io_op (unlink_stage c n)) (w_staged w) w)"
    by (simp add: disk_keeps_def)
qed

lemmas cleanup_keeps = cleanup_keeps_if [OF stage_ops_view(3,4)] cleanup_keeps_if [OF stage_ops_view(5,6)]

lemma save_failed_ensures:
  assumes "recoverable old tx ds (w_disk w)" "CHR ''/'' \<notin> set tx"
  shows "ensures (recoverable old tx ds) Q (save_failed e w)"
proof -
  have "ensures (recoverable old tx ds) Q (io_bind recover_transaction (\<lambda>_. io_raise e) w :: unit outcome \<times> _)"
    by (rule ensures_bind [where m = recover_transaction, OF recover_ok [OF assms]]) (simp add: ensures_def io_raise_def)
  then show ?thesis using assms by (simp add: ensures_def save_failed_def io_raise_def)
qed

lemma save_many_ensures:
  assumes "untouched old (w_disk w)" "distinct (pending_keys ds)" "CHR ''/'' \<notin> set tx"
  shows "ensures (recoverable old tx ds) (committed old ds) (save_many tx ds w)"
  unfolding save_many_def
  by (intro ensures_finally ensures_catch save_body_ensures save_failed_ensures cleanup_keeps) (use assms in simp_all)

section \<open>Restarts\<close>

lemma restart_recoverable:
  assumes "recoverable old tx ds (w_disk w)" "CHR ''/'' \<notin> set tx"
  shows "recoverable old tx ds (w_disk (restart fates w))"
  using recover_ok [of old tx ds "w\<lparr>w_fates := fates, w_staged := []\<rparr>"] assms by (simp add: restart_def ensures_def)

lemma restarts_recoverable:
  "recoverable old tx ds (w_disk w) \<Longrightarrow> CHR ''/'' \<notin> set tx \<Longrightarrow> recoverable old tx ds (w_disk (fold restart fss w))"
  by (induction fss arbitrary: w) (simp_all add: restart_recoverable)

lemma started_settled:
  assumes "recoverable old tx ds (w_disk w)" "CHR ''/'' \<notin> set tx" "started fates w"
  shows "untouched old (w_disk (restart fates w)) \<or> committed old ds (w_disk (restart fates w))"
  using recover_ok [of old tx ds "w\<lparr>w_fates := fates, w_staged := []\<rparr>"] assms
  by (simp add: restart_def started_def ensures_def)

text \<open>A committed transaction has no journal left to recover from.\<close>

lemma restart_committed: "committed old ds (w_disk w) \<Longrightarrow> committed old ds (w_disk (restart fates w))"
  by (simp add: restart_def recover_settled committed_def)

lemma restarts_committed: "committed old ds (w_disk w) \<Longrightarrow> committed old ds (w_disk (fold restart fss w))"
  by (induction fss arbitrary: w) (simp_all add: restart_committed)

end
