(* ===== verification/Journal_Claims.thy ===== *)
theory Journal_Claims
  imports Store_Journal
begin

text \<open>The property of the transaction journal.\<close>

text \<open>A task and its run are saved beside an older task. The process dies between moving the two files into place,
  dies again in its first recovery, and then starts.\<close>

definition jx_world :: "fate list \<Rightarrow> string world" where
  "jx_world fates = \<lparr>w_disk = \<lparr>dk_docs = [((''tasks'', ''t0''), ''old'')], dk_stages = [], dk_journal = None, dk_temp = None\<rparr>,
     w_fates = fates, w_staged = []\<rparr>"

definition jx_documents :: "string pending_doc list" where
  "jx_documents = [(''tasks'', ''t1'', ''task''), (''runs'', ''r1'', ''run'')]"

definition jx_crash :: "fate list" where
  "jx_crash = replicate 8 Go @ [Crash]"

text \<open>C39. Saving a task with its run and workspaces is all or nothing. Whatever file operation raises or the process
  dies at, then however often it dies again while it recovers, once a recovery has returned no journal is
  left and the store holds either exactly the documents of before or those and all new ones, and all of them
  if the save had returned.\<close>

theorem save_many_atomic:
  assumes "dk_journal (w_disk w) = None" "distinct (pending_keys ds)" "CHR ''/'' \<notin> set tx"
    "started fates (fold restart crashes (snd (save_many tx ds w)))"
  shows "dk_journal (w_disk (restart fates (fold restart crashes (snd (save_many tx ds w))))) = None \<and>
    (doc_view (w_disk (restart fates (fold restart crashes (snd (save_many tx ds w))))) = doc_view (w_disk w) \<or>
     doc_view (w_disk (restart fates (fold restart crashes (snd (save_many tx ds w))))) =
       doc_view (w_disk w) ++ map_of (pending_docs ds)) \<and>
    (fst (save_many tx ds w) = Returned_Val () \<longrightarrow>
     doc_view (w_disk (restart fates (fold restart crashes (snd (save_many tx ds w))))) =
       doc_view (w_disk w) ++ map_of (pending_docs ds))"
proof -
  let ?old = "doc_view (w_disk w)" and ?w1 = "snd (save_many tx ds w)"
  have saved: "ensures (recoverable ?old tx ds) (committed ?old ds) (save_many tx ds w)"
    using assms(1) by (intro save_many_ensures [OF _ assms(2,3)]) (simp add: untouched_def)
  then have "recoverable ?old tx ds (w_disk ?w1)" by (simp add: ensures_def)
  then have "recoverable ?old tx ds (w_disk (fold restart crashes ?w1))" by (rule restarts_recoverable [OF _ assms(3)])
  then have settled: "untouched ?old (w_disk (restart fates (fold restart crashes ?w1))) \<or>
      committed ?old ds (w_disk (restart fates (fold restart crashes ?w1)))" by (rule started_settled [OF _ assms(3,4)])
  have "committed ?old ds (w_disk (restart fates (fold restart crashes ?w1)))" if "fst (save_many tx ds w) = Returned_Val ()"
    using saved that by (intro restart_committed restarts_committed) (simp add: ensures_def)
  then show ?thesis using settled by (auto simp: untouched_def committed_def)
qed

theorem save_many_atomic_witness:
  "dk_docs (w_disk (snd (save_many ''f0'' jx_documents (jx_world jx_crash)))) =
     [((''tasks'', ''t0''), ''old''), ((''tasks'', ''t1''), ''task'')] \<and>
   dk_journal (w_disk (restart [] (fold restart [[Go, Crash]] (snd (save_many ''f0'' jx_documents (jx_world jx_crash)))))) = None"
proof -
  have "dk_journal (w_disk (jx_world jx_crash)) = None" "distinct (pending_keys jx_documents)" "CHR ''/'' \<notin> set ''f0''"
    "started [] (fold restart [[Go, Crash]] (snd (save_many ''f0'' jx_documents (jx_world jx_crash))))"
    "dk_docs (w_disk (snd (save_many ''f0'' jx_documents (jx_world jx_crash)))) =
      [((''tasks'', ''t0''), ''old''), ((''tasks'', ''t1''), ''task'')]" by code_simp+
  then show ?thesis using save_many_atomic by blast
qed

end
