(* ===== verification/Ingress_Lease.thy ===== *)
theory Ingress_Lease
  imports Cowork_Prelude
begin

text \<open>
  The lease that lets one replica run an organisation's streaming ingress:
  \<^verbatim>\<open>src/cowork/channels/ingress_lease.py\<close>. The leases of different channels and organisations are different keys, so one
  key is modelled. A call is its commands to the Redis server: \<open>SET NX PX\<close>, or \<open>WATCH\<close> with \<open>GET\<close> and then
  \<open>MULTI\<close> and \<open>EXEC\<close>, which the server refuses when the key was written in between. Every interleaving of replicas
  is a list of commands in the order of the server, each with the milliseconds since the one before (the server's clock does not go back). A key
  whose time is over is gone.
\<close>

definition LEASE_TTL_MS :: int where
  "LEASE_TTL_MS = 45000"

datatype lease_op = Renew_Lease | Release_Lease

text \<open>What a call has read before its transaction: the owner it acts for and the key's version at \<open>WATCH\<close>.\<close>

record lease_call =
  lc_owner :: string
  lc_op :: lease_op
  lc_version :: nat

datatype lease_note = Granted string int | Released string int

text \<open>\<open>ls_log\<close> records the successful calls with the server's time.\<close>

record lease_server =
  ls_key :: "(string \<times> int) option"
  ls_version :: nat
  ls_now :: int
  ls_calls :: "(nat \<times> lease_call) list"
  ls_log :: "lease_note list"

definition new_lease_server :: lease_server where
  "new_lease_server = \<lparr>ls_key = None, ls_version = 0, ls_now = 0, ls_calls = [], ls_log = []\<rparr>"

definition lease_value :: "lease_server \<Rightarrow> string option" where
  "lease_value s = (case ls_key s of None \<Rightarrow> None | Some (ow, expires) \<Rightarrow> if ls_now s < expires then Some ow else None)"

definition write_key :: "(string \<times> int) option \<Rightarrow> lease_note \<Rightarrow> lease_server \<Rightarrow> lease_server" where
  "write_key k note s = s\<lparr>ls_key := k, ls_version := Suc (ls_version s), ls_log := ls_log s @ [note]\<rparr>"

text \<open>The first command of \<open>acquire\<close>; when the key is there \<open>acquire\<close> goes on as \<open>renew\<close>.\<close>

definition lease_acquire :: "string \<Rightarrow> lease_server \<Rightarrow> bool \<times> lease_server" where
  "lease_acquire ow s =
     (if lease_value s = None then (True, write_key (Some (ow, ls_now s + LEASE_TTL_MS)) (Granted ow (ls_now s)) s)
      else (False, s))"

text \<open>\<open>WATCH\<close> and \<open>GET\<close> of \<open>renew\<close> and \<open>release\<close>: a call for another owner ends here.\<close>

definition lease_watch :: "nat \<Rightarrow> string \<Rightarrow> lease_op \<Rightarrow> lease_server \<Rightarrow> lease_server" where
  "lease_watch i ow op s =
     (if lease_value s = Some ow
      then s\<lparr>ls_calls := al_put i \<lparr>lc_owner = ow, lc_op = op, lc_version = ls_version s\<rparr> (ls_calls s)\<rparr>
      else s)"

text \<open>The command inside the transaction acts on the key whoever owns it: \<open>PEXPIRE\<close> sets its time, \<open>DEL\<close> removes it.\<close>

definition lease_apply :: "lease_call \<Rightarrow> lease_server \<Rightarrow> lease_server" where
  "lease_apply c s = (case lc_op c of
     Renew_Lease \<Rightarrow> write_key (map_option (\<lambda>(ow, _). (ow, ls_now s + LEASE_TTL_MS)) (ls_key s)) (Granted (lc_owner c) (ls_now s)) s
   | Release_Lease \<Rightarrow> write_key None (Released (lc_owner c) (ls_now s)) s)"

text \<open>\<open>EXEC\<close>: nothing when the key was written since \<open>WATCH\<close>; on a key whose time is over \<open>PEXPIRE\<close> returns 0 and \<open>DEL\<close>
  finds nothing, as an aborted transaction does. The result is what \<open>renew\<close> returns.\<close>

definition lease_exec :: "nat \<Rightarrow> lease_server \<Rightarrow> bool \<times> lease_server" where
  "lease_exec i s = (case map_of (ls_calls s) i of
     None \<Rightarrow> (False, s)
   | Some c \<Rightarrow> let s' = s\<lparr>ls_calls := al_del i (ls_calls s)\<rparr> in
       if lc_version c \<noteq> ls_version s \<or> lease_value s = None then (False, s') else (True, lease_apply c s'))"

datatype lease_command =
    Set_Nx string
  | Watch_Get nat string lease_op
  | Exec nat
  | Connection_Lost nat

fun lease_step :: "lease_command \<Rightarrow> lease_server \<Rightarrow> lease_server" where
  "lease_step (Set_Nx ow) s = snd (lease_acquire ow s)"
| "lease_step (Watch_Get i ow op) s = lease_watch i ow op s"
| "lease_step (Exec i) s = snd (lease_exec i s)"
| "lease_step (Connection_Lost i) s = s\<lparr>ls_calls := al_del i (ls_calls s)\<rparr>"

fun lease_run :: "(int \<times> lease_command) list \<Rightarrow> lease_server \<Rightarrow> lease_server" where
  "lease_run [] s = s"
| "lease_run ((elapsed, c) # cs) s = lease_run cs (lease_step c (s\<lparr>ls_now := ls_now s + max 0 elapsed\<rparr>))"

section \<open>Exclusion\<close>

text \<open>The lease a log leaves, and a log in which every grant falls outside the leases of other owners and every release
  is the holder's.\<close>

fun lease_after :: "(string \<times> int) option \<Rightarrow> lease_note list \<Rightarrow> (string \<times> int) option" where
  "lease_after h [] = h"
| "lease_after h (Granted ow t # l) = lease_after (Some (ow, t + LEASE_TTL_MS)) l"
| "lease_after h (Released ow t # l) = lease_after None l"

fun exclusive :: "(string \<times> int) option \<Rightarrow> lease_note list \<Rightarrow> bool" where
  "exclusive h [] \<longleftrightarrow> True"
| "exclusive h (Granted ow t # l) \<longleftrightarrow>
     (case h of None \<Rightarrow> True | Some (holder, expires) \<Rightarrow> holder = ow \<or> expires \<le> t) \<and> exclusive (Some (ow, t + LEASE_TTL_MS)) l"
| "exclusive h (Released ow t # l) \<longleftrightarrow> (case h of None \<Rightarrow> False | Some (holder, _) \<Rightarrow> holder = ow) \<and> exclusive None l"

fun note_time :: "lease_note \<Rightarrow> int" where
  "note_time (Granted _ t) = t"
| "note_time (Released _ t) = t"

lemma exclusive_append: "exclusive h (l @ l') \<longleftrightarrow> exclusive h l \<and> exclusive (lease_after h l) l'"
  by (induction h l rule: exclusive.induct) auto

lemma lease_after_append: "lease_after h (l @ l') = lease_after (lease_after h l) l'"
  by (induction h l rule: lease_after.induct) auto

text \<open>The key is the lease the log leaves; a call whose version is current acts for the key's owner.\<close>

definition calls_ok :: "lease_server \<Rightarrow> bool" where
  "calls_ok s \<longleftrightarrow> (\<forall>i c. map_of (ls_calls s) i = Some c \<longrightarrow> lc_version c \<le> ls_version s \<and>
     (lc_version c = ls_version s \<longrightarrow> map_option fst (ls_key s) = Some (lc_owner c)))"

definition log_ok :: "lease_server \<Rightarrow> bool" where
  "log_ok s \<longleftrightarrow> exclusive None (ls_log s) \<and> lease_after None (ls_log s) = ls_key s \<and>
     sorted (map note_time (ls_log s)) \<and> (\<forall>n \<in> set (ls_log s). note_time n \<le> ls_now s)"

lemma calls_ok_write: "calls_ok s \<Longrightarrow> calls_ok (write_key k note s)"
  by (fastforce simp: calls_ok_def write_key_def)

lemma calls_ok_del: "calls_ok s \<Longrightarrow> calls_ok (s\<lparr>ls_calls := al_del i (ls_calls s)\<rparr>)"
  by (auto simp: calls_ok_def split: if_splits)

lemma calls_ok_watch: "calls_ok s \<Longrightarrow> calls_ok (lease_watch i ow op s)"
  by (auto simp: calls_ok_def lease_watch_def lease_value_def split: if_splits option.splits)

lemma calls_ok_step: "calls_ok s \<Longrightarrow> calls_ok (lease_step c s)"
proof (cases c)
  case (Exec i)
  assume ok: "calls_ok s"
  have "calls_ok (lease_apply d (s\<lparr>ls_calls := al_del i (ls_calls s)\<rparr>))" for d
    unfolding lease_apply_def using calls_ok_write [OF calls_ok_del [OF ok]] by (simp split: lease_op.split)
  then show ?thesis using Exec ok calls_ok_del [OF ok] by (simp add: lease_exec_def Let_def split: option.split)
qed (simp_all add: lease_acquire_def calls_ok_write calls_ok_del calls_ok_watch)

lemma log_ok_write:
  assumes "log_ok s" "exclusive (ls_key s) [note]" "lease_after (ls_key s) [note] = k" "note_time note = ls_now s"
  shows "log_ok (write_key k note s)"
  using assms by (auto simp: log_ok_def write_key_def exclusive_append lease_after_append sorted_append)

lemma log_ok_calls: "log_ok (s\<lparr>ls_calls := c\<rparr>) \<longleftrightarrow> log_ok s"
  by (simp add: log_ok_def)

lemma log_ok_apply:
  assumes "log_ok s" "map_option fst (ls_key s) = Some (lc_owner c)"
  shows "log_ok (lease_apply c s)"
proof -
  obtain x where x: "ls_key s = Some (lc_owner c, x)" using assms(2) by auto
  then show ?thesis unfolding lease_apply_def using log_ok_write [OF assms(1)] by (simp split: lease_op.split)
qed

lemma log_ok_step:
  assumes log: "log_ok s" and calls: "calls_ok s"
  shows "log_ok (lease_step c s)"
proof (cases c)
  case (Set_Nx ow)
  have "log_ok (write_key (Some (ow, ls_now s + LEASE_TTL_MS)) (Granted ow (ls_now s)) s)" if "lease_value s = None"
    by (rule log_ok_write [OF log]) (use that in \<open>auto simp: lease_value_def split: option.splits if_splits\<close>)
  then show ?thesis using Set_Nx log by (simp add: lease_acquire_def)
next
  case (Watch_Get i ow op)
  then show ?thesis using log by (simp add: lease_watch_def log_ok_calls)
next
  case (Exec i)
  show ?thesis
  proof (cases "fst (lease_exec i s)")
    case True
    then obtain d where d: "map_of (ls_calls s) i = Some d" "lc_version d = ls_version s"
        "snd (lease_exec i s) = lease_apply d (s\<lparr>ls_calls := al_del i (ls_calls s)\<rparr>)"
      by (auto simp: lease_exec_def Let_def split: option.splits if_splits)
    have "map_option fst (ls_key s) = Some (lc_owner d)" using calls d(1,2) by (simp add: calls_ok_def)
    then show ?thesis using Exec d(3) log by (simp add: log_ok_apply log_ok_calls)
  next
    case False
    then have "snd (lease_exec i s) = s \<or> snd (lease_exec i s) = s\<lparr>ls_calls := al_del i (ls_calls s)\<rparr>"
      by (auto simp: lease_exec_def Let_def split: option.splits if_splits)
    then show ?thesis using Exec log by (metis lease_step.simps(3) log_ok_calls)
  qed
next
  case (Connection_Lost i)
  then show ?thesis using log by (simp add: log_ok_calls)
qed

lemma lease_run_ok: "log_ok s \<Longrightarrow> calls_ok s \<Longrightarrow> log_ok (lease_run cs s)"
proof (induction cs arbitrary: s)
  case (Cons e cs)
  obtain d c where e: "e = (d, c)" by fastforce
  have "log_ok (s\<lparr>ls_now := ls_now s + max 0 d\<rparr>)" "calls_ok (s\<lparr>ls_now := ls_now s + max 0 d\<rparr>)"
    using Cons.prems by (auto simp: log_ok_def calls_ok_def)
  then show ?case using Cons.IH e by (simp add: log_ok_step calls_ok_step)
qed simp

lemma lease_new_ok: "log_ok new_lease_server" "calls_ok new_lease_server"
  by (simp_all add: log_ok_def calls_ok_def new_lease_server_def)

text \<open>Between two grants of different owners that overlap, the first owner released.\<close>

lemma exclusive_overlap:
  assumes "exclusive (Some (p, e)) (mid @ Granted q u # l)" "u < e" "q \<noteq> p"
    "\<forall>n \<in> set mid. e - LEASE_TTL_MS \<le> note_time n \<and> note_time n \<le> u" "sorted (map note_time mid)"
  shows "\<exists>t. Released p t \<in> set mid"
  using assms
proof (induction mid arbitrary: e)
  case (Cons n mid)
  show ?case
  proof (cases n)
    case (Granted x t)
    then have t: "x = p" "e \<le> t + LEASE_TTL_MS" "t \<le> u" using Cons.prems by auto
    have "\<exists>t. Released p t \<in> set mid"
      by (rule Cons.IH [of "t + LEASE_TTL_MS"]) (use Cons.prems Granted t in auto)
    then show ?thesis by auto
  next
    case (Released x t)
    then show ?thesis using Cons.prems(1) by auto
  qed
qed auto

end
