(* ===== verification/Lease_Claims.thy ===== *)
theory Lease_Claims
  imports Ingress_Lease
begin

text \<open>The property of the ingress lease.\<close>

text \<open>One replica acquires and is about to release; its lease runs out, another replica acquires, and then the late
  release arrives.\<close>

definition ix_late :: "(int \<times> lease_command) list" where
  "ix_late = [(0, Set_Nx ''a''), (30000, Watch_Get 0 ''a'' Release_Lease), (20000, Set_Nx ''b''), (10, Exec 0)]"

text \<open>The same, but the release arrives in time.\<close>

definition ix_released :: "(int \<times> lease_command) list" where
  "ix_released = [(0, Set_Nx ''a''), (30000, Watch_Get 0 ''a'' Release_Lease), (10, Exec 0), (10, Set_Nx ''b'')]"

text \<open>C37. Two replicas never hold the ingress lease at the same time. For every interleaving of the commands of all
  replicas, when a replica was told that it holds the lease less than the lease's time after another one
  was, that other one has released it in between.\<close>

theorem ingress_lease_exclusive:
  assumes "ls_log (lease_run cs new_lease_server) = before @ Granted p t # between @ Granted q u # after"
    "p \<noteq> q" "u < t + LEASE_TTL_MS"
  shows "\<exists>v. Released p v \<in> set between"
proof -
  have ok: "log_ok (lease_run cs new_lease_server)" by (rule lease_run_ok [OF lease_new_ok])
  then have "exclusive (Some (p, t + LEASE_TTL_MS)) (between @ Granted q u # after)"
    by (simp add: log_ok_def assms(1) exclusive_append)
  moreover have "sorted (map note_time (Granted p t # between @ [Granted q u]))"
    using ok by (simp add: log_ok_def assms(1) sorted_append)
  ultimately show ?thesis using assms(2,3) by (intro exclusive_overlap) (auto simp: sorted_append)
qed

theorem ingress_lease_exclusive_witness:
  "\<exists>v. Released ''a'' v \<in> set [Released ''a'' 30010]"
proof -
  have "ls_log (lease_run ix_released new_lease_server) =
      [] @ Granted ''a'' 0 # [Released ''a'' 30010] @ Granted ''b'' 30020 # []"
    "''a'' \<noteq> ''b''" "30020 < 0 + LEASE_TTL_MS" by code_simp+
  then show ?thesis by (rule ingress_lease_exclusive)
qed

text \<open>The late release does not take the lease from the replica that holds it.\<close>

lemma late_release_ignored:
  "map_option fst (ls_key (lease_run ix_late new_lease_server)) = Some ''b''"
  by code_simp

end
