(* ===== verification/Answer_Broker.thy ===== *)
theory Answer_Broker
  imports Cowork_Prelude Interleavings
begin

text \<open>
  Where a blocked turn waits for an answer: \<open>AnswerBroker\<close> of \<^verbatim>\<open>src/cowork/streaming/answers.py\<close>. The question comes
  from the agent library; the record below has the attributes the broker reads. Every call is one step of
  the event loop, and the waiting turn may be cancelled between two of them, which cancels its future.
\<close>

section \<open>Questions and answers\<close>

record ask_request =
  ar_values :: "string list"
  ar_select :: string
  ar_allow_custom :: bool

record user_answer =
  ua_skipped :: bool
  ua_values :: "string list"
  ua_text :: string

datatype submit_result = Accepted | Not_Found | Already_Answered | Invalid_Option

text \<open>The reasons of \<open>_violation\<close>, in its order.\<close>

datatype rejection = Never_Offered | Duplicate_Values | Several_For_One | Free_Text

definition violation :: "ask_request \<Rightarrow> user_answer \<Rightarrow> rejection option" where
  "violation q a =
     (if ua_values a \<noteq> [] \<and> \<not> set (ua_values a) \<subseteq> set (ar_values q) then Some Never_Offered
      else if ua_values a \<noteq> [] \<and> length (remdups (ua_values a)) \<noteq> length (ua_values a) then Some Duplicate_Values
      else if ua_values a \<noteq> [] \<and> ar_select q = ''one'' \<and> 1 < length (ua_values a) then Some Several_For_One
      else if ua_text a \<noteq> [] \<and> \<not> ar_allow_custom q then Some Free_Text
      else None)"

section \<open>The broker\<close>

datatype question_future = Unresolved | Resolved user_answer | Future_Cancelled

record answer_pending =
  ap_future :: question_future
  ap_request :: ask_request

type_synonym question_key = "string \<times> string"

text \<open>\<open>br_delivered\<close> is every answer a future was resolved with, with the question as it was opened.\<close>

record answer_broker =
  br_pending :: "(question_key \<times> answer_pending) list"
  br_opened :: nat
  br_delivered :: "(question_key \<times> ask_request \<times> user_answer) list"

definition new_broker :: answer_broker where
  "new_broker = \<lparr>br_pending = [], br_opened = 0, br_delivered = []\<rparr>"

definition broker_open :: "question_key \<Rightarrow> ask_request \<Rightarrow> answer_broker \<Rightarrow> question_future \<times> answer_broker" where
  "broker_open k q b = (case map_of (br_pending b) k of
     Some p \<Rightarrow> (ap_future p, b)
   | None \<Rightarrow> (Unresolved, b\<lparr>br_pending := al_put k \<lparr>ap_future = Unresolved, ap_request = q\<rparr> (br_pending b),
       br_opened := Suc (br_opened b)\<rparr>))"

definition broker_submit :: "question_key \<Rightarrow> user_answer \<Rightarrow> answer_broker \<Rightarrow> submit_result \<times> answer_broker" where
  "broker_submit k a b = (case map_of (br_pending b) k of
     None \<Rightarrow> (Not_Found, b)
   | Some p \<Rightarrow>
       if ap_future p \<noteq> Unresolved then (Already_Answered, b)
       else if \<not> ua_skipped a \<and> violation (ap_request p) a \<noteq> None then (Invalid_Option, b)
       else (Accepted, b\<lparr>br_pending := al_put k (p\<lparr>ap_future := Resolved a\<rparr>) (br_pending b),
         br_delivered := br_delivered b @ [(k, ap_request p, a)]\<rparr>))"

text \<open>The turn that waits is cancelled.\<close>

definition broker_abandon :: "question_key \<Rightarrow> answer_broker \<Rightarrow> answer_broker" where
  "broker_abandon k b = (case map_of (br_pending b) k of
     Some p \<Rightarrow> if ap_future p = Unresolved
       then b\<lparr>br_pending := al_put k (p\<lparr>ap_future := Future_Cancelled\<rparr>) (br_pending b)\<rparr> else b
   | None \<Rightarrow> b)"

text \<open>\<open>close\<close> drops the entry; a future that is not done is cancelled with it and nobody can resolve it later.\<close>

definition broker_close :: "question_key \<Rightarrow> answer_broker \<Rightarrow> answer_broker" where
  "broker_close k b = b\<lparr>br_pending := al_del k (br_pending b)\<rparr>"

definition broker_reset :: "answer_broker \<Rightarrow> answer_broker" where
  "broker_reset b = fold broker_close (map fst (br_pending b)) b"

datatype broker_event =
    Open_Question question_key ask_request
  | Submit question_key user_answer
  | Abandon question_key
  | Close_Question question_key
  | Reset_Broker

fun broker_step :: "broker_event \<Rightarrow> answer_broker \<Rightarrow> answer_broker" where
  "broker_step (Open_Question k q) b = snd (broker_open k q b)"
| "broker_step (Submit k a) b = snd (broker_submit k a b)"
| "broker_step (Abandon k) b = broker_abandon k b"
| "broker_step (Close_Question k) b = broker_close k b"
| "broker_step Reset_Broker b = broker_reset b"

fun broker_run :: "broker_event list \<Rightarrow> answer_broker \<Rightarrow> answer_broker" where
  "broker_run [] b = b"
| "broker_run (e # es) b = broker_run es (broker_step e b)"

section \<open>What is delivered\<close>

text \<open>An answer that fits its question: skipped, or only offered values without repetition, one for a single choice,
  and a text only where one is allowed.\<close>

definition fits_offer :: "ask_request \<Rightarrow> user_answer \<Rightarrow> bool" where
  "fits_offer q a \<longleftrightarrow> ua_skipped a \<or> set (ua_values a) \<subseteq> set (ar_values q) \<and> distinct (ua_values a) \<and>
     (ar_select q = ''one'' \<longrightarrow> length (ua_values a) \<le> 1) \<and> (ua_text a \<noteq> [] \<longrightarrow> ar_allow_custom q)"

lemma violation_None: "violation q a = None \<longleftrightarrow> fits_offer q (a\<lparr>ua_skipped := False\<rparr>)"
proof -
  have "length (remdups xs) = length xs \<longleftrightarrow> distinct xs" for xs :: "string list"
    by (metis distinct_remdups_id length_remdups_eq remdups_id_iff_distinct)
  then show ?thesis by (auto simp: violation_def fits_offer_def)
qed

definition waiting_questions :: "answer_broker \<Rightarrow> nat" where
  "waiting_questions b = length (filter (\<lambda>(_, p). ap_future p = Unresolved) (br_pending b))"

text \<open>Every delivered answer fits its question, and no opened question is delivered twice: the delivered answers and the
  questions still waiting are no more than were opened.\<close>

definition broker_inv :: "answer_broker \<Rightarrow> bool" where
  "broker_inv b \<longleftrightarrow> distinct (map fst (br_pending b)) \<and> list_all (\<lambda>(_, q, a). fits_offer q a) (br_delivered b) \<and>
     length (br_delivered b) + waiting_questions b \<le> br_opened b"

lemma waiting_put_new:
  "map_of ps k = None \<Longrightarrow> length (filter P (al_put k v ps)) = length (filter P ps) + (if P (k, v) then 1 else 0)"
  by (induction ps) (auto split: if_splits)

lemma waiting_put:
  "map_of ps k = Some v \<Longrightarrow> P (k, v) \<Longrightarrow> \<not> P (k, w) \<Longrightarrow> Suc (length (filter P (al_put k w ps))) = length (filter P ps)"
  by (induction ps) (auto split: if_splits)

lemma broker_open_inv: "broker_inv b \<Longrightarrow> broker_inv (snd (broker_open k q b))"
  by (auto simp: broker_inv_def broker_open_def waiting_questions_def waiting_put_new split: option.split)

lemma broker_submit_inv:
  assumes inv: "broker_inv b"
  shows "broker_inv (snd (broker_submit k a b))"
proof (cases "fst (broker_submit k a b) = Accepted")
  case True
  then obtain p where p: "map_of (br_pending b) k = Some p" "ap_future p = Unresolved"
      "ua_skipped a \<or> violation (ap_request p) a = None"
      "snd (broker_submit k a b) = b\<lparr>br_pending := al_put k (p\<lparr>ap_future := Resolved a\<rparr>) (br_pending b),
         br_delivered := br_delivered b @ [(k, ap_request p, a)]\<rparr>"
    by (auto simp: broker_submit_def split: option.splits if_splits)
  have "fits_offer (ap_request p) a" using p(3) by (auto simp: violation_None fits_offer_def)
  moreover have "Suc (waiting_questions (snd (broker_submit k a b))) = waiting_questions b"
    using waiting_put [OF p(1), of "\<lambda>(_, p). ap_future p = Unresolved" "p\<lparr>ap_future := Resolved a\<rparr>"] p(2)
    by (simp add: p(4) waiting_questions_def)
  ultimately show ?thesis using inv by (auto simp: broker_inv_def p(4))
next
  case False
  then have "snd (broker_submit k a b) = b" by (auto simp: broker_submit_def split: option.splits if_splits)
  then show ?thesis using inv by simp
qed

lemma filter_twice: "length (filter P (filter Q xs)) \<le> length (filter P xs)"
  by (induction xs) auto

lemma broker_close_inv: "broker_inv b \<Longrightarrow> broker_inv (broker_close k b)"
proof -
  assume inv: "broker_inv b"
  have "waiting_questions (broker_close k b) \<le> waiting_questions b"
    unfolding waiting_questions_def broker_close_def al_del_def by (simp add: filter_twice del: filter_filter)
  then show ?thesis using inv by (auto simp: broker_inv_def broker_close_def)
qed

lemma broker_abandon_inv:
  assumes inv: "broker_inv b"
  shows "broker_inv (broker_abandon k b)"
proof (cases "\<exists>p. map_of (br_pending b) k = Some p \<and> ap_future p = Unresolved")
  case True
  then obtain p where p: "map_of (br_pending b) k = Some p" "ap_future p = Unresolved" by blast
  then have "Suc (waiting_questions (broker_abandon k b)) = waiting_questions b"
    using waiting_put [OF p(1), of "\<lambda>(_, p). ap_future p = Unresolved" "p\<lparr>ap_future := Future_Cancelled\<rparr>"]
    by (simp add: broker_abandon_def waiting_questions_def)
  then show ?thesis using inv p by (simp add: broker_inv_def broker_abandon_def)
next
  case False
  then show ?thesis using inv by (auto simp: broker_abandon_def split: option.split)
qed

lemma broker_step_inv: "broker_inv b \<Longrightarrow> broker_inv (broker_step e b)"
proof (cases e)
  case Reset_Broker
  have "broker_inv c \<Longrightarrow> broker_inv (fold broker_close ks c)" for ks c
    by (induction ks arbitrary: c) (simp_all add: broker_close_inv)
  then show "broker_inv b \<Longrightarrow> ?thesis" using Reset_Broker by (simp add: broker_reset_def)
qed (simp_all add: broker_open_inv broker_submit_inv broker_abandon_inv broker_close_inv)

interpretation answers: machine broker_step broker_run
  by unfold_locales simp_all

lemma broker_run_inv: "broker_inv b \<Longrightarrow> broker_inv (broker_run es b)"
  by (rule answers.run_keeps [where P = broker_inv, OF broker_step_inv])

text \<open>For every sequence of calls, what was delivered fits what was asked, once for each opened question.\<close>

lemma delivered_answers_fit:
  "list_all (\<lambda>(_, q, a). fits_offer q a) (br_delivered (broker_run es new_broker))"
  "length (br_delivered (broker_run es new_broker)) \<le> br_opened (broker_run es new_broker)"
proof -
  have "broker_inv new_broker" by (simp add: broker_inv_def new_broker_def waiting_questions_def)
  from broker_run_inv [OF this, of es] show
    "list_all (\<lambda>(_, q, a). fits_offer q a) (br_delivered (broker_run es new_broker))"
    "length (br_delivered (broker_run es new_broker)) \<le> br_opened (broker_run es new_broker)"
    by (simp_all add: broker_inv_def)
qed

end
