(* ===== verification/Redaction.thy ===== *)
theory Redaction
  imports Control_Models
begin

text \<open>
  Redaction of untrusted engine payloads, \<^verbatim>\<open>src/cowork/coding/redaction.py\<close>. The three regular
  expressions are kept as regular expressions: \<open>matches\<close> gives the lengths of all matches of an
  expression at the start of a text, in the order Python's backtracking matcher tries them, so its
  first element is the match \<open>re\<close> reports. Strings are byte strings; the case folding and white
  space classes cover the ASCII range.
\<close>

section \<open>Regular expressions with Python's match order\<close>

datatype regex =
    Eps
  | Chr "char \<Rightarrow> bool"
  | Seq regex regex
  | Alt regex regex
  | Opt regex
  | Star regex

text \<open>Greedy repetition; an empty iteration ends it. \<open>k\<close> bounds the number of iterations by the
  length of the text.\<close>

primrec star_m :: "nat \<Rightarrow> (string \<Rightarrow> nat list) \<Rightarrow> string \<Rightarrow> nat list" where
  "star_m 0 f s = [0]"
| "star_m (Suc k) f s =
     concat (map (\<lambda>n. if n = 0 then [] else map (\<lambda>j. n + j) (star_m k f (drop n s))) (f s)) @ [0]"

primrec matches :: "regex \<Rightarrow> string \<Rightarrow> nat list" where
  "matches Eps s = [0]"
| "matches (Chr p) s = (case s of [] \<Rightarrow> [] | c # _ \<Rightarrow> if p c then [1] else [])"
| "matches (Seq a b) s = concat (map (\<lambda>n. map (\<lambda>j. n + j) (matches b (drop n s))) (matches a s))"
| "matches (Alt a b) s = matches a s @ matches b s"
| "matches (Opt a) s = matches a s @ [0]"
| "matches (Star a) s = star_m (length s) (matches a) s"

fun lit :: "string \<Rightarrow> regex" where
  "lit [] = Eps"
| "lit (c # cs) = Seq (Chr (\<lambda>d. fold_char d = c)) (lit cs)"

fun alts :: "regex list \<Rightarrow> regex" where
  "alts [] = Chr (\<lambda>_. False)"
| "alts [r] = r"
| "alts (r # rs) = Alt r (alts rs)"

definition plus_re :: "regex \<Rightarrow> regex" where
  "plus_re r = Seq r (Star r)"

definition space_char :: "char \<Rightarrow> bool" where
  "space_char c \<longleftrightarrow> (let n = of_char c :: nat in (9 \<le> n \<and> n \<le> 13) \<or> (28 \<le> n \<and> n \<le> 32))"

definition spaces :: regex where
  "spaces = Star (Chr space_char)"

definition not_newline :: "char \<Rightarrow> bool" where
  "not_newline c \<longleftrightarrow> c \<noteq> CHR 0x0A"

definition backslash :: char where
  "backslash = CHR 0x5C"

definition dquote :: char where
  "dquote = CHR 0x22"

section \<open>The expressions of the module\<close>

definition SENSITIVE_KEY :: regex where
  "SENSITIVE_KEY = alts [lit ''authorization'', Seq (lit ''api'') (Seq (Opt (Chr not_newline)) (lit ''key'')),
     lit ''token'', lit ''password'', lit ''secret'', lit ''credential'', lit ''cookie'']"

definition sep_char :: "char \<Rightarrow> bool" where
  "sep_char c \<longleftrightarrow> c = CHR ''_'' \<or> c = CHR ''-''"

definition TEXT_NAME :: regex where
  "TEXT_NAME = alts [lit ''authorization'', Seq (lit ''api'') (Seq (Opt (Chr sep_char)) (lit ''key'')),
     Seq (Opt (Seq (lit ''access'') (Opt (Chr sep_char)))) (lit ''token''),
     lit ''password'', lit ''secret'', lit ''cookie'']"

definition assign_char :: "char \<Rightarrow> bool" where
  "assign_char c \<longleftrightarrow> c = CHR '':'' \<or> c = CHR ''=''"

definition TEXT_PREFIX :: regex where
  "TEXT_PREFIX = Seq TEXT_NAME (Seq spaces (Seq (Chr assign_char)
     (Seq spaces (Opt (Seq (lit ''bearer'') (plus_re (Chr space_char)))))))"

definition value_char :: "char \<Rightarrow> bool" where
  "value_char c \<longleftrightarrow> \<not> space_char c \<and> c \<noteq> CHR '','' \<and> c \<noteq> CHR '';'' \<and> c \<noteq> CHR ''&''"

definition TEXT_VALUE :: regex where
  "TEXT_VALUE = plus_re (Chr value_char)"

definition plain_char :: "char \<Rightarrow> bool" where
  "plain_char c \<longleftrightarrow> c \<noteq> dquote \<and> c \<noteq> backslash"

definition JSON_PREFIX :: regex where
  "JSON_PREFIX = Seq (Chr (\<lambda>c. c = dquote)) (Seq (Star (Chr plain_char)) (Seq SENSITIVE_KEY
     (Seq (Star (Chr plain_char)) (Seq (Chr (\<lambda>c. c = dquote)) (Seq spaces
     (Seq (Chr (\<lambda>c. c = CHR '':'')) (Seq spaces (Chr (\<lambda>c. c = dquote)))))))))"

definition JSON_BODY :: regex where
  "JSON_BODY = Star (Alt (Chr plain_char) (Seq (Chr (\<lambda>c. c = backslash)) (Chr not_newline)))"

definition JSON_CLOSE :: regex where
  "JSON_CLOSE = Chr (\<lambda>c. c = dquote)"

section \<open>Search and substitution\<close>

fun search :: "regex \<Rightarrow> string \<Rightarrow> bool" where
  "search r [] = (matches r [] \<noteq> [])"
| "search r (c # cs) = (matches r (c # cs) \<noteq> [] \<or> search r cs)"

text \<open>The first match of a group followed by a rest, as the two lengths.\<close>

definition split_matches :: "regex \<Rightarrow> regex \<Rightarrow> string \<Rightarrow> (nat \<times> nat) list" where
  "split_matches a b s = concat (map (\<lambda>n. map (\<lambda>j. (n, j)) (matches b (drop n s))) (matches a s))"

definition REDACTED :: string where
  "REDACTED = ''[redacted]''"

definition TRUNCATED :: string where
  "TRUNCATED = ''[truncated]''"

text \<open>
  \<open>re.sub\<close> with the replacement "group 1, then \<open>[redacted]\<close>, then the last \<open>keep\<close> characters of the
  match": scan from the left, replace the first match at each position and go on after it. No match
  of the two expressions is empty, so \<open>skip\<close> counts down the rest of the match.
\<close>

fun sub_scan :: "(string \<Rightarrow> (nat \<times> nat) list) \<Rightarrow> nat \<Rightarrow> nat \<Rightarrow> string \<Rightarrow> string" where
  "sub_scan f keep skip [] = []"
| "sub_scan f keep (Suc k) (c # cs) = sub_scan f keep k cs"
| "sub_scan f keep 0 (c # cs) =
     (case f (c # cs) of
        [] \<Rightarrow> c # sub_scan f keep 0 cs
      | (n, j) # _ \<Rightarrow>
          take n (c # cs) @ REDACTED @ take keep (drop (n + j - keep) (c # cs)) @
          sub_scan f keep (n + j - 1) cs)"

definition redact_json_text :: "string \<Rightarrow> string" where
  "redact_json_text s = sub_scan (split_matches JSON_PREFIX (Seq JSON_BODY JSON_CLOSE)) 1 0 s"

definition redact_assignments :: "string \<Rightarrow> string" where
  "redact_assignments s = sub_scan (split_matches TEXT_PREFIX TEXT_VALUE) 0 0 s"

text \<open>\<open>str.replace(old, new)\<close>: left to right, not overlapping; an empty \<open>old\<close> inserts \<open>new\<close> around
  every character.\<close>

fun replace_scan :: "string \<Rightarrow> string \<Rightarrow> nat \<Rightarrow> string \<Rightarrow> string" where
  "replace_scan old new skip [] = []"
| "replace_scan old new (Suc k) (c # cs) = replace_scan old new k cs"
| "replace_scan old new 0 (c # cs) =
     (if take (length old) (c # cs) = old
      then new @ replace_scan old new (length old - 1) cs
      else c # replace_scan old new 0 cs)"

definition py_replace :: "string \<Rightarrow> string \<Rightarrow> string \<Rightarrow> string" where
  "py_replace old new s =
     (if old = [] then new @ concat (map (\<lambda>c. c # new) s) else replace_scan old new 0 s)"

definition MAX_REDACTION_INPUT_CHARS :: nat where
  "MAX_REDACTION_INPUT_CHARS = 262144"

definition redact_text :: "string \<Rightarrow> string list \<Rightarrow> string" where
  "redact_text v secrets =
     (let safe = take MAX_REDACTION_INPUT_CHARS v;
          safe = fold (\<lambda>secret t. py_replace secret REDACTED t) secrets safe;
          safe = redact_json_text safe
      in redact_assignments safe)"

section \<open>Sanitising a payload\<close>

definition MAX_SANITIZED_CHARS :: int where
  "MAX_SANITIZED_CHARS = 131072"

text \<open>The slice \<open>s[:n]\<close>: a negative bound counts from the end.\<close>

definition py_prefix :: "int \<Rightarrow> 'a list \<Rightarrow> 'a list" where
  "py_prefix n s = (if 0 \<le> n then take (nat n) s else take (nat (int (length s) + n)) s)"

text \<open>
  \<open>_sanitize(value, depth, budget)\<close> with the one-element list \<open>budget\<close> threaded as an integer. The
  loops over \<open>value.items()\<close> and \<open>value\<close> stop after a hundred entries (the counter \<open>n\<close>) or as soon as
  the budget is used up. A key cut to 256 characters may collide with an earlier one, which the
  dictionary assignment then overwrites.
\<close>

fun sanitize_at :: "nat \<Rightarrow> int \<Rightarrow> json \<Rightarrow> json \<times> int"
and sanitize_items :: "nat \<Rightarrow> nat \<Rightarrow> int \<Rightarrow> payload \<Rightarrow> payload \<Rightarrow> payload \<times> int"
and sanitize_elems :: "nat \<Rightarrow> nat \<Rightarrow> int \<Rightarrow> json list \<Rightarrow> json list \<times> int" where
  "sanitize_at depth budget v =
     (if budget \<le> 0 then (JStr TRUNCATED, budget)
      else let budget = budget - 16 in
        if depth > 5 then (JStr TRUNCATED, budget)
        else case v of
            JDict kvs \<Rightarrow>
              (case sanitize_items 100 depth budget [] kvs of (out, b) \<Rightarrow> (JDict out, b))
          | JList xs \<Rightarrow>
              (case sanitize_elems 100 depth budget xs of (out, b) \<Rightarrow> (JList out, b))
          | JStr s \<Rightarrow>
              (let safe = py_prefix (min 8192 budget) (redact_text s [])
               in (JStr safe, budget - int (length safe)))
          | scalar \<Rightarrow> (scalar, budget - 8))"
| "sanitize_items 0 depth budget out kvs = (out, budget)"
| "sanitize_items (Suc n) depth budget out [] = (out, budget)"
| "sanitize_items (Suc n) depth budget out ((k, v) # kvs) =
     (if budget \<le> 0 then (out, budget)
      else
        let safe_key = take 256 k; budget = budget - int (length safe_key)
        in if search SENSITIVE_KEY safe_key
           then sanitize_items n depth budget (al_put safe_key (JStr REDACTED) out) kvs
           else case sanitize_at (depth + 1) budget v of
                  (w, b) \<Rightarrow> sanitize_items n depth b (al_put safe_key w out) kvs)"
| "sanitize_elems 0 depth budget xs = ([], budget)"
| "sanitize_elems (Suc n) depth budget [] = ([], budget)"
| "sanitize_elems (Suc n) depth budget (x # xs) =
     (if budget \<le> 0 then ([], budget)
      else case sanitize_at (depth + 1) budget x of
             (w, b) \<Rightarrow> (case sanitize_elems n depth b xs of (ws, b') \<Rightarrow> (w # ws, b')))"

definition sanitize :: "json \<Rightarrow> json" where
  "sanitize v = fst (sanitize_at 0 MAX_SANITIZED_CHARS v)"

text \<open>\<open>redact_secrets\<close>: sanitise, then replace the given secrets in every string.\<close>

fun replace_secrets :: "string list \<Rightarrow> json \<Rightarrow> json" where
  "replace_secrets ss (JDict kvs) = JDict (map (\<lambda>(k, v). (k, replace_secrets ss v)) kvs)"
| "replace_secrets ss (JList xs) = JList (map (replace_secrets ss) xs)"
| "replace_secrets ss (JStr s) = JStr (redact_text s ss)"
| "replace_secrets ss v = v"

definition redact_secrets :: "json \<Rightarrow> string list \<Rightarrow> json" where
  "redact_secrets v ss = replace_secrets ss (sanitize v)"

end
