(* ===== verification/Redaction_Properties.thy ===== *)
theory Redaction_Properties
  imports Redaction
begin

text \<open>
  What sanitising guarantees for every payload: no value survives under a sensitive key at any
  depth, and the result has bounded depth, width and key length. The character budget, in contrast,
  can be exceeded: when between one and fifteen characters are left, charging the node makes the
  budget negative and the slice that should cut a string to the rest keeps all but its last few
  characters.
\<close>

section \<open>Sensitive keys\<close>

fun safe_json :: "json \<Rightarrow> bool" where
  "safe_json (JDict kvs) \<longleftrightarrow>
     (\<forall>(k, v) \<in> set kvs. safe_json v \<and> (search SENSITIVE_KEY k \<longrightarrow> v = JStr REDACTED))"
| "safe_json (JList xs) \<longleftrightarrow> (\<forall>x \<in> set xs. safe_json x)"
| "safe_json _ \<longleftrightarrow> True"

lemma set_al_put_sub: "set (al_put k v ps) \<subseteq> insert (k, v) (set ps)"
  by (induction ps) auto

lemma safe_dict_put:
  assumes "safe_json (JDict out)" and "safe_json w"
    and "search SENSITIVE_KEY k \<Longrightarrow> w = JStr REDACTED"
  shows "safe_json (JDict (al_put k w out))"
  using assms set_al_put_sub [of k w out] by auto

lemma sanitize_safe:
  "safe_json (fst (sanitize_at d b v))"
  "safe_json (JDict out) \<Longrightarrow> safe_json (JDict (fst (sanitize_items n d b out kvs)))"
  "safe_json (JList (fst (sanitize_elems n d b xs)))"
proof (induction d b v and n d b out kvs and n d b xs
    rule: sanitize_at_sanitize_items_sanitize_elems.induct)
  case (1 depth budget v)
  show ?case
  proof (cases "budget \<le> 0 \<or> depth > 5")
    case True
    then show ?thesis by (auto simp: Let_def)
  next
    case False
    then show ?thesis using 1
      by (cases v) (auto simp: Let_def split: prod.splits)
  qed
next
  case (4 n depth budget out k v kvs)
  show ?case
  proof (cases "budget \<le> 0")
    case False
    let ?k = "take 256 k" and ?b = "budget - int (length (take 256 k))"
    show ?thesis
    proof (cases "search SENSITIVE_KEY ?k")
      case True
      have "safe_json (JDict (al_put ?k (JStr REDACTED) out))"
        by (rule safe_dict_put [OF 4(4)]) simp_all
      then show ?thesis using 4(1) False True by (simp add: Let_def del: safe_json.simps(1))
    next
      case k: False
      obtain w b where w: "sanitize_at (depth + 1) ?b v = (w, b)" by fastforce
      have "safe_json w" using 4(2) [OF False refl refl k] w by simp
      then have "safe_json (JDict (al_put ?k w out))"
        using k by (intro safe_dict_put [OF 4(4)]) simp_all
      then show ?thesis using 4(3) [OF False refl refl k] False k w
        by (simp add: Let_def del: safe_json.simps(1))
    qed
  qed (use 4 in simp)
next
  case (7 n depth budget x xs)
  then show ?case by (auto split: prod.splits)
qed simp_all

section \<open>Shape\<close>

fun shape_ok :: "nat \<Rightarrow> json \<Rightarrow> bool" where
  "shape_ok d (JDict kvs) \<longleftrightarrow> 0 < d \<and> length kvs \<le> 100 \<and>
     (\<forall>(k, v) \<in> set kvs. length k \<le> 256 \<and> shape_ok (d - 1) v)"
| "shape_ok d (JList xs) \<longleftrightarrow> 0 < d \<and> length xs \<le> 100 \<and> (\<forall>x \<in> set xs. shape_ok (d - 1) x)"
| "shape_ok d _ \<longleftrightarrow> True"

lemma length_al_put: "length (al_put k v ps) \<le> Suc (length ps)"
  by (induction ps) auto

definition entries_ok :: "nat \<Rightarrow> payload \<Rightarrow> bool" where
  "entries_ok d kvs \<longleftrightarrow> (\<forall>(k, v) \<in> set kvs. length k \<le> 256 \<and> shape_ok d v)"

lemma entries_ok_put:
  "entries_ok d out \<Longrightarrow> length k \<le> 256 \<Longrightarrow> shape_ok d w \<Longrightarrow> entries_ok d (al_put k w out)"
  using set_al_put_sub [of k w out] by (auto simp: entries_ok_def)

lemma sanitize_shape:
  "shape_ok (6 - d) (fst (sanitize_at d b v))"
  "d \<le> 5 \<Longrightarrow> entries_ok (5 - d) out \<Longrightarrow> length out + n \<le> 100 \<Longrightarrow>
     entries_ok (5 - d) (fst (sanitize_items n d b out kvs)) \<and>
     length (fst (sanitize_items n d b out kvs)) \<le> 100"
  "d \<le> 5 \<Longrightarrow> length (fst (sanitize_elems n d b xs)) \<le> n \<and>
     (\<forall>x \<in> set (fst (sanitize_elems n d b xs)). shape_ok (5 - d) x)"
proof (induction d b v and n d b out kvs and n d b xs
    rule: sanitize_at_sanitize_items_sanitize_elems.induct)
  case (1 depth budget v)
  show ?case
  proof (cases "budget \<le> 0 \<or> depth > 5")
    case True
    then show ?thesis by (auto simp: Let_def)
  next
    case False
    then have six: "6 - depth = Suc (5 - depth)" by arith
    show ?thesis
    proof (cases v)
      case (JList xs)
      obtain ws b' where ws: "sanitize_elems 100 depth (budget - 16) xs = (ws, b')" by fastforce
      have "length (fst (sanitize_elems 100 depth (budget - 16) xs)) \<le> 100 \<and>
          (\<forall>x \<in> set (fst (sanitize_elems 100 depth (budget - 16) xs)). shape_ok (5 - depth) x)"
        using 1(1) False JList by simp
      then show ?thesis using six False JList ws by (simp add: Let_def)
    next
      case (JDict kvs)
      obtain ws b' where ws: "sanitize_items 100 depth (budget - 16) [] kvs = (ws, b')" by fastforce
      have "entries_ok (5 - depth) (fst (sanitize_items 100 depth (budget - 16) [] kvs)) \<and>
          length (fst (sanitize_items 100 depth (budget - 16) [] kvs)) \<le> 100"
        using 1(2) False JDict by (simp add: entries_ok_def)
      then show ?thesis using six False JDict ws by (simp add: Let_def entries_ok_def)
    qed (use False in \<open>simp_all add: Let_def\<close>)
  qed
next
  case (4 n depth budget out k v kvs)
  show ?case
  proof (cases "budget \<le> 0")
    case False
    let ?k = "take 256 k" and ?b = "budget - int (length (take 256 k))"
    have len: "length (al_put ?k w out) + n \<le> 100" for w :: json
      using length_al_put [of ?k w out] 4(6) by simp
    show ?thesis
    proof (cases "search SENSITIVE_KEY ?k")
      case True
      have "entries_ok (5 - depth) (al_put ?k (JStr REDACTED) out)"
        by (rule entries_ok_put [OF 4(5)]) simp_all
      then show ?thesis using 4(1) [OF False refl refl True 4(4)] len False True
        by (simp add: Let_def)
    next
      case k: False
      obtain w b where w: "sanitize_at (depth + 1) ?b v = (w, b)" by fastforce
      have "shape_ok (5 - depth) w" using 4(2) [OF False refl refl k] w by simp
      then have "entries_ok (5 - depth) (al_put ?k w out)"
        by (intro entries_ok_put [OF 4(5)]) simp_all
      then show ?thesis using 4(3) [OF False refl refl k] 4(4) len False k w
        by (simp add: Let_def)
    qed
  qed (use 4 in simp)
next
  case (7 n depth budget x xs)
  then show ?case by (auto split: prod.splits)
qed (simp_all add: entries_ok_def)

section \<open>Text without an assignment is left alone\<close>

text \<open>Both substitutions need a colon or an equals sign.\<close>

definition dead :: "(char \<Rightarrow> bool) \<Rightarrow> regex \<Rightarrow> bool" where
  "dead p r \<longleftrightarrow> (\<forall>s. (\<forall>c \<in> set s. \<not> p c) \<longrightarrow> matches r s = [])"

lemma dead_Chr: "(\<And>c. q c \<Longrightarrow> p c) \<Longrightarrow> dead p (Chr q)"
  by (auto simp: dead_def split: list.splits)

lemma dead_Seq_left: "dead p a \<Longrightarrow> dead p (Seq a b)"
  by (simp add: dead_def)

lemma dead_Seq_right: "dead p b \<Longrightarrow> dead p (Seq a b)"
  by (auto simp: dead_def dest: in_set_dropD)

lemma dead_TEXT_PREFIX: "dead assign_char TEXT_PREFIX"
  unfolding TEXT_PREFIX_def
  by (rule dead_Seq_right, rule dead_Seq_right, rule dead_Seq_left, rule dead_Chr)

lemma dead_JSON_PREFIX: "dead assign_char JSON_PREFIX"
  unfolding JSON_PREFIX_def
  by (rule dead_Seq_right, rule dead_Seq_right, rule dead_Seq_right, rule dead_Seq_right,
      rule dead_Seq_right, rule dead_Seq_right, rule dead_Seq_left, rule dead_Chr)
    (simp add: assign_char_def)

lemma sub_scan_dead:
  assumes "dead p a" and "\<forall>c \<in> set s. \<not> p c"
  shows "sub_scan (split_matches a b) keep 0 s = s"
  using assms(2)
proof (induction s)
  case (Cons c cs)
  have "matches a (c # cs) = []" using assms(1) Cons.prems unfolding dead_def by blast
  then show ?case using Cons by (simp add: split_matches_def)
qed simp

lemma redact_text_plain:
  assumes "\<forall>c \<in> set s. \<not> assign_char c" and "length s \<le> MAX_REDACTION_INPUT_CHARS"
  shows "redact_text s [] = s"
  using assms sub_scan_dead [OF dead_JSON_PREFIX assms(1)] sub_scan_dead [OF dead_TEXT_PREFIX assms(1)]
  by (simp add: redact_text_def redact_json_text_def redact_assignments_def)

section \<open>The character budget\<close>

text \<open>A string cut to a positive rest is short; cut to a negative rest it is nearly whole.\<close>

lemma sanitize_string_within:
  assumes "d \<le> 5" and "16 \<le> b" and "sanitize_at d b (JStr s) = (JStr t, b')"
  shows "int (length t) \<le> b - 16" and "0 \<le> b'"
  using assms by (auto simp: Let_def py_prefix_def min_def)

lemma sanitize_string_negative:
  assumes "d \<le> 5" and "0 < b" and "b < 16"
  shows "sanitize_at d b (JStr s) =
    (let t = take (nat (int (length (redact_text s [])) + b - 16)) (redact_text s [])
     in (JStr t, b - 16 - int (length t)))"
  using assms by (simp add: Let_def py_prefix_def min_def algebra_simps)

text \<open>The characters kept in the strings of a value.\<close>

fun text_size :: "json \<Rightarrow> nat" where
  "text_size (JStr s) = length s"
| "text_size (JList xs) = sum_list (map text_size xs)"
| "text_size (JDict kvs) = sum_list (map (\<lambda>(k, v). length k + text_size v) kvs)"
| "text_size _ = 0"

definition letters :: "nat \<Rightarrow> json" where
  "letters n = JStr (replicate n CHR ''a'')"

lemma redact_letters: "n \<le> 262144 \<Longrightarrow> redact_text (replicate n CHR ''a'') [] = replicate n CHR ''a''"
  by (rule redact_text_plain) (auto simp: assign_char_def MAX_REDACTION_INPUT_CHARS_def)

lemma sanitize_letters:
  assumes "n \<le> 262144" and "d \<le> 5" and "16 \<le> b"
  shows "sanitize_at d b (letters n) =
    (letters (min n (nat (min 8192 (b - 16)))), b - 16 - int (min n (nat (min 8192 (b - 16)))))"
  using assms by (simp add: letters_def Let_def py_prefix_def redact_letters min_def)

lemma sanitize_letters_negative:
  assumes "n \<le> 262144" and "16 \<le> n" and "d \<le> 5" and "0 < b" and "b < 16"
  shows "fst (sanitize_at d b (letters n)) = letters (nat (int n + b - 16))"
proof -
  have "nat (int n + b - 16) \<le> n" using assms by simp
  then show ?thesis
    using assms
    by (simp add: letters_def sanitize_string_negative redact_letters Let_def min_def
        del: sanitize_at.simps)
qed

text \<open>Fifteen full strings, one that leaves ten characters, and a long one.\<close>

definition over_budget :: json where
  "over_budget = JList (replicate 15 (letters 8192) @ [letters 7910, letters 200000])"

text \<open>A run of equal strings that fit in full.\<close>

lemma sanitize_elems_letters:
  assumes "n \<le> 8192" and "d \<le> 4" and "m + k \<le> j" and "int m * (int n + 16) < b"
  shows "sanitize_elems j d b (replicate m (letters n) @ xs) =
    (case sanitize_elems (j - m) d (b - int m * (int n + 16)) xs of
       (ws, b') \<Rightarrow> (replicate m (letters n) @ ws, b'))"
  using assms
proof (induction m arbitrary: j b)
  case (Suc m)
  obtain i where j: "j = Suc i" using Suc.prems(3) by (cases j) auto
  have b: "int n + 16 < b" "int m * (int n + 16) < b - (int n + 16)"
    using Suc.prems(4) by (simp_all add: algebra_simps) (smt (verit) mult_nonneg_nonneg of_nat_0_le_iff)
  have "int n \<le> min 8192 (b - 16)" using Suc.prems(1) b(1) by simp
  then have fit: "min n (nat (min 8192 (b - 16))) = n" by linarith
  have head: "sanitize_at (d + 1) b (letters n) = (letters n, b - (int n + 16))"
    using sanitize_letters [of n "d + 1" b] Suc.prems b(1) unfolding fit
    by (simp del: sanitize_at.simps)
  show ?case
    using Suc.IH [of i "b - (int n + 16)"] Suc.prems j b head
    by (simp add: algebra_simps split: prod.splits del: sanitize_at.simps)
qed (simp split: prod.splits)

lemma over_budget_kept:
  "sanitize over_budget =
     JList (replicate 15 (letters 8192) @ [letters 7910, letters 199994])"
proof -
  have a: "sanitize_at (Suc 0) 7936 (letters 7910) = (letters 7910, 10)"
    using sanitize_letters [of 7910 "Suc 0" 7936] by (simp add: min_def del: sanitize_at.simps)
  have b: "fst (sanitize_at (Suc 0) 10 (letters 200000)) = letters 199994"
    using sanitize_letters_negative [of 200000 "Suc 0" 10] by (simp del: sanitize_at.simps)
  then obtain r where c: "sanitize_at (Suc 0) 10 (letters 200000) = (letters 199994, r)"
    by (metis prod.collapse)
  have e: "(85::nat) = Suc (Suc (Suc 82))" by simp
  have tail: "sanitize_elems 85 0 7936 [letters 7910, letters 200000] =
      ([letters 7910, letters 199994], r)"
    using a c unfolding e sanitize_elems.simps by (simp del: sanitize_at.simps)
  have all: "sanitize_elems 100 0 131056
        (replicate 15 (letters 8192) @ [letters 7910, letters 200000]) =
      (replicate 15 (letters 8192) @ [letters 7910, letters 199994], r)"
    using sanitize_elems_letters [of 8192 0 15 2 100 131056 "[letters 7910, letters 200000]"] tail
    by (simp del: sanitize_elems.simps)
  show ?thesis
    unfolding sanitize_def over_budget_def MAX_SANITIZED_CHARS_def sanitize_at.simps [of 0 131072]
    using all by (simp del: sanitize_elems.simps)
qed

end
