(* ===== verification/Fencing.thy ===== *)
theory Fencing
  imports Run_State Redaction
begin

text \<open>
  The operations of the control plane that mutate one Task Run, as the callbacks the service hands to
  the store: applying a runtime event under the fence (\<open>accept_event\<close>, \<open>_apply_event\<close>,
  \<open>_require_fence\<close>, \<open>_require_event_owner\<close>), expiring a lease (\<open>_expire_lease\<close>), projecting a local
  session (\<open>sync_session\<close>) of \<^verbatim>\<open>src/cowork/coding/control_service.py\<close>, and fencing a run for recovery
  (\<open>recover_run\<close> of \<^verbatim>\<open>run_recovery.py\<close>). Each of them interprets the contract \<open>run_operation\<close>.
\<close>

definition LEASE_DURATION :: time where
  "LEASE_DURATION = seconds 30"

section \<open>The fence\<close>

definition require_event_owner :: "task_run \<Rightarrow> string \<Rightarrow> int \<Rightarrow> unit result" where
  "require_event_owner r cid ep =
     (if run_computer_id r \<noteq> cid \<or> run_epoch r \<noteq> ep
      then Inl (StaleRuntimeEvent ''Task Run ownership changed'') else Inr ())"

definition require_fence :: "time \<Rightarrow> task_run \<Rightarrow> string \<Rightarrow> string \<Rightarrow> int \<Rightarrow> unit result" where
  "require_fence now r cid lease ep =
     (case require_event_owner r cid ep of
        Inl e \<Rightarrow> Inl e
      | Inr _ \<Rightarrow>
          if \<not> truthy (run_lease_id r) then Inl (StaleRuntimeEvent ''Task Run ownership changed'')
          else if run_lease_id r \<noteq> Some lease then Inl (StaleRuntimeEvent ''Task Run lease is stale'')
          else case run_lease_expires_at r of
                 None \<Rightarrow> Inl (StaleRuntimeEvent ''Task Run lease expired'')
               | Some t \<Rightarrow> if t < now then Inl (StaleRuntimeEvent ''Task Run lease expired'') else Inr ())"

lemma require_fence_Inr:
  "require_fence now r cid lease ep = Inr () \<longleftrightarrow>
     run_computer_id r = cid \<and> run_epoch r = ep \<and> lease \<noteq> [] \<and> run_lease_id r = Some lease \<and>
     (\<exists>t. run_lease_expires_at r = Some t \<and> now \<le> t)"
  by (auto simp: require_fence_def require_event_owner_def split: option.splits sum.splits)

section \<open>Applying a runtime event\<close>

definition json_truthy :: "json \<Rightarrow> bool" where
  "json_truthy v = (case v of JNull \<Rightarrow> False | JBool b \<Rightarrow> b | JInt n \<Rightarrow> n \<noteq> 0 | JFloat m _ \<Rightarrow> m \<noteq> 0
     | JStr s \<Rightarrow> s \<noteq> [] | JList xs \<Rightarrow> xs \<noteq> [] | JDict kvs \<Rightarrow> kvs \<noteq> [])"

text \<open>\<open>d.get(k)\<close> on a payload, and \<open>str(d.get("message") or d.get("detail") or default)\<close>. The
  argument \<open>pystr\<close> is Python's \<open>str()\<close> on a value that is not a string.\<close>

definition pget :: "payload \<Rightarrow> string \<Rightarrow> json" where
  "pget d k = (case map_of d k of None \<Rightarrow> JNull | Some v \<Rightarrow> v)"

definition py_str :: "(json \<Rightarrow> string) \<Rightarrow> json \<Rightarrow> string" where
  "py_str pystr v = (case v of JStr s \<Rightarrow> s | _ \<Rightarrow> pystr v)"

definition event_message :: "(json \<Rightarrow> string) \<Rightarrow> payload \<Rightarrow> string" where
  "event_message pystr d =
     (if json_truthy (pget d ''message'') then py_str pystr (pget d ''message'')
      else if json_truthy (pget d ''detail'') then py_str pystr (pget d ''detail'')
      else ''Runtime failed'')"

definition apply_event :: "(json \<Rightarrow> string) \<Rightarrow> time \<Rightarrow> task_run \<Rightarrow> runtime_event \<Rightarrow> task_run result" where
  "apply_event pystr now r ev =
     (case ev_kind ev of
        Ev_Checkpoint \<Rightarrow>
          Inr (r\<lparr>run_checkpoint := (case sanitize (JDict (ev_payload ev)) of JDict d \<Rightarrow> d | _ \<Rightarrow> [])\<rparr>)
      | Ev_Status \<Rightarrow>
          (case pget (ev_payload ev) ''status'' of
             JStr v \<Rightarrow> (case run_status_of v of
                          Inl e \<Rightarrow> Inl e
                        | Inr st \<Rightarrow> transition_run now r st None)
           | _ \<Rightarrow> Inr r)
      | Ev_Turn_Completed \<Rightarrow> transition_run now r Ready None
      | Ev_Error \<Rightarrow> transition_run now r Failed
          (Some (take 4000 (redact_text (event_message pystr (ev_payload ev)) [])))
      | _ \<Rightarrow> Inr r)"

text \<open>
  The part of \<open>accept_event\<close>'s operation before the side effects, and the part after them. The
  first component of \<open>accept_begin\<close> tells an exact redelivery of the last event, which is acknowledged
  without being applied again.
\<close>

definition redelivered :: "task_run \<Rightarrow> runtime_event \<Rightarrow> bool" where
  "redelivered r ev \<longleftrightarrow> ev_seq ev = run_last_event_seq r \<and> run_last_event_id r = Some (ev_id ev)"

definition accept_begin ::
  "(json \<Rightarrow> string) \<Rightarrow> time \<Rightarrow> runtime_event \<Rightarrow> task_run \<Rightarrow> (bool \<times> task_run) result" where
  "accept_begin pystr now ev r =
     (if redelivered r ev
      then (case require_event_owner r (ev_computer_id ev) (ev_epoch ev) of
              Inl e \<Rightarrow> Inl e | Inr _ \<Rightarrow> Inr (True, r))
      else
        (case require_fence now r (ev_computer_id ev) (ev_lease_id ev) (ev_epoch ev) of
           Inl e \<Rightarrow> Inl e
         | Inr _ \<Rightarrow>
             let r1 = r\<lparr>run_lease_expires_at := Some (now + LEASE_DURATION)\<rparr> in
             if ev_seq ev \<le> run_last_event_seq r
             then Inl (StaleRuntimeEvent ''Runtime event sequence is stale'')
             else (case apply_event pystr now r1 ev of Inl e \<Rightarrow> Inl e | Inr r2 \<Rightarrow> Inr (False, r2))))"

definition accept_finish :: "runtime_event \<Rightarrow> task_run \<Rightarrow> task_run" where
  "accept_finish ev r = r\<lparr>run_last_event_seq := ev_seq ev, run_last_event_id := Some (ev_id ev)\<rparr>"

text \<open>The whole operation without side effects.\<close>

definition accept_operation ::
  "(json \<Rightarrow> string) \<Rightarrow> time \<Rightarrow> runtime_event \<Rightarrow> task_run \<Rightarrow> task_run result" where
  "accept_operation pystr now ev r =
     (case accept_begin pystr now ev r of
        Inl e \<Rightarrow> Inl e
      | Inr (done, r') \<Rightarrow> Inr (if done then r' else accept_finish ev r'))"

section \<open>Expiring a lease\<close>

definition lease_expired :: "time \<Rightarrow> task_run \<Rightarrow> bool" where
  "lease_expired now r = (case run_lease_expires_at r of None \<Rightarrow> False | Some t \<Rightarrow> t < now)"

definition expire_lease :: "time \<Rightarrow> resume_mode \<Rightarrow> task_run \<Rightarrow> task_run result" where
  "expire_lease now mode r =
     (if \<not> lease_expired now r then Inr r
      else if run_status r \<notin> {Preparing, Ready, Running, Awaiting_Approval} then Inr r
      else transition_run now
             (r\<lparr>run_lease_id := None, run_lease_expires_at := None, run_epoch := run_epoch r + 1,
               run_last_event_seq := 0, run_last_event_id := None, run_checkpoint := [],
               run_resume_mode := mode, run_recovery_count := run_recovery_count r + 1\<rparr>)
             Recovering
             (Some ''The computer stopped responding. The task can be resumed safely.''))"

section \<open>Recovery (run\_recovery.py)\<close>

fun portable :: "project_resource \<Rightarrow> bool" where
  "portable (Repository r) \<longleftrightarrow> truthy (rr_source_url r)"
| "portable (Local_Folder f) \<longleftrightarrow> False"

text \<open>The callback \<open>fence\<close>; \<open>project\<close> is the task's frozen execution project.\<close>

definition recovery_fence ::
  "time \<Rightarrow> computer \<Rightarrow> bool \<Rightarrow> code_project option \<Rightarrow> task_run \<Rightarrow> task_run result" where
  "recovery_fence now target allow_recreate project r =
     (let moving = comp_id target \<noteq> run_computer_id r in
      if moving \<and> (project = None \<or> (\<exists>x \<in> set (cp_resources (the project)). \<not> portable x))
      then Inl (NoEligibleComputer
        ''This task includes resources that only exist on its original computer'')
      else if moving \<and> \<not> allow_recreate
      then Inl (NoEligibleComputer
        ''Moving this task starts a fresh working copy and requires confirmation'')
      else transition_run now
             (r\<lparr>run_computer_id := comp_id target, run_epoch := run_epoch r + 1, run_lease_id := None,
               run_lease_expires_at := None, run_last_event_seq := 0, run_last_event_id := None,
               run_checkpoint := [],
               run_resume_mode := (if moving then Recreate else Restore),
               run_recovery_count := run_recovery_count r + 1\<rparr>)
             Recovering None)"

section \<open>The session projection (sync\_session)\<close>

fun SESSION_STATUS :: "session_status \<Rightarrow> run_status" where
  "SESSION_STATUS S_Ready = Ready"
| "SESSION_STATUS S_Running = Running"
| "SESSION_STATUS S_Awaiting_Approval = Awaiting_Approval"
| "SESSION_STATUS S_Completed = Completed"
| "SESSION_STATUS S_Cancelled = Cancelled"
| "SESSION_STATUS S_Interrupted = Interrupted"
| "SESSION_STATUS S_Failed = Failed"

definition reconcile :: "time \<Rightarrow> string \<Rightarrow> coding_session \<Rightarrow> task_run \<Rightarrow> task_run result" where
  "reconcile now local ses r =
     (if run_computer_id r \<noteq> local then Inr r
      else if run_status r = Preparing \<and> ses_status ses = S_Running then Inr r
      else transition_run now r (SESSION_STATUS (ses_status ses)) (ses_last_error ses))"

section \<open>Every callback keeps the run contract\<close>

lemma apply_event_frame:
  assumes "apply_event pystr now r ev = Inr r'"
  shows "run_id r' = run_id r \<and> run_task_id r' = run_task_id r \<and> run_epoch r' = run_epoch r \<and>
    run_computer_id r' = run_computer_id r \<and> run_last_event_seq r' = run_last_event_seq r \<and>
    run_last_event_id r' = run_last_event_id r"
  using assms
  by (auto simp: apply_event_def split: event_kind.splits json.splits sum.splits
      dest: transition_run_frame)

lemma apply_event_ok:
  assumes "apply_event pystr now r ev = Inr r'" and "run_ok r"
  shows "run_ok r'"
  using assms
  by (auto simp: apply_event_def run_ok_def split: event_kind.splits json.splits sum.splits
      dest: transition_run_ok)

lemma accept_begin_cases:
  assumes "accept_begin pystr now ev r = Inr (done, r')"
  obtains (again) "done" "r' = r" "redelivered r ev" "run_computer_id r = ev_computer_id ev"
      "run_epoch r = ev_epoch ev"
  | (fresh) "\<not> done" "\<not> redelivered r ev" "run_last_event_seq r < ev_seq ev"
      "require_fence now r (ev_computer_id ev) (ev_lease_id ev) (ev_epoch ev) = Inr ()"
      "apply_event pystr now (r\<lparr>run_lease_expires_at := Some (now + LEASE_DURATION)\<rparr>) ev = Inr r'"
  using assms
  by (auto simp: accept_begin_def Let_def require_event_owner_def split: if_splits sum.splits)

lemma accept_operation_cases:
  assumes "accept_operation pystr now ev r = Inr r'"
  obtains (again) "r' = r" "redelivered r ev" "run_computer_id r = ev_computer_id ev"
      "run_epoch r = ev_epoch ev"
  | (fresh) r2 where "\<not> redelivered r ev" "run_last_event_seq r < ev_seq ev"
      "require_fence now r (ev_computer_id ev) (ev_lease_id ev) (ev_epoch ev) = Inr ()"
      "apply_event pystr now (r\<lparr>run_lease_expires_at := Some (now + LEASE_DURATION)\<rparr>) ev = Inr r2"
      "r' = accept_finish ev r2"
proof -
  from assms obtain d r2 where d: "accept_begin pystr now ev r = Inr (d, r2)"
      "r' = (if d then r2 else accept_finish ev r2)"
    by (auto simp: accept_operation_def split: sum.splits prod.splits)
  from d(1) show ?thesis
    by (rule accept_begin_cases) (use d that in auto)
qed

lemma renew_ok:
  "run_ok r \<Longrightarrow> require_fence now r c l e = Inr () \<Longrightarrow> run_ok (r\<lparr>run_lease_expires_at := Some t\<rparr>)"
  by (auto simp: run_ok_def require_fence_Inr)

text \<open>One lemma per callback, in the form the interpretations need.\<close>

definition contract :: "task_run \<Rightarrow> task_run \<Rightarrow> bool" where
  "contract r r' \<longleftrightarrow> run_id r' = run_id r \<and> run_task_id r' = run_task_id r \<and>
     (run_ok r \<longrightarrow> run_ok r' \<and> run_le r r')"

lemma contract_refl [simp]: "contract r r"
  by (simp add: contract_def)

lemma contract_op:
  assumes "\<And>r r'. f r = Inr r' \<Longrightarrow> contract r r'"
  shows "run_operation f"
  using assms by unfold_locales (simp_all add: contract_def)

lemma contract_transition: "transition_run now r st err = Inr r' \<Longrightarrow> contract r r'"
  using transition_op.op_identity transition_op.op_ok transition_op.op_le
  unfolding contract_def by blast

lemma accept_contract:
  assumes "accept_operation pystr now ev r = Inr r'"
  shows "contract r r'"
  using assms
proof (cases rule: accept_operation_cases)
  case (fresh r2)
  note fr = apply_event_frame [OF fresh(4)]
  have "run_ok r'" if ok: "run_ok r"
  proof -
    have "run_ok r2" using apply_event_ok [OF fresh(4) renew_ok [OF ok fresh(3)]] .
    moreover have "0 \<le> ev_seq ev" using ok fresh(2) by (simp add: run_ok_def)
    ultimately show ?thesis by (auto simp: run_ok_def accept_finish_def fresh(5))
  qed
  then show ?thesis using fr fresh(2) by (simp add: contract_def run_le_def accept_finish_def fresh(5))
qed simp

text \<open>Starting a new epoch without a lease, as both expiry and recovery do.\<close>

lemma contract_new_epoch:
  assumes t: "transition_run now r1 st err = Inr r'"
    and "run_id r1 = run_id r" "run_task_id r1 = run_task_id r" "run_epoch r1 = run_epoch r + 1"
    "run_last_event_seq r1 = 0" "run_lease_id r1 = None" "run_lease_expires_at r1 = None"
  shows "contract r r'"
proof -
  have "run_ok r \<Longrightarrow> run_ok r1" using assms(2-) by (auto simp: run_ok_def)
  then have "run_ok r \<Longrightarrow> run_ok r'" using transition_run_ok [OF t] by blast
  then show ?thesis using transition_run_frame [OF t] assms(2-) by (simp add: contract_def run_le_def)
qed

lemma expire_contract:
  assumes "expire_lease now mode r = Inr r'"
  shows "contract r r'"
proof (cases "lease_expired now r \<and> run_status r \<in> {Preparing, Ready, Running, Awaiting_Approval}")
  case True
  then have t: "transition_run now
      (r\<lparr>run_lease_id := None, run_lease_expires_at := None, run_epoch := run_epoch r + 1,
        run_last_event_seq := 0, run_last_event_id := None, run_checkpoint := [],
        run_resume_mode := mode, run_recovery_count := run_recovery_count r + 1\<rparr>) Recovering
      (Some ''The computer stopped responding. The task can be resumed safely.'') = Inr r'"
    using assms by (simp add: expire_lease_def)
  show ?thesis by (rule contract_new_epoch [OF t]) simp_all
next
  case False
  then show ?thesis using assms by (auto simp: expire_lease_def split: if_split_asm)
qed

lemma recovery_fence_transition:
  assumes "recovery_fence now target allow project r = Inr r'"
  shows "transition_run now
      (r\<lparr>run_computer_id := comp_id target, run_epoch := run_epoch r + 1, run_lease_id := None,
        run_lease_expires_at := None, run_last_event_seq := 0, run_last_event_id := None,
        run_checkpoint := [],
        run_resume_mode := (if comp_id target \<noteq> run_computer_id r then Recreate else Restore),
        run_recovery_count := run_recovery_count r + 1\<rparr>) Recovering None = Inr r'"
  using assms unfolding recovery_fence_def Let_def by (simp split: if_split_asm)

lemma recovery_contract:
  assumes "recovery_fence now target allow project r = Inr r'"
  shows "contract r r'"
  by (rule contract_new_epoch [OF recovery_fence_transition [OF assms]]) simp_all

lemma reconcile_contract: "reconcile now local ses r = Inr r' \<Longrightarrow> contract r r'"
  by (auto simp: reconcile_def split: if_split_asm dest: contract_transition)

interpretation accept_op: run_operation "accept_operation pystr now ev" for pystr now ev
  by (rule contract_op) (rule accept_contract)

interpretation expire_op: run_operation "expire_lease now mode" for now mode
  by (rule contract_op) (rule expire_contract)

interpretation recovery_op: run_operation "recovery_fence now target allow project"
  for now target allow project
  by (rule contract_op) (rule recovery_contract)

interpretation reconcile_op: run_operation "reconcile now local ses" for now local ses
  by (rule contract_op) (rule reconcile_contract)

end
