(* ===== verification/Control_Service.thy ===== *)
theory Control_Service
  imports Fencing Store_Properties
begin

text \<open>
  \<open>ControlPlaneService\<close> of \<^verbatim>\<open>src/cowork/coding/control_service.py\<close> over the local store: computers and
  their credentials, placement of task runs, the lease and event protocol of a remote runtime, the
  command queue, and recovery. \<open>local\<close> is the id of \<open>self.local_computer\<close>, \<open>now\<close> the clock reading
  of the call, and every argument that stands for \<open>uuid.uuid4().hex\<close> or \<open>secrets.token_urlsafe(n)\<close>
  is the fresh value itself. \<open>digest\<close> is the SHA-256 hex digest; nothing below depends on which function
  it is. The service lock makes each method one step.
\<close>

section \<open>Text helpers\<close>

fun split_words :: "string \<Rightarrow> string \<Rightarrow> string list" where
  "split_words acc [] = (if acc = [] then [] else [rev acc])"
| "split_words acc (c # cs) =
     (if space_char c then (if acc = [] then split_words [] cs else rev acc # split_words [] cs)
      else split_words (c # acc) cs)"

fun join_with :: "string \<Rightarrow> string list \<Rightarrow> string" where
  "join_with sep [] = []"
| "join_with sep [w] = w"
| "join_with sep (w # ws) = w @ sep @ join_with sep ws"

definition py_strip :: "string \<Rightarrow> string" where
  "py_strip s = rev (dropWhile space_char (rev (dropWhile space_char s)))"

definition computer_name :: "string \<Rightarrow> string" where
  "computer_name v =
     (let normalized = join_with '' '' (split_words [] (py_replace ''-'' '' '' (py_replace ''.local'' [] v)))
      in take 120 (if normalized = [] then ''This computer'' else normalized))"

section \<open>The security audit (security\_audit.py)\<close>

definition record_security_event ::
  "time \<Rightarrow> string \<Rightarrow> string \<Rightarrow> audit_outcome \<Rightarrow> audit_actor \<Rightarrow> string \<Rightarrow> string option \<Rightarrow> string option
     \<Rightarrow> string \<Rightarrow> (local_store, unit) comp" where
  "record_security_event now aid action outcome actor target rid cid detail =
     sbind (smake ''SecurityAuditEvent'' valid_audit_event
       \<lparr>audit_id = aid, audit_action = action, audit_outcome = outcome, audit_actor = actor,
        audit_target_id = target, audit_run_id = rid, audit_computer_id = cid,
        audit_detail = detail, audit_created_at = now\<rparr>) (\<lambda>a.
     sbind (save_audit_event a) (\<lambda>_. sreturn ()))"

section \<open>Computers\<close>

definition OFFLINE_AFTER :: time where
  "OFFLINE_AFTER = seconds 35"

definition active_count :: "string \<Rightarrow> (local_store, int) comp" where
  "active_count cid =
     sbind list_runs (\<lambda>rs. sreturn (int (length (filter
       (\<lambda>r. run_computer_id r = cid \<and>
            run_status r \<in> {Preparing, Running, Awaiting_Approval, Recovering}) rs))))"

definition heartbeat :: "time \<Rightarrow> string \<Rightarrow> int \<Rightarrow> (local_store, computer) comp" where
  "heartbeat now cid n =
     sbind (get_computer cid) (\<lambda>c.
     sbind (sguard (comp_revoked_at c = None)
             (RuntimeAuthenticationError ''This computer has been revoked'')) (\<lambda>_.
     save_computer now
       (c\<lparr>comp_last_seen_at := now, comp_updated_at := now, comp_active_run_count := n,
          comp_status := (if comp_status c \<noteq> Draining then Online else comp_status c)\<rparr>)))"

definition expire_stale_computers :: "time \<Rightarrow> string \<Rightarrow> (local_store, unit) comp" where
  "expire_stale_computers now local =
     sbind list_computers (\<lambda>cs.
     sbind (smapM (\<lambda>c. save_computer now (c\<lparr>comp_status := Offline\<rparr>))
       (filter (\<lambda>c. \<not> (comp_id c = local \<or> comp_status c = Draining) \<and>
          comp_last_seen_at c < now - OFFLINE_AFTER \<and> comp_status c \<noteq> Offline) cs)) (\<lambda>_.
     sreturn ()))"

definition list_computer_page :: "time \<Rightarrow> string \<Rightarrow> (local_store, computer list) comp" where
  "list_computer_page now local =
     sbind (active_count local) (\<lambda>n.
     sbind (heartbeat now local n) (\<lambda>_.
     sbind (expire_stale_computers now local) (\<lambda>_.
     sbind list_computers (\<lambda>cs. sreturn (filter (\<lambda>c. comp_revoked_at c = None) cs)))))"

definition write_local_computer_name :: "string \<Rightarrow> (local_store, unit) comp" where
  "write_local_computer_name name =
     (\<lambda>s. (Inr (), s\<lparr>local_name_file := Some (computer_name name @ [CHR 0x0A])\<rparr>))"

definition read_local_computer_name :: "(local_store, string option) comp" where
  "read_local_computer_name =
     (\<lambda>s. (Inr (case local_name_file s of
                  None \<Rightarrow> None
                | Some t \<Rightarrow> let v = py_strip t in if v = [] then None else Some (computer_name v)), s))"

text \<open>\<open>_local_computer_id\<close>: the stored id, or a fresh one written to the file.\<close>

definition local_computer_id :: "string \<Rightarrow> (local_store, string) comp" where
  "local_computer_id fresh =
     (\<lambda>s. case local_id_file s of
            Some t \<Rightarrow>
              if py_strip t \<noteq> [] then (Inr (py_strip t), s)
              else (Inr fresh, s\<lparr>local_id_file := Some (fresh @ [CHR 0x0A])\<rparr>)
          | None \<Rightarrow> (Inr fresh, s\<lparr>local_id_file := Some (fresh @ [CHR 0x0A])\<rparr>))"

definition rename_computer :: "time \<Rightarrow> string \<Rightarrow> string \<Rightarrow> (local_store, computer) comp" where
  "rename_computer now cid name =
     sbind (get_computer cid) (\<lambda>c.
     sbind (sguard (comp_revoked_at c = None) (KeyError ''Computer not found'')) (\<lambda>_.
     let c' = c\<lparr>comp_name := computer_name name\<rparr> in
     sbind (if comp_is_local c' then write_local_computer_name (comp_name c') else sreturn ()) (\<lambda>_.
     save_computer now c')))"

definition revoke_computer :: "time \<Rightarrow> string \<Rightarrow> (local_store, unit) comp" where
  "revoke_computer now cid =
     sbind (get_computer cid) (\<lambda>c.
     sbind (sguard (comp_revoked_at c = None) (KeyError ''Computer not found'')) (\<lambda>_.
     sbind (sguard (\<not> comp_is_local c) (ValueError ''This computer cannot be revoked from itself'')) (\<lambda>_.
     sbind list_runs (\<lambda>rs.
     sbind (sguard (\<not> (\<exists>r \<in> set rs. run_computer_id r = cid \<and> run_status r \<notin> set TERMINAL_RUN_STATUSES))
             (StateConflict ''Finish or move this computer's active tasks before revoking it'')) (\<lambda>_.
     sbind (save_computer now
       (c\<lparr>comp_registration_epoch := comp_registration_epoch c + 1, comp_status := Offline,
          comp_active_run_count := 0, comp_revoked_at := Some now\<rparr>)) (\<lambda>_.
     sreturn ()))))))"

definition register_local ::
  "time \<Rightarrow> string \<Rightarrow> string \<Rightarrow> computer_capabilities \<Rightarrow> (local_store, computer) comp" where
  "register_local now fresh node caps =
     sbind (local_computer_id fresh) (\<lambda>i.
     sbind read_local_computer_name (\<lambda>saved.
     let name = (case saved of Some n \<Rightarrow> if n \<noteq> [] then n else computer_name node
                 | None \<Rightarrow> computer_name node) in
     sbind (stry_key (get_computer i)) (\<lambda>found.
       case found of
         Some c \<Rightarrow> save_computer now
           (c\<lparr>comp_name := name, comp_is_local := True, comp_capabilities := caps,
              comp_status := Online, comp_last_seen_at := now, comp_revoked_at := None\<rparr>)
       | None \<Rightarrow>
           sbind (smake ''Computer'' valid_computer (new_computer now i name True caps))
             (save_computer now))))"

section \<open>Registration and authentication\<close>

definition issue_registration_token ::
  "(string \<Rightarrow> string) \<Rightarrow> time \<Rightarrow> string \<Rightarrow> (local_store, string) comp" where
  "issue_registration_token digest now token =
     sbind (smake ''RuntimeRegistrationCredential'' valid_registration_credential
       \<lparr>reg_id = digest token, reg_token_hash = digest token, reg_expires_at = now + minutes 10,
        reg_consumed_at = None, reg_created_at = now\<rparr>) (\<lambda>c.
     sbind (save_registration_credential c) (\<lambda>_. sreturn token))"

definition require_protocol :: "string list \<Rightarrow> (local_store, unit) comp" where
  "require_protocol vs = sguard (RUNTIME_PROTOCOL_VERSION \<in> set vs)
     (ValueError (''Runtime protocol '' @ RUNTIME_PROTOCOL_VERSION @ '' is required''))"

definition register_runtime ::
  "(string \<Rightarrow> string) \<Rightarrow> time \<Rightarrow> string \<Rightarrow> string \<Rightarrow> computer_capabilities \<Rightarrow> string \<Rightarrow> string \<Rightarrow> string
     \<Rightarrow> (local_store, computer \<times> string) comp" where
  "register_runtime digest now registration_token name caps fresh_id runtime_token aid =
     sbind (require_protocol (cap_protocol_versions caps)) (\<lambda>_.
     sbind (consume_registration_credential (digest registration_token) now) (\<lambda>ok.
     sbind (sguard ok (RuntimeAuthenticationError ''Runtime registration expired or was already used'')) (\<lambda>_.
     sbind (smake ''Computer'' valid_computer
             (new_computer now fresh_id (computer_name name) False caps)) (\<lambda>c.
     sbind (smake ''RuntimeCredential'' valid_runtime_credential
       \<lparr>rc_id = fresh_id, rc_computer_id = fresh_id, rc_token_hash = digest runtime_token,
        rc_registration_epoch = comp_registration_epoch c, rc_created_at = now\<rparr>) (\<lambda>cred.
     sbind (save_runtime_credential cred) (\<lambda>_.
     sbind (record_security_event now aid ''runtime.register'' Done_Outcome Actor_Runtime (comp_id c)
             None (Some (comp_id c)) (''protocol='' @ RUNTIME_PROTOCOL_VERSION)) (\<lambda>_.
     sbind (save_computer now c) (\<lambda>saved. sreturn (saved, runtime_token)))))))))"

definition authenticate_runtime ::
  "(string \<Rightarrow> string) \<Rightarrow> string \<Rightarrow> string \<Rightarrow> (local_store, computer) comp" where
  "authenticate_runtime digest cid token =
     sbind (stry_key (get_runtime_credential cid)) (\<lambda>found.
       case found of
         None \<Rightarrow> sraise (RuntimeAuthenticationError ''Runtime authentication failed'')
       | Some cred \<Rightarrow>
           sbind (get_computer cid) (\<lambda>c.
           sbind (sguard (comp_revoked_at c = None)
                   (RuntimeAuthenticationError ''This computer has been revoked'')) (\<lambda>_.
           sbind (sguard (rc_registration_epoch cred = comp_registration_epoch c \<and>
                          rc_token_hash cred = digest token)
                   (RuntimeAuthenticationError ''Runtime authentication failed'')) (\<lambda>_.
           sreturn c))))"

definition issue_run_token :: "(string \<Rightarrow> string) \<Rightarrow> time \<Rightarrow> string \<Rightarrow> string \<Rightarrow> (local_store, string) comp" where
  "issue_run_token digest now rid token =
     sbind (get_run rid) (\<lambda>r.
     sbind (sguard (truthy (run_lease_id r) \<and>
                    run_status r \<in> {Preparing, Ready, Running, Awaiting_Approval})
             (RuntimeAuthenticationError ''Task Run is not actively leased'')) (\<lambda>_.
     sbind (smake ''TaskRunCredential'' valid_run_credential
       \<lparr>tc_id = run_id r, tc_run_id = run_id r, tc_computer_id = run_computer_id r,
        tc_epoch = run_epoch r, tc_token_hash = digest token, tc_created_at = now\<rparr>) (\<lambda>c.
     sbind (save_run_credential c) (\<lambda>_. sreturn token))))"

definition run_token_accepted ::
  "(string \<Rightarrow> string) \<Rightarrow> time \<Rightarrow> run_credential \<Rightarrow> task_run \<Rightarrow> string \<Rightarrow> string \<Rightarrow> bool" where
  "run_token_accepted digest now cred r cid token \<longleftrightarrow>
     \<not> (tc_computer_id cred \<noteq> cid \<or> tc_epoch cred \<noteq> run_epoch r \<or> run_computer_id r \<noteq> cid \<or>
        \<not> truthy (run_lease_id r) \<or>
        (case run_lease_expires_at r of None \<Rightarrow> True | Some t \<Rightarrow> t < now) \<or>
        run_status r \<in> set TERMINAL_RUN_STATUSES \<or> tc_token_hash cred \<noteq> digest token)"

definition authenticate_run_token ::
  "(string \<Rightarrow> string) \<Rightarrow> time \<Rightarrow> string \<Rightarrow> string \<Rightarrow> string \<Rightarrow> (local_store, task_run) comp" where
  "authenticate_run_token digest now rid cid token =
     sbind (stry_key (sbind (get_run_credential rid) (\<lambda>cred.
                      sbind (get_run rid) (\<lambda>r. sreturn (cred, r))))) (\<lambda>found.
       case found of
         None \<Rightarrow> sraise (RuntimeAuthenticationError ''Task Run authentication failed'')
       | Some (cred, r) \<Rightarrow>
           sbind (sguard (run_token_accepted digest now cred r cid token)
                   (RuntimeAuthenticationError ''Task Run authentication failed'')) (\<lambda>_.
           sreturn r))"

section \<open>Placement\<close>

fun resource_eligible :: "project_resource \<Rightarrow> computer \<Rightarrow> bool" where
  "resource_eligible (Local_Folder f) c \<longleftrightarrow>
     cap_supports_local_folders (comp_capabilities c) \<and> lf_computer_id f = comp_id c"
| "resource_eligible (Repository r) c \<longleftrightarrow>
     cap_has_git (comp_capabilities c) \<and>
     (truthy (rr_source_url r) \<or> rr_computer_id r = Some (comp_id c))"

definition lookup_resource :: "project_resource list \<Rightarrow> string \<Rightarrow> project_resource option" where
  "lookup_resource rs i = map_of (rev (map (\<lambda>r. (res_id r, r)) rs)) i"

definition scoped_resources :: "code_project option \<Rightarrow> resource_scope \<Rightarrow> project_resource list result" where
  "scoped_resources project scope =
     (case project of
        None \<Rightarrow> Inr []
      | Some p \<Rightarrow>
          if scope_all scope then Inr (cp_resources p)
          else
            let missing = filter (\<lambda>i. lookup_resource (cp_resources p) i = None) (scope_resource_ids scope)
            in if missing \<noteq> []
               then Inl (ValueError (''Unknown project resources: '' @ join_with '', '' missing))
               else Inr (map (\<lambda>i. the (lookup_resource (cp_resources p) i)) (scope_resource_ids scope)))"

definition execution_project_snapshot ::
  "code_project option \<Rightarrow> project_resource list \<Rightarrow> code_project option result" where
  "execution_project_snapshot project resources =
     (case project of
        None \<Rightarrow> Inr None
      | Some p \<Rightarrow> (case validate_project (p\<lparr>cp_resources := resources, cp_folders := []\<rparr>) of
                     Inl e \<Rightarrow> Inl e | Inr q \<Rightarrow> Inr (Some q)))"

definition computer_eligible :: "project_resource list \<Rightarrow> string \<Rightarrow> int \<Rightarrow> computer \<Rightarrow> bool" where
  "computer_eligible resources engine active c \<longleftrightarrow>
     comp_status c = Online \<and>
     max (comp_active_run_count c) active < cap_max_concurrent_runs (comp_capabilities c) \<and>
     (engine \<noteq> [] \<longrightarrow> engine \<in> set (cap_agent_engines (comp_capabilities c))) \<and>
     (\<forall>x \<in> set resources. resource_eligible x c)"

text \<open>\<open>eligible_computers\<close>; the engine argument \<open>None\<close> is the empty string.\<close>

definition eligible_computers ::
  "time \<Rightarrow> string \<Rightarrow> code_project option \<Rightarrow> resource_scope \<Rightarrow> string \<Rightarrow> (local_store, computer list) comp" where
  "eligible_computers now local project scope engine =
     sbind (slift (scoped_resources project scope)) (\<lambda>resources.
     sbind (list_computer_page now local) (\<lambda>cs.
     sbind (smapM (\<lambda>c. sbind (active_count (comp_id c)) (\<lambda>n. sreturn (c, n))) cs) (\<lambda>ps.
     sreturn (map fst (filter (\<lambda>(c, n). computer_eligible resources engine n c) ps)))))"

datatype availability = Available | Res_Offline | Res_Unavailable

record resource_availability =
  ra_resource_id :: string
  ra_status :: availability
  ra_eligible :: "string list"
  ra_required :: "string option"
  ra_detail :: string

definition resource_status :: "computer list \<Rightarrow> project_resource \<Rightarrow> resource_availability" where
  "resource_status cs x =
     (let eligible = map comp_id (filter (\<lambda>c. comp_status c = Online \<and> resource_eligible x c) cs);
          required = (case x of Local_Folder f \<Rightarrow> Some (lf_computer_id f) | Repository _ \<Rightarrow> None);
          (status, detail) =
            (if eligible \<noteq> [] then (Available, [])
             else if truthy required \<and> (\<exists>c \<in> set cs. Some (comp_id c) = required)
             then (Res_Offline, ''The computer with this folder is offline'')
             else (Res_Unavailable, ''No registered computer can access this resource''))
      in \<lparr>ra_resource_id = res_id x, ra_status = status, ra_eligible = eligible,
          ra_required = required, ra_detail = detail\<rparr>)"

definition resource_availability_page ::
  "time \<Rightarrow> string \<Rightarrow> code_project \<Rightarrow> (local_store, resource_availability list) comp" where
  "resource_availability_page now local p =
     sbind (list_computer_page now local) (\<lambda>cs. sreturn (map (resource_status cs) (cp_resources p)))"

record control_snapshot =
  snap_task :: code_task
  snap_run :: task_run
  snap_computer :: computer
  snap_workspaces :: "execution_workspace list"

text \<open>The choice of a computer among the eligible ones.\<close>

definition select_computer :: "string option \<Rightarrow> computer list \<Rightarrow> computer result" where
  "select_computer requested eligible =
     (if truthy requested
      then (case find (\<lambda>c. Some (comp_id c) = requested) eligible of
              Some c \<Rightarrow> Inr c
            | None \<Rightarrow> Inl (NoEligibleComputer ''That computer cannot access every resource selected for this task''))
      else (case eligible of
              [] \<Rightarrow> Inl (NoEligibleComputer ''No online computer can access every resource selected for this task'')
            | c # _ \<Rightarrow> Inr c))"

definition create_run ::
  "time \<Rightarrow> string \<Rightarrow> string \<Rightarrow> string \<Rightarrow> string \<Rightarrow> code_project option \<Rightarrow> string list option \<Rightarrow> string option
     \<Rightarrow> string \<Rightarrow> string option \<Rightarrow> repository_setup option \<Rightarrow> string \<Rightarrow> (nat \<Rightarrow> string)
     \<Rightarrow> (local_store, control_snapshot) comp" where
  "create_run now local tid title prompt project requested computer engine standalone setup rid wid =
     sbind (slift (make_scope (requested = None) (case requested of None \<Rightarrow> [] | Some ids \<Rightarrow> ids))) (\<lambda>scope.
     sbind (slift (scoped_resources project scope)) (\<lambda>resources.
     sbind (eligible_computers now local project scope engine) (\<lambda>all.
     let eligible = (if project = None \<and> truthy standalone
                     then filter (\<lambda>c. Some (comp_id c) = standalone) all else all) in
     sbind (slift (select_computer computer eligible)) (\<lambda>selected.
     sbind (slift (execution_project_snapshot project resources)) (\<lambda>snap.
     sbind (smake ''CodeTask'' valid_task
       \<lparr>task_id = tid, task_title = title, task_prompt = prompt, task_engine_id = engine,
        task_project_id = map_option cp_id project, task_scope = scope, task_execution_project = snap,
        task_repository_setup = setup, task_source_contexts = [], task_deliveries = [],
        task_created_at = now, task_updated_at = now\<rparr>) (\<lambda>t.
     sbind (smake ''TaskRun'' valid_run (new_run now rid (task_id t) (comp_id selected))) (\<lambda>r.
     sbind (smapM (\<lambda>(i, x). smake ''ExecutionWorkspace'' valid_workspace
              (new_workspace now (wid i) (run_id r) (res_id x) (comp_id selected)))
              (List.enumerate 0 resources)) (\<lambda>wss.
     sbind (create_task_run t r wss) (\<lambda>_.
     sreturn \<lparr>snap_task = t, snap_run = r, snap_computer = selected, snap_workspaces = wss\<rparr>)))))))))"

definition runtime_resource :: "string \<Rightarrow> project_resource \<Rightarrow> project_resource" where
  "runtime_resource cid x =
     (case x of
        Repository r \<Rightarrow>
          if truthy (rr_source_url r) \<and> rr_computer_id r \<noteq> Some cid
          then Repository (r\<lparr>rr_local_path := None, rr_computer_id := None\<rparr>) else x
      | Local_Folder _ \<Rightarrow> x)"

definition runtime_project :: "code_project \<Rightarrow> resource_scope \<Rightarrow> string \<Rightarrow> code_project result" where
  "runtime_project p scope cid =
     (case scoped_resources (Some p) scope of
        Inl e \<Rightarrow> Inl e
      | Inr rs \<Rightarrow> validate_project (p\<lparr>cp_resources := map (runtime_resource cid) rs\<rparr>))"

definition runtime_project_for_task :: "code_task \<Rightarrow> string \<Rightarrow> code_project option result" where
  "runtime_project_for_task t cid =
     (case task_execution_project t of
        None \<Rightarrow> Inr None
      | Some p \<Rightarrow> (case runtime_project p full_scope cid of Inl e \<Rightarrow> Inl e | Inr q \<Rightarrow> Inr (Some q)))"

definition refresh_resource :: "project_resource list \<Rightarrow> project_resource \<Rightarrow> project_resource" where
  "refresh_resource live x =
     (case lookup_resource live (res_id x) of
        None \<Rightarrow> x | Some y \<Rightarrow> res_with_commands (res_commands y) x)"

definition refresh_task_commands :: "time \<Rightarrow> string \<Rightarrow> code_project \<Rightarrow> (local_store, code_task) comp" where
  "refresh_task_commands now tid project =
     sbind (get_task tid) (\<lambda>t.
       case task_execution_project t of
         None \<Rightarrow> sraise (ValueError ''This task has no saved Code Project to update'')
       | Some p \<Rightarrow>
           sbind (sguard (task_project_id t = Some (cp_id project))
                   (ValueError ''That project does not belong to this task'')) (\<lambda>_.
           sbind (slift (validate_project
                   (p\<lparr>cp_resources := map (refresh_resource (cp_resources project)) (cp_resources p)\<rparr>))) (\<lambda>q.
           save_task now (t\<lparr>task_execution_project := Some q, task_updated_at := now\<rparr>))))"

section \<open>Run status and workspaces\<close>

definition set_run_status ::
  "time \<Rightarrow> string \<Rightarrow> run_status \<Rightarrow> string option \<Rightarrow> (local_store, task_run) comp" where
  "set_run_status now rid st err = update_run now rid (\<lambda>r. transition_run now r st err)"

definition restorable :: "execution_workspace list \<Rightarrow> bool" where
  "restorable wss \<longleftrightarrow> wss \<noteq> [] \<and> (\<forall>w \<in> set wss. ws_status w = WS_Ready \<and> ws_path w \<noteq> [])"

definition continue_task ::
  "time \<Rightarrow> string \<Rightarrow> string \<Rightarrow> string \<Rightarrow> string \<Rightarrow> (nat \<Rightarrow> string) \<Rightarrow> (local_store, task_run) comp" where
  "continue_task now local tid previous_id rid wid =
     sbind (get_run previous_id) (\<lambda>previous.
     sbind (sguard (run_task_id previous = tid) (ValueError ''Task Run belongs to another task'')) (\<lambda>_.
     sbind (get_computer (run_computer_id previous)) (\<lambda>c.
     sbind (sguard (comp_status c = Online) (NoEligibleComputer ''The task's computer is offline'')) (\<lambda>_.
     sbind (list_workspaces (Some (run_id previous))) (\<lambda>wss.
     sbind (smake ''TaskRun'' valid_run
       ((new_run now rid tid (comp_id c))\<lparr>
          run_status := (if comp_id c = local then Ready else Queued),
          run_epoch := run_epoch previous + 1,
          run_resume_mode := (if restorable wss then Restore else Prepare),
          run_recovery_count := run_recovery_count previous\<rparr>)) (\<lambda>r0.
     sbind (save_run now r0) (\<lambda>r.
     sbind (smapM (\<lambda>(i, w). sbind
         (if restorable wss then sreturn (w\<lparr>ws_id := wid i, ws_run_id := run_id r\<rparr>)
          else smake ''ExecutionWorkspace'' valid_workspace
                 (new_workspace now (wid i) (run_id r) (ws_resource_id w) (comp_id c)))
         (save_workspace now)) (List.enumerate 0 wss)) (\<lambda>_.
     sreturn r))))))))"

definition attach_prepared_workspaces ::
  "time \<Rightarrow> string \<Rightarrow> task_workspace list \<Rightarrow> (nat \<Rightarrow> string) \<Rightarrow> (local_store, execution_workspace list) comp" where
  "attach_prepared_workspaces now rid prepared wid =
     sbind (get_run rid) (\<lambda>r.
     sbind (list_workspaces (Some rid)) (\<lambda>existing.
     smapM (\<lambda>(i, tw).
       sbind (case map_of (rev (map (\<lambda>w. (ws_resource_id w, w)) existing)) (tw_folder_id tw) of
                Some w \<Rightarrow> sreturn w
              | None \<Rightarrow> smake ''ExecutionWorkspace'' valid_workspace
                  (new_workspace now (wid i) (run_id r) (tw_folder_id tw) (run_computer_id r))) (\<lambda>w.
       save_workspace now
         (w\<lparr>ws_status := WS_Ready, ws_computer_id := run_computer_id r,
            ws_path := tw_workspace_path tw, ws_kind := Some (tw_kind tw),
            ws_base_revision := tw_base_revision tw, ws_task_branch := tw_task_branch tw,
            ws_detail := []\<rparr>))) (List.enumerate 0 prepared)))"

definition release_workspaces :: "time \<Rightarrow> string \<Rightarrow> (local_store, execution_workspace list) comp" where
  "release_workspaces now rid =
     sbind (list_workspaces (Some rid)) (\<lambda>wss.
     smapM (\<lambda>w. save_workspace now
       (w\<lparr>ws_status := WS_Released, ws_path := [], ws_detail := ''Workspace released''\<rparr>)) wss)"


section \<open>Sessions\<close>

text \<open>\<open>Path(p).name\<close> on a POSIX path: the last component, ignoring empty and \<open>.\<close> components.\<close>

fun path_parts :: "string \<Rightarrow> string \<Rightarrow> string list" where
  "path_parts acc [] = [rev acc]"
| "path_parts acc (c # cs) =
     (if c = CHR ''/'' then rev acc # path_parts [] cs else path_parts (c # acc) cs)"

definition path_name :: "string \<Rightarrow> string" where
  "path_name p =
     (let parts = filter (\<lambda>x. x \<noteq> [] \<and> x \<noteq> ''.'') (path_parts [] p)
      in if parts = [] then [] else last parts)"

definition fallback_workspace :: "coding_session \<Rightarrow> task_workspace" where
  "fallback_workspace ses =
     \<lparr>tw_folder_id = ''folder'',
      tw_folder_name =
        (let n = path_name (ses_source_path ses) in if n = [] then ''Folder'' else n),
      tw_source_path = ses_source_path ses, tw_workspace_path = ses_workspace_path ses,
      tw_kind = ses_workspace_kind ses, tw_repository_root = ses_repository_root ses,
      tw_base_revision = ses_base_revision ses, tw_base_branch = None, tw_task_branch = None,
      tw_source_dirty = ses_source_dirty ses\<rparr>"

definition execution_workspace_of ::
  "time \<Rightarrow> string \<Rightarrow> task_run \<Rightarrow> task_workspace \<Rightarrow> execution_workspace" where
  "execution_workspace_of now wid r tw =
     (new_workspace now wid (run_id r) (tw_folder_id tw) (run_computer_id r))\<lparr>
        ws_status := WS_Ready, ws_path := tw_workspace_path tw, ws_kind := Some (tw_kind tw),
        ws_base_revision := tw_base_revision tw, ws_task_branch := tw_task_branch tw\<rparr>"

definition migrated_resource_ids :: "coding_session \<Rightarrow> code_project option \<Rightarrow> string list" where
  "migrated_resource_ids ses project =
     (let ids = (if ses_resource_ids ses \<noteq> [] then ses_resource_ids ses
                 else map tw_folder_id (ses_workspaces ses))
      in case project of Some p \<Rightarrow> if ids = [] then map res_id (cp_resources p) else ids | None \<Rightarrow> ids)"

definition migrated_task ::
  "time \<Rightarrow> coding_session \<Rightarrow> code_project option \<Rightarrow> resource_scope \<Rightarrow> string \<Rightarrow> (local_store, code_task) comp" where
  "migrated_task now ses project scope tid =
     sbind (slift (scoped_resources project scope)) (\<lambda>resources.
     sbind (slift (execution_project_snapshot project resources)) (\<lambda>snap.
     sbind (smake ''CodeTask'' valid_task
       \<lparr>task_id = tid, task_title = ses_title ses, task_prompt = [], task_engine_id = ses_engine_id ses,
        task_project_id = ses_project_id ses, task_scope = scope, task_execution_project = snap,
        task_repository_setup = None, task_source_contexts = ses_source_contexts ses,
        task_deliveries = ses_deliveries ses, task_created_at = now, task_updated_at = now\<rparr>)
       (save_task now)))"

definition migrate_session ::
  "time \<Rightarrow> string \<Rightarrow> coding_session \<Rightarrow> code_project option \<Rightarrow> (nat \<Rightarrow> string)
     \<Rightarrow> (local_store, control_snapshot) comp" where
  "migrate_session now local ses project wid =
     (let tid = or_else (ses_task_id ses) (ses_id ses);
          rid = or_else (ses_run_id ses) (''run-'' @ ses_id ses);
          cid = or_else (ses_computer_id ses) local in
      sbind (slift (make_scope (ses_scope_all ses)
              (if ses_scope_all ses then [] else migrated_resource_ids ses project))) (\<lambda>scope.
      sbind (stry_key (get_task tid)) (\<lambda>found_task.
      sbind (case found_task of Some t \<Rightarrow> sreturn t
             | None \<Rightarrow> migrated_task now ses project scope tid) (\<lambda>t.
      sbind (stry_key (get_run rid)) (\<lambda>found_run.
      sbind (case found_run of Some r \<Rightarrow> sreturn r
             | None \<Rightarrow> sbind (smake ''TaskRun'' valid_run
                 ((new_run now rid (task_id t) cid)\<lparr>
                    run_status := SESSION_STATUS (ses_status ses),
                    run_epoch := ses_runtime_epoch ses\<rparr>)) (save_run now)) (\<lambda>r.
      sbind (list_workspaces (Some (run_id r))) (\<lambda>existing.
      sbind (if existing \<noteq> [] then sreturn existing
             else smapM (\<lambda>(i, tw). sbind (smake ''ExecutionWorkspace'' valid_workspace
                    (execution_workspace_of now (wid i) r tw)) (save_workspace now))
               (List.enumerate 0 (if ses_workspaces ses \<noteq> [] then ses_workspaces ses
                                  else [fallback_workspace ses]))) (\<lambda>wss.
      sbind (get_computer cid) (\<lambda>c.
      sreturn \<lparr>snap_task = t, snap_run = r, snap_computer = c, snap_workspaces = wss\<rparr>)))))))))"

definition sync_session :: "time \<Rightarrow> string \<Rightarrow> coding_session \<Rightarrow> (local_store, task_run) comp" where
  "sync_session now local ses =
     (if \<not> truthy (ses_run_id ses)
      then sraise (StateConflict ''Coding session has not been linked to a Task Run'')
      else update_run now (the (ses_run_id ses)) (reconcile now local ses))"

section \<open>Leases and events\<close>

definition expire_leases :: "time \<Rightarrow> (local_store, unit) comp" where
  "expire_leases now =
     sbind list_runs (\<lambda>rs.
     sbind (smapM (\<lambda>r. sbind (list_workspaces (Some (run_id r))) (\<lambda>wss.
         update_run now (run_id r) (expire_lease now (if restorable wss then Restore else Prepare))))
       (filter (lease_expired now) rs)) (\<lambda>_. sreturn ()))"

definition acquire_lease ::
  "time \<Rightarrow> string \<Rightarrow> string \<Rightarrow> (local_store, (task_run \<times> string) option) comp" where
  "acquire_lease now cid lease =
     sbind (get_computer cid) (\<lambda>c.
     sbind (sguard (comp_revoked_at c = None)
             (RuntimeAuthenticationError ''This computer has been revoked'')) (\<lambda>_.
     sbind (expire_leases now) (\<lambda>_.
     sbind (claim_run now cid lease (now + LEASE_DURATION)) (\<lambda>found.
     sreturn (map_option (\<lambda>r. (r, lease)) found)))))"

text \<open>
  \<open>accept_event\<close>. The callback \<open>apply\<close> receives the run after the event, may write other records, and
  may change the run it was given; no callback is \<open>sreturn\<close>.
\<close>

definition accept_event ::
  "(json \<Rightarrow> string) \<Rightarrow> time \<Rightarrow> runtime_event \<Rightarrow> (task_run \<Rightarrow> (local_store, task_run) comp)
     \<Rightarrow> (local_store, task_run) comp" where
  "accept_event pystr now ev apply =
     (if ev_protocol_version ev \<noteq> RUNTIME_PROTOCOL_VERSION
      then sraise (StaleRuntimeEvent ''Runtime protocol version is not supported'')
      else
        sbind (update_run_with now (ev_run_id ev) (\<lambda>r.
          sbind (slift (accept_begin pystr now ev r)) (\<lambda>(again, r1).
            if again then sreturn (r1, ())
            else sbind (apply r1) (\<lambda>r2. sreturn (accept_finish ev r2, ()))))) (\<lambda>(saved, _).
        sreturn saved))"

section \<open>Commands\<close>

definition COMMAND_CLAIM_DURATION :: time where
  "COMMAND_CLAIM_DURATION = seconds 20"

definition queue_command ::
  "time \<Rightarrow> string \<Rightarrow> string \<Rightarrow> payload \<Rightarrow> string \<Rightarrow> string \<Rightarrow> (local_store, runtime_command) comp" where
  "queue_command now rid kind pl key fresh_id =
     sbind (get_run rid) (\<lambda>r.
     sbind (if key = [] then sreturn None
            else sbind (list_commands (Some rid)) (\<lambda>cs.
              sreturn (find (\<lambda>c. cmd_epoch c = run_epoch r \<and> cmd_idempotency_key c = key) cs))) (\<lambda>existing.
       case existing of
         Some c \<Rightarrow> sreturn c
       | None \<Rightarrow> sbind (smake ''RuntimeCommand'' valid_command
           (new_command now fresh_id (run_id r) (run_epoch r) kind pl key)) save_command))"

definition claimable :: "time \<Rightarrow> task_run \<Rightarrow> runtime_command \<Rightarrow> bool" where
  "claimable now r c \<longleftrightarrow> \<not> (cmd_acked_at c \<noteq> None \<or> cmd_epoch c \<noteq> run_epoch r) \<and>
     \<not> (case cmd_claim_expires_at c of None \<Rightarrow> False | Some t \<Rightarrow> now < t)"

definition claim_command :: "time \<Rightarrow> runtime_command \<Rightarrow> runtime_command" where
  "claim_command now c = c\<lparr>cmd_claimed_at := Some now,
     cmd_claim_expires_at := Some (now + COMMAND_CLAIM_DURATION),
     cmd_delivery_count := cmd_delivery_count c + 1\<rparr>"

definition claim_commands ::
  "time \<Rightarrow> string \<Rightarrow> string \<Rightarrow> string \<Rightarrow> int \<Rightarrow> (local_store, runtime_command list) comp" where
  "claim_commands now rid cid lease ep =
     sbind (update_run_with now rid (\<lambda>r.
       sbind (slift (require_fence now r cid lease ep)) (\<lambda>_.
       sbind (list_commands (Some rid)) (\<lambda>cs.
       sbind (smapM (\<lambda>c. save_command (claim_command now c)) (filter (claimable now r) cs)) (\<lambda>claimed.
       sreturn (r, claimed)))))) (\<lambda>(_, claimed). sreturn claimed)"

text \<open>\<open>get_command\<close> with the message the service gives a missing command.\<close>

definition command_of_run :: "string \<Rightarrow> string \<Rightarrow> (local_store, runtime_command) comp" where
  "command_of_run rid i =
     sbind (stry_key (get_command i)) (\<lambda>found.
       case found of
         None \<Rightarrow> sraise (KeyError ''Runtime command not found'')
       | Some c \<Rightarrow> sbind (sguard (cmd_run_id c = rid) (KeyError ''Runtime command not found'')) (\<lambda>_. sreturn c))"

definition acknowledge_command ::
  "time \<Rightarrow> string \<Rightarrow> string \<Rightarrow> string \<Rightarrow> string \<Rightarrow> int \<Rightarrow> payload option \<Rightarrow> string option
     \<Rightarrow> (local_store, runtime_command \<times> bool) comp" where
  "acknowledge_command now rid i cid lease ep res err =
     sbind (get_run rid) (\<lambda>r.
     sbind (slift (require_fence now r cid lease ep)) (\<lambda>_.
     sbind (command_of_run rid i) (\<lambda>c.
     sbind (sguard (cmd_epoch c = run_epoch r)
             (StaleRuntimeEvent ''Runtime command belongs to a stale epoch'')) (\<lambda>_.
       if cmd_acked_at c = None
       then sbind (save_command (c\<lparr>cmd_acked_at := Some now, cmd_claim_expires_at := None,
                                   cmd_result := res, cmd_error := err\<rparr>)) (\<lambda>c'. sreturn (c', True))
       else sreturn (c, False)))))"

text \<open>
  \<open>wait_for_command\<close> polls; between two polls other threads work on the store. Each observation is the
  store a poll sees and the monotonic clock it then reads. \<open>None\<close> means still waiting when the
  observations end.
\<close>

definition poll_command :: "string \<Rightarrow> string \<Rightarrow> (local_store, runtime_command) comp" where
  "poll_command rid i =
     sbind (get_run rid) (\<lambda>r.
     sbind (command_of_run rid i) (\<lambda>c.
     sbind (sguard (cmd_epoch c = run_epoch r)
             (StaleRuntimeEvent ''Runtime command belongs to a superseded execution'')) (\<lambda>_. sreturn c)))"

fun wait_for_command ::
  "string \<Rightarrow> string \<Rightarrow> time \<Rightarrow> (local_store \<times> time) list \<Rightarrow> runtime_command result option" where
  "wait_for_command rid i deadline [] = None"
| "wait_for_command rid i deadline ((s, clock) # obs) =
     (case fst (poll_command rid i s) of
        Inl e \<Rightarrow> Some (Inl e)
      | Inr c \<Rightarrow>
          if cmd_acked_at c \<noteq> None then Some (Inr c)
          else if deadline \<le> clock
          then Some (Inl (RuntimeError ''The selected computer did not answer in time''))
          else wait_for_command rid i deadline obs)"

section \<open>Deletion and recovery\<close>

definition delete_task_of_run :: "string \<Rightarrow> (local_store, unit) comp" where
  "delete_task_of_run rid = sbind (get_run rid) (\<lambda>r. delete_task (run_task_id r))"

record recovery_option =
  opt_computer :: computer
  opt_mode :: resume_mode
  opt_preserves :: bool
  opt_recommended :: bool

text \<open>\<open>_option\<close>; the display text \<open>detail\<close> is left out.\<close>

definition recovery_option_of :: "bool \<Rightarrow> computer \<Rightarrow> recovery_option" where
  "recovery_option_of preserves c =
     \<lparr>opt_computer = c, opt_mode = (if preserves then Restore else Recreate),
      opt_preserves = preserves, opt_recommended = preserves\<rparr>"

definition recommend :: "recovery_option list \<Rightarrow> recovery_option list" where
  "recommend opts =
     (case opts of [] \<Rightarrow> []
      | p # ps \<Rightarrow> if \<exists>x \<in> set opts. opt_recommended x then opts else p\<lparr>opt_recommended := True\<rparr> # ps)"

definition build_recovery_plan ::
  "task_run \<Rightarrow> computer list \<Rightarrow> (local_store, string \<times> recovery_option list) comp" where
  "build_recovery_plan r eligible =
     sbind (get_task (run_task_id r)) (\<lambda>t.
       case task_execution_project t of
         None \<Rightarrow>
           sbind (stry_key (get_computer (run_computer_id r))) (\<lambda>found.
           sreturn (run_id r, case found of None \<Rightarrow> []
             | Some c \<Rightarrow> if comp_status c = Online then [recovery_option_of True c] else []))
       | Some _ \<Rightarrow>
           sreturn (run_id r, recommend
             (map (\<lambda>c. recovery_option_of (comp_id c = run_computer_id r) c) eligible)))"

definition recovery_plan ::
  "time \<Rightarrow> string \<Rightarrow> string \<Rightarrow> (local_store, string \<times> recovery_option list) comp" where
  "recovery_plan now local rid =
     sbind (get_run rid) (\<lambda>r.
     sbind (get_task (run_task_id r)) (\<lambda>t.
     sbind (case task_execution_project t of None \<Rightarrow> sreturn []
            | Some p \<Rightarrow> eligible_computers now local (Some p) full_scope (task_engine_id t)) (\<lambda>eligible.
     build_recovery_plan r
       (if task_repository_setup t \<noteq> None
        then filter (\<lambda>c. comp_id c = run_computer_id r) eligible else eligible))))"

definition recreate_workspace :: "string \<Rightarrow> execution_workspace \<Rightarrow> execution_workspace" where
  "recreate_workspace cid w = w\<lparr>ws_computer_id := cid, ws_status := WS_Pending, ws_path := [],
     ws_kind := None, ws_base_revision := None, ws_task_branch := None,
     ws_detail := ''Recreating an isolated working copy from the task snapshot''\<rparr>"

text \<open>\<open>recover_run\<close> of \<^verbatim>\<open>run_recovery.py\<close>: the task is read only when the run moves.\<close>

definition apply_recovery :: "time \<Rightarrow> string \<Rightarrow> computer \<Rightarrow> bool \<Rightarrow> (local_store, task_run) comp" where
  "apply_recovery now rid target allow_recreate =
     sbind (sguard (comp_status target = Online)
             (NoEligibleComputer ''Choose an online computer to resume this task'')) (\<lambda>_.
     sbind (update_run_with now rid (\<lambda>r.
       sbind (if comp_id target \<noteq> run_computer_id r
              then sbind (get_task (run_task_id r)) (\<lambda>t. sreturn (task_execution_project t))
              else sreturn None) (\<lambda>project.
       sbind (slift (recovery_fence now target allow_recreate project r)) (\<lambda>r'.
       sreturn (r', ()))))) (\<lambda>(saved, _).
     if run_resume_mode saved = Recreate
     then sbind (list_workspaces (Some (run_id saved))) (\<lambda>wss.
          sbind (smapM (\<lambda>w. save_workspace now (recreate_workspace (comp_id target) w)) wss) (\<lambda>_.
          sreturn saved))
     else sreturn saved))"

definition recover_run ::
  "time \<Rightarrow> string \<Rightarrow> string option \<Rightarrow> bool \<Rightarrow> (local_store, task_run) comp" where
  "recover_run now rid cid allow_recreate =
     sbind (get_run rid) (\<lambda>r.
     sbind (get_computer (or_else cid (run_computer_id r))) (\<lambda>c.
     sbind (get_task (run_task_id r)) (\<lambda>t.
     sbind (sguard (task_repository_setup t = None \<or> comp_id c = run_computer_id r)
             (StateConflict
               ''This task uses repository choices from its original computer. Resume it there'')) (\<lambda>_.
     apply_recovery now (run_id r) c allow_recreate))))"

definition reassign :: "string \<Rightarrow> task_run \<Rightarrow> task_run result" where
  "reassign cid r =
     (if run_status r \<noteq> Queued
      then Inl (StateConflict ''Only queued Task Runs can be reassigned; recover a leased run instead'')
      else Inr (r\<lparr>run_computer_id := cid\<rparr>))"

definition reassign_queued_run ::
  "time \<Rightarrow> string \<Rightarrow> string \<Rightarrow> string \<Rightarrow> string \<Rightarrow> (local_store, task_run) comp" where
  "reassign_queued_run now local rid cid aid =
     sbind (get_run rid) (\<lambda>r.
     sbind (sguard (run_status r = Queued)
             (StateConflict ''Only queued Task Runs can be reassigned; recover a leased run instead'')) (\<lambda>_.
     sbind (get_task (run_task_id r)) (\<lambda>t.
     sbind (sguard (\<not> (task_repository_setup t \<noteq> None \<and> cid \<noteq> run_computer_id r))
             (StateConflict
               ''This task uses repository choices from its original computer. Run it there'')) (\<lambda>_.
       case task_execution_project t of
         None \<Rightarrow> sraise (NoEligibleComputer
           ''This task includes resources that only exist on its original computer'')
       | Some p \<Rightarrow>
           sbind (eligible_computers now local (Some p) full_scope (task_engine_id t)) (\<lambda>eligible.
           sbind (sguard (\<exists>c \<in> set eligible. comp_id c = cid)
                   (NoEligibleComputer
                     ''That computer cannot access every resource selected for this task'')) (\<lambda>_.
           sbind (update_run now (run_id r) (reassign cid)) (\<lambda>saved.
           sbind (list_workspaces (Some (run_id r))) (\<lambda>wss.
           sbind (smapM (\<lambda>w. save_workspace now (w\<lparr>ws_computer_id := cid\<rparr>)) wss) (\<lambda>_.
           sbind (record_security_event now aid ''run.reassign'' Done_Outcome Actor_User (run_id r)
                   (Some (run_id r)) (Some cid) (''from='' @ run_computer_id r)) (\<lambda>_.
           sreturn saved))))))))))"

section \<open>Starting the service\<close>

definition start_service ::
  "time \<Rightarrow> string \<Rightarrow> string \<Rightarrow> computer_capabilities \<Rightarrow> (local_store, computer) comp" where
  "start_service now fresh node caps =
     sbind (prune (now - days 30) (now - days 90)) (\<lambda>_. register_local now fresh node caps)"

end
