(* ===== verification/Connector_Delegation.thy ===== *)
theory Connector_Delegation
  imports Control_Service
begin

text \<open>
  \<open>ConnectorDelegationService\<close> of \<^verbatim>\<open>src/cowork/coding/connector_delegation.py\<close>: bounded connector
  capabilities of a Task Run, their use, and their revocation, each with its audit record.
\<close>

definition issue ::
  "(string \<Rightarrow> string) \<Rightarrow> time \<Rightarrow> string \<Rightarrow> string \<Rightarrow> string \<Rightarrow> string list \<Rightarrow> (string \<times> string) list \<Rightarrow> time
     \<Rightarrow> string \<Rightarrow> string \<Rightarrow> string \<Rightarrow> (local_store, connector_grant \<times> string) comp" where
  "issue digest now rid provider conn actions constraints ttl gid token aid =
     sbind (get_run rid) (\<lambda>r.
     sbind (sguard (run_status r \<notin> {Completed, Cancelled, Failed})
             (StateConflict ''Connector access is unavailable after a Task Run ends'')) (\<lambda>_.
     sbind (sguard (bounded 1 32 actions) (ValidationError ''ConnectorGrant'')) (\<lambda>_.
     sbind (smake ''ConnectorGrant'' valid_grant
       \<lparr>grant_id = gid, grant_run_id = run_id r, grant_computer_id = run_computer_id r,
        grant_epoch = run_epoch r, grant_provider = provider, grant_connection_name = conn,
        grant_actions = fromkeys actions, grant_constraints = constraints,
        grant_token_hash = digest token, grant_expires_at = now + ttl, grant_max_uses = 100,
        grant_use_count = 0, grant_last_used_at = None, grant_revoked_at = None,
        grant_created_at = now\<rparr>) (\<lambda>g.
     sbind (save_grant g) (\<lambda>saved.
     sbind (record_security_event now aid ''connector.grant'' Allowed Actor_System (grant_id g)
             (Some (run_id r)) (Some (run_computer_id r)) (provider @ '':'' @ join_with '','' actions)) (\<lambda>_.
     sreturn (saved, token)))))))"

text \<open>The list bound on \<open>actions\<close> is checked before the validator drops duplicates.\<close>

text \<open>The constraint names an action must match, and the check of \<open>_validate_constraints\<close>.\<close>

definition action_constraint_names :: "connector_grant \<Rightarrow> string \<Rightarrow> string list" where
  "action_constraint_names g action =
     (if action = ''read_source'' then [''url'']
      else if action = ''pull_request_status'' then [''target_url'']
      else if action = ''search_work'' then [''repository'']
      else map fst (grant_constraints g))"

definition required_names :: "connector_grant \<Rightarrow> string \<Rightarrow> string list" where
  "required_names g action =
     (let named = filter (\<lambda>n. n \<in> fst ` set (grant_constraints g)) (action_constraint_names g action)
      in if named = [] then map fst (grant_constraints g) else named)"

definition constraint_met :: "connector_grant \<Rightarrow> (string \<times> string) list \<Rightarrow> string \<Rightarrow> bool" where
  "constraint_met g requested n =
     (case map_of (grant_constraints g) n of
        None \<Rightarrow> True
      | Some allowed \<Rightarrow> map_of requested n = Some allowed)"

definition validate_constraints :: "connector_grant \<Rightarrow> string \<Rightarrow> (string \<times> string) list \<Rightarrow> unit result" where
  "validate_constraints g action requested =
     (if list_all (constraint_met g requested) (required_names g action) then Inr ()
      else Inl (RuntimeAuthenticationError ''Connector capability is outside its resource scope''))"

definition validate_grant_use ::
  "(string \<Rightarrow> string) \<Rightarrow> time \<Rightarrow> connector_grant \<Rightarrow> task_run \<Rightarrow> string \<Rightarrow> string \<Rightarrow> (string \<times> string) list
     \<Rightarrow> string option \<Rightarrow> unit result" where
  "validate_grant_use digest now g r token action constraints cid =
     (if grant_revoked_at g \<noteq> None \<or> grant_expires_at g \<le> now
      then Inl (RuntimeAuthenticationError ''Connector capability expired'')
      else if grant_epoch g \<noteq> run_epoch r \<or> run_status r \<in> set TERMINAL_RUN_STATUSES
      then Inl (RuntimeAuthenticationError ''Connector capability belongs to a stale Task Run'')
      else if grant_computer_id g \<noteq> run_computer_id r \<or> (cid \<noteq> None \<and> Some (grant_computer_id g) \<noteq> cid)
      then Inl (RuntimeAuthenticationError ''Connector capability belongs to another computer'')
      else if grant_token_hash g \<noteq> digest token
      then Inl (RuntimeAuthenticationError ''Connector capability authentication failed'')
      else if action \<notin> set (grant_actions g)
      then Inl (RuntimeAuthenticationError ''Connector capability does not allow this action'')
      else case validate_constraints g action constraints of
             Inl e \<Rightarrow> Inl e
           | Inr _ \<Rightarrow>
               if grant_max_uses g \<le> grant_use_count g
               then Inl (RuntimeAuthenticationError ''Connector capability use limit reached'')
               else Inr ())"

definition authorize_grant ::
  "(string \<Rightarrow> string) \<Rightarrow> time \<Rightarrow> string \<Rightarrow> string \<Rightarrow> (string \<times> string) list \<Rightarrow> string option
     \<Rightarrow> connector_grant \<Rightarrow> task_run \<Rightarrow> connector_grant result" where
  "authorize_grant digest now token action constraints cid g r =
     (case validate_grant_use digest now g r token action constraints cid of
        Inl e \<Rightarrow> Inl e
      | Inr _ \<Rightarrow> Inr (g\<lparr>grant_use_count := grant_use_count g + 1, grant_last_used_at := Some now\<rparr>))"

text \<open>
  \<open>authorize\<close>. Only \<open>RuntimeAuthenticationError\<close> is caught, audited as a denial and raised again; it
  cannot be raised before the snapshot of the grant is read, since a missing grant is a \<open>KeyError\<close>.
\<close>

definition authorize ::
  "(string \<Rightarrow> string) \<Rightarrow> time \<Rightarrow> string \<Rightarrow> string \<Rightarrow> string \<Rightarrow> (string \<times> string) list \<Rightarrow> string option
     \<Rightarrow> string \<Rightarrow> (local_store, connector_grant) comp" where
  "authorize digest now gid token action constraints cid aid =
     sbind (get_grant gid) (\<lambda>snapshot.
     scatch
       (sbind (update_grant gid (authorize_grant digest now token action constraints cid)) (\<lambda>(g, r).
        sbind (record_security_event now aid ''connector.invoke'' Allowed Actor_Agent (grant_id g)
                (Some (run_id r)) (Some (or_else cid (run_computer_id r)))
                (grant_provider g @ '':'' @ action)) (\<lambda>_.
        sreturn g)))
       (\<lambda>e. case e of
          RuntimeAuthenticationError msg \<Rightarrow>
            sbind (record_security_event now aid ''connector.invoke'' Denied Actor_Agent gid
                    (Some (grant_run_id snapshot)) cid msg) (\<lambda>_. sraise e)
        | _ \<Rightarrow> sraise e))"

definition revoke_for_run :: "time \<Rightarrow> string \<Rightarrow> (nat \<Rightarrow> string) \<Rightarrow> (local_store, unit) comp" where
  "revoke_for_run now rid aid =
     sbind (list_grants (Some rid)) (\<lambda>gs.
     sbind (smapM (\<lambda>(i, g).
       sbind (save_grant (g\<lparr>grant_revoked_at := Some now\<rparr>)) (\<lambda>_.
       record_security_event now (aid i) ''connector.revoke'' Done_Outcome Actor_System (grant_id g)
         (Some rid) (Some (grant_computer_id g)) []))
       (List.enumerate 0 (filter (\<lambda>g. grant_revoked_at g = None) gs))) (\<lambda>_.
     sreturn ()))"

end
