(* ===== verification/Remote_Execution.thy ===== *)
theory Remote_Execution
  imports Connector_Delegation
begin

text \<open>
  The control-plane side of \<open>RemoteExecutionCoordinator\<close> in
  \<^verbatim>\<open>src/cowork/coding/remote_execution.py\<close>: the effects that land together with a runtime event.
  The session read model is a different store. Its write is the argument \<open>project\<close>, which only says
  whether building and appending the timeline entry succeeded; \<open>parse\<close> is pydantic's
  \<open>TaskWorkspace.model_validate\<close> on a JSON value.
\<close>

definition turn_outcome :: "(json \<Rightarrow> string) \<Rightarrow> runtime_event \<Rightarrow> string result" where
  "turn_outcome pystr ev =
     (let v = pget (ev_payload ev) ''status'';
          outcome = (if json_truthy v then py_str pystr v else ''completed'')
      in if outcome \<in> {''completed'', ''cancelled''} then Inr outcome
         else Inl (ValueError ''Runtime turn completion status is invalid''))"

fun parse_all :: "(json \<Rightarrow> 'a result) \<Rightarrow> json list \<Rightarrow> 'a list result" where
  "parse_all parse [] = Inr []"
| "parse_all parse (v # vs) =
     (case parse v of Inl e \<Rightarrow> Inl e
      | Inr x \<Rightarrow> (case parse_all parse vs of Inl e \<Rightarrow> Inl e | Inr xs \<Rightarrow> Inr (x # xs)))"

definition accept_workspace ::
  "(json \<Rightarrow> task_workspace result) \<Rightarrow> unit result \<Rightarrow> time \<Rightarrow> (nat \<Rightarrow> string) \<Rightarrow> runtime_event \<Rightarrow> task_run
     \<Rightarrow> (local_store, unit) comp" where
  "accept_workspace parse project now wid ev r =
     (case pget (ev_payload ev) ''items'' of
        JList (v # vs) \<Rightarrow>
          sbind (slift (parse_all parse (v # vs))) (\<lambda>tws.
          sbind (list_workspaces (Some (run_id r))) (\<lambda>wss.
          sbind (sguard (set (map tw_folder_id tws) = set (map ws_resource_id wss))
                  (ValueError ''Runtime workspace publication does not match the task resource scope'')) (\<lambda>_.
          sbind (attach_prepared_workspaces now (run_id r) tws wid) (\<lambda>_. slift project))))
      | _ \<Rightarrow> sraise (ValueError ''Runtime workspace publication is empty''))"

definition accept_update ::
  "unit result \<Rightarrow> time \<Rightarrow> (nat \<Rightarrow> string) \<Rightarrow> task_run \<Rightarrow> (local_store, unit) comp" where
  "accept_update project now aid r =
     sbind (slift project) (\<lambda>_.
       if run_status r \<in> {Completed, Cancelled, Failed}
       then sbind (release_workspaces now (run_id r)) (\<lambda>_. revoke_for_run now (run_id r) aid)
       else sreturn ())"

definition accept_turn_completed ::
  "(json \<Rightarrow> string) \<Rightarrow> unit result \<Rightarrow> runtime_event \<Rightarrow> (local_store, unit) comp" where
  "accept_turn_completed pystr project ev =
     sbind (slift (turn_outcome pystr ev)) (\<lambda>_. slift project)"

text \<open>\<open>_applier\<close>: none of the effects changes the run it is given.\<close>

definition applier ::
  "(json \<Rightarrow> string) \<Rightarrow> (json \<Rightarrow> task_workspace result) \<Rightarrow> unit result \<Rightarrow> time \<Rightarrow> (nat \<Rightarrow> string)
     \<Rightarrow> runtime_event \<Rightarrow> task_run \<Rightarrow> (local_store, task_run) comp" where
  "applier pystr parse project now ids ev r =
     sbind (case ev_kind ev of
              Ev_Checkpoint \<Rightarrow> sreturn ()
            | Ev_Workspace \<Rightarrow> accept_workspace parse project now ids ev r
            | Ev_Turn_Completed \<Rightarrow> accept_turn_completed pystr project ev
            | _ \<Rightarrow> accept_update project now ids r) (\<lambda>_. sreturn r)"

end
