(* ===== verification/State_Order.thy ===== *)
theory State_Order
  imports Remote_Execution
begin

text \<open>
  How the store may change over time. A relation between an earlier and a later store that is
  reflexive and transitive is kept by a computation when it is kept by each of its parts; the locale
  \<open>state_order\<close> has that calculus once, and the later theories interpret it for the order in which
  runs, grants, commands and audit events may move.
\<close>

definition within :: "('s \<Rightarrow> 's \<Rightarrow> bool) \<Rightarrow> ('s, 'a) comp \<Rightarrow> bool" where
  "within R m \<longleftrightarrow> (\<forall>s. R s (snd (m s)))"

definition reads :: "('s, 'a) comp \<Rightarrow> bool" where
  "reads m \<longleftrightarrow> (\<forall>s. snd (m s) = s)"

lemma withinD: "within R m \<Longrightarrow> R s (snd (m s))"
  by (simp add: within_def)

lemma within_pair: "within R m \<Longrightarrow> m s = (x, t) \<Longrightarrow> R s t"
  by (metis withinD snd_conv)

lemma reads_state: "reads m \<Longrightarrow> m s = (x, t) \<Longrightarrow> t = s"
  unfolding reads_def by (metis snd_conv)

lemma reads_basic [intro, simp]:
  "reads (sreturn x)" "reads (sraise e)" "reads (slift r)" "reads (sguard b e)" "reads (smake n v d)"
  by (simp_all add: reads_def)

lemma reads_pure [intro, simp]: "reads (\<lambda>s. (f s, s))"
  by (simp add: reads_def)

lemma reads_sbind [intro]: "reads m \<Longrightarrow> (\<And>x. reads (f x)) \<Longrightarrow> reads (sbind m f)"
  by (auto simp: reads_def sbind_def split: prod.splits sum.splits) (metis snd_conv)+

lemma snd_stry_key [simp]: "snd (stry_key m s) = snd (m s)"
  by (auto simp: stry_key_def split: prod.splits sum.splits error.splits)

lemma reads_stry_key [intro]: "reads m \<Longrightarrow> reads (stry_key m)"
  by (simp add: reads_def)

lemma reads_if [intro]: "reads m \<Longrightarrow> reads m' \<Longrightarrow> reads (if b then m else m')"
  by simp

lemma reads_case_option [intro]:
  "reads m \<Longrightarrow> (\<And>x. reads (f x)) \<Longrightarrow> reads (case opt of None \<Rightarrow> m | Some x \<Rightarrow> f x)"
  by (cases opt) simp_all

lemma reads_smapM [intro]: "(\<And>x. reads (f x)) \<Longrightarrow> reads (smapM f xs)"
  by (induction xs) (auto intro!: reads_sbind)

lemma reads_zoom:
  "reads m \<Longrightarrow> (\<And>s. u (\<lambda>_. g s) s = s) \<Longrightarrow> reads (zoom g u m)"
  by (simp add: reads_def zoom_snd)

lemma reads_coll [intro, simp]:
  "reads (coll_get m i)" "reads (coll_list m)" "reads (coll_children m p)"
  by (simp_all add: reads_def)

lemma reads_typed [intro, simp]:
  "reads (get_computer i)" "reads list_computers" "reads (get_task i)" "reads list_tasks"
  "reads (get_run i)" "reads list_runs" "reads (list_workspaces p)" "reads (get_grant i)"
  "reads (list_grants p)" "reads (get_command i)" "reads (list_commands p)"
  "reads (get_runtime_credential i)" "reads (get_run_credential i)" "reads (list_audit_events p)"
  by (auto simp: op_defs intro!: reads_zoom split: option.splits)

lemma reads_active_count [intro, simp]: "reads (active_count c)"
  unfolding active_count_def by (intro reads_sbind) auto

locale state_order =
  fixes R :: "'s \<Rightarrow> 's \<Rightarrow> bool"
  assumes R_refl: "R s s"
    and R_trans: "R s t \<Longrightarrow> R t u \<Longrightarrow> R s u"
begin

lemma of_reads [intro]: "reads m \<Longrightarrow> within R m"
  by (simp add: within_def reads_def R_refl)

lemma of_bind [intro]:
  assumes "within R m" and "\<And>x. within R (f x)"
  shows "within R (sbind m f)"
proof -
  have "R s (snd (sbind m f s))" for s
  proof (cases "m s")
    case (Pair r t)
    have "R s t" by (rule within_pair [OF assms(1) Pair])
    moreover have "R t (snd (f x t))" for x by (rule withinD [OF assms(2)])
    ultimately show ?thesis using Pair by (cases r) (auto simp: sbind_def intro: R_trans)
  qed
  then show ?thesis by (simp add: within_def)
qed

lemma of_catch [intro]:
  assumes "within R m" and "\<And>e. within R (h e)"
  shows "within R (scatch m h)"
proof -
  have "R s (snd (scatch m h s))" for s
  proof (cases "m s")
    case (Pair r t)
    have "R s t" by (rule within_pair [OF assms(1) Pair])
    moreover have "R t (snd (h e t))" for e by (rule withinD [OF assms(2)])
    ultimately show ?thesis using Pair by (cases r) (auto simp: scatch_def intro: R_trans)
  qed
  then show ?thesis by (simp add: within_def)
qed

lemma of_try [intro]: "within R m \<Longrightarrow> within R (stry_key m)"
  by (simp add: within_def)

lemma of_if [intro]: "within R m \<Longrightarrow> within R m' \<Longrightarrow> within R (if b then m else m')"
  by simp

lemma of_option [intro]:
  "within R m \<Longrightarrow> (\<And>x. within R (f x)) \<Longrightarrow> within R (case opt of None \<Rightarrow> m | Some x \<Rightarrow> f x)"
  by (cases opt) simp_all

lemma of_prod [intro]: "(\<And>x y. within R (f x y)) \<Longrightarrow> within R (case p of (x, y) \<Rightarrow> f x y)"
  by (cases p) simp

lemma of_mapM [intro]: "(\<And>x. within R (f x)) \<Longrightarrow> within R (smapM f xs)"
  by (induction xs) (auto intro!: of_bind)

text \<open>At one state: a read does not move it, and a later part starts where the earlier one ended.\<close>

lemma at_read:
  assumes "reads m" and "\<And>x. m s = (Inr x, s) \<Longrightarrow> R s (snd (f x s))"
  shows "R s (snd (sbind m f s))"
proof (cases "m s")
  case (Pair r t)
  then have "t = s" using assms(1) by (rule reads_state [rotated])
  then show ?thesis using assms(2) Pair R_refl by (cases r) (auto simp: sbind_def)
qed

lemma at_bind:
  assumes "R s (snd (m s))" and "\<And>x. within R (f x)"
  shows "R s (snd (sbind m f s))"
proof (cases "m s")
  case (Pair r t)
  have "R t (snd (f x t))" for x by (rule withinD [OF assms(2)])
  then show ?thesis using assms(1) Pair by (cases r) (auto simp: sbind_def intro: R_trans)
qed

end

lemma within_zoom_other:
  assumes "\<And>s c. R s (u (\<lambda>_. c) s)"
  shows "within R (zoom g u m)"
  using assms by (simp add: within_def zoom_snd)

end
