(* ===== verification/Run_Order.thy ===== *)
theory Run_Order
  imports State_Order
begin

text \<open>
  How Task Runs move. No operation of the control plane except deleting a task loses a run, moves its
  (epoch, last event sequence) pair backwards, changes its task, or breaks the lease discipline
  \<open>run_ok\<close>. Ids that the source draws from \<open>uuid4\<close> are assumed unused where a write would otherwise
  replace an existing record.
\<close>

definition same_runs :: "local_store \<Rightarrow> local_store \<Rightarrow> bool" where
  "same_runs s t \<longleftrightarrow> runs t = runs s"

definition runs_ok :: "task_run coll \<Rightarrow> bool" where
  "runs_ok c \<longleftrightarrow> coll_inv run_model c \<and> (\<forall>i r. map_of (docs c) i = Some r \<longrightarrow> run_ok r)"

definition run_moves :: "task_run \<Rightarrow> task_run \<Rightarrow> bool" where
  "run_moves r r' \<longleftrightarrow> run_task_id r' = run_task_id r \<and> run_le r r'"

definition runs_advance :: "local_store \<Rightarrow> local_store \<Rightarrow> bool" where
  "runs_advance s t \<longleftrightarrow> (runs_ok (runs s) \<longrightarrow> runs_ok (runs t) \<and>
     (\<forall>i r. map_of (docs (runs s)) i = Some r \<longrightarrow>
        (\<exists>r'. map_of (docs (runs t)) i = Some r' \<and> run_moves r r')))"

lemma run_moves_refl [simp]: "run_moves r r"
  by (simp add: run_moves_def)

lemma run_moves_trans: "run_moves r s \<Longrightarrow> run_moves s t \<Longrightarrow> run_moves r t"
  by (auto simp: run_moves_def intro: run_le_trans)

interpretation runs_frame: state_order same_runs
  by unfold_locales (simp_all add: same_runs_def)

interpretation runs_order: state_order runs_advance
proof
  fix s :: local_store
  show "runs_advance s s" by (auto simp: runs_advance_def)
next
  fix s t u :: local_store
  assume "runs_advance s t" "runs_advance t u"
  then show "runs_advance s u" unfolding runs_advance_def by (meson run_moves_trans)
qed

lemma same_runs_advance: "same_runs s t \<Longrightarrow> runs_advance s t"
  by (auto simp: same_runs_def runs_advance_def)

lemma within_same_runs: "within same_runs m \<Longrightarrow> within runs_advance m"
  by (simp add: within_def same_runs_advance)

section \<open>Operations that do not write runs\<close>

lemma runs_frame_zoom [intro]:
  "within same_runs (on_computers m1)" "within same_runs (on_tasks m2)"
  "within same_runs (on_workspaces m4)" "within same_runs (on_grants m5)"
  "within same_runs (on_commands m6)" "within same_runs (on_runtime_credentials m7)"
  "within same_runs (on_registration_credentials m8)" "within same_runs (on_run_credentials m9)"
  "within same_runs (on_audit m10)"
  by (rule within_zoom_other, simp add: same_runs_def)+

lemma runs_frame_typed [intro]:
  "within same_runs (save_computer now c)" "within same_runs (save_task now t)"
  "within same_runs (save_workspace now w)" "within same_runs (save_grant g)"
  "within same_runs (save_command k)" "within same_runs (save_runtime_credential rc)"
  "within same_runs (save_registration_credential gc)" "within same_runs (save_run_credential tc)"
  "within same_runs (consume_registration_credential h now)" "within same_runs (save_audit_event a)"
  by (auto simp: op_defs consume_registration_credential_def save_audit_event_def)

lemma runs_frame_audit [intro]: "within same_runs (record_security_event now aid a b c d e f g)"
  unfolding record_security_event_def by (intro runs_frame.of_bind) auto

lemma runs_frame_files [intro]:
  "within same_runs (write_local_computer_name n)" "within same_runs read_local_computer_name"
  "within same_runs (local_computer_id i)"
  by (auto simp: within_def same_runs_def write_local_computer_name_def read_local_computer_name_def
      local_computer_id_def split: option.splits)

lemma runs_frame_update_grant [intro]: "within same_runs (update_grant i f)"
  unfolding update_grant_def by (intro runs_frame.of_bind) auto

lemmas frame_rules = runs_frame.of_bind runs_frame.of_if runs_frame.of_option runs_frame.of_prod
  runs_frame.of_mapM runs_frame.of_try runs_frame.of_catch

lemma runs_frame_computers [intro]:
  "within same_runs (heartbeat now c n)" "within same_runs (rename_computer now c nm)"
  "within same_runs (revoke_computer now c)" "within same_runs (expire_stale_computers now l)"
  "within same_runs (register_local now f nd caps)"
  unfolding heartbeat_def rename_computer_def revoke_computer_def expire_stale_computers_def
    register_local_def Let_def
  by (intro frame_rules; auto)+

lemma runs_frame_list_computers [intro]: "within same_runs (list_computer_page now l)"
  unfolding list_computer_page_def by (intro frame_rules) auto

lemma runs_frame_eligible [intro]: "within same_runs (eligible_computers now l p sc e)"
  unfolding eligible_computers_def by (intro frame_rules) auto

lemma runs_frame_tokens [intro]:
  "within same_runs (issue_registration_token dg now t)"
  "within same_runs (register_runtime dg now t n caps i rt aid)"
  "within same_runs (issue_run_token dg now r t)" "within same_runs (refresh_task_commands now t p)"
  unfolding issue_registration_token_def register_runtime_def require_protocol_def issue_run_token_def
    refresh_task_commands_def
  by (intro frame_rules; auto)+

lemma runs_frame_workspaces [intro]:
  "within same_runs (attach_prepared_workspaces now r p wid)"
  "within same_runs (release_workspaces now r)"
  unfolding attach_prepared_workspaces_def release_workspaces_def
  by (intro frame_rules; auto)+

lemma runs_frame_grants [intro]:
  "within same_runs (issue dg now r p c a k ttl gid tok aid)"
  "within same_runs (authorize dg now gid tok act k cid aid)"
  "within same_runs (revoke_for_run now r aids)"
  unfolding issue_def authorize_def revoke_for_run_def
  by (intro frame_rules; auto split: error.splits)+

lemma runs_frame_commands [intro]:
  "within same_runs (queue_command now r k pl key i)"
  "within same_runs (acknowledge_command now r i c l ep res err)"
  unfolding queue_command_def acknowledge_command_def command_of_run_def
  by (intro frame_rules; auto)+

lemma runs_frame_applier [intro]:
  "within same_runs (applier pystr parse project now ids ev r)"
proof -
  have "within same_runs (accept_workspace parse project now ids ev r)"
    unfolding accept_workspace_def
    by (auto split: json.splits list.splits intro!: frame_rules)
  moreover have "within same_runs (accept_update project now ids r)"
    unfolding accept_update_def by (intro frame_rules) auto
  moreover have "within same_runs (accept_turn_completed pystr project ev)"
    unfolding accept_turn_completed_def by (intro frame_rules) auto
  ultimately show ?thesis
    unfolding applier_def by (intro runs_frame.of_bind) (auto split: event_kind.splits)
qed

section \<open>Writing one run\<close>

lemma stamp_run [simp]:
  "run_ok (r\<lparr>run_updated_at := now\<rparr>) = run_ok r"
  "run_le r (r'\<lparr>run_updated_at := now\<rparr>) = run_le r r'"
  by (simp_all add: run_ok_def run_le_def)

lemma save_run_advance:
  assumes "run_ok r'"
    and "\<And>r. map_of (docs (runs s)) (run_id r') = Some r \<Longrightarrow> run_moves r r'"
  shows "runs_advance s (snd (save_run now r' s))"
proof (cases "path_ok (run_id r')")
  case True
  let ?t = "snd (save_run now r' s)"
  have view: "map_of (docs (runs ?t)) = (map_of (docs (runs s)))(run_id r' \<mapsto> r'\<lparr>run_updated_at := now\<rparr>)"
    using True by (simp add: save_run_def zoom_def coll_save_def run_model_def)
  have inv: "coll_inv run_model (runs s) \<Longrightarrow> coll_inv run_model (runs ?t)"
    using coll_save_inv [of run_model "runs s" "r'\<lparr>run_updated_at := now\<rparr>"]
    by (simp add: save_run_def zoom_snd)
  show ?thesis
    using assms inv unfolding runs_advance_def runs_ok_def view
    by (auto simp: run_moves_def simp del: map_of_eq_Some_iff)
next
  case False
  then show ?thesis
    by (simp add: save_run_def zoom_def coll_save_def run_model_def runs_order.R_refl)
qed

lemma get_run_Inr:
  assumes "get_run i s = (Inr r, t)"
  shows "t = s \<and> map_of (docs (runs s)) i = Some r \<and> valid_run r"
  using assms
  by (auto simp: get_run_def zoom_def coll_get_def lookup_doc_def run_model_def
      simp del: map_of_eq_Some_iff split: if_splits option.splits)

lemma stored_run_id:
  "runs_ok (runs s) \<Longrightarrow> map_of (docs (runs s)) i = Some r \<Longrightarrow> run_id r = i \<and> run_ok r"
  unfolding runs_ok_def coll_inv_def by (auto simp: run_model_def simp del: map_of_eq_Some_iff)

lemma update_run_with_advance:
  assumes frame: "\<And>r. within same_runs (f r)"
    and con: "\<And>r u r' x v. f r u = (Inr (r', x), v) \<Longrightarrow> contract r r'"
  shows "within runs_advance (update_run_with now i f)"
proof -
  have "runs_advance s (snd (update_run_with now i f s))" for s
  proof (cases "runs_ok (runs s)")
    case ok: True
    show ?thesis unfolding update_run_with_def
    proof (rule runs_order.at_read [OF reads_typed(5)])
      fix r assume "get_run i s = (Inr r, s)"
      then have r: "map_of (docs (runs s)) i = Some r" using get_run_Inr by blast
      obtain res v where v: "f r s = (res, v)" by (cases "f r s")
      have same: "runs v = runs s" using within_pair [OF frame v] by (simp add: same_runs_def)
      have adv: "runs_advance s v" using same by (simp add: same_runs_advance same_runs_def)
      show "runs_advance s (snd (sbind (f r) (\<lambda>(r', x). if r' = r then sreturn (r, x)
          else sbind (save_run now r') (\<lambda>saved. sreturn (saved, x))) s))"
      proof (cases res)
        case (Inr p)
        obtain r' x where p: "p = (r', x)" by (cases p)
        have c: "contract r r'" using con v Inr p by blast
        have "run_moves r r'" "run_ok r'" "run_id r' = i"
          using c stored_run_id [OF ok r] by (auto simp: contract_def run_moves_def)
        then have "runs_advance v (snd (save_run now r' v))"
          using r same by (intro save_run_advance) (simp_all del: map_of_eq_Some_iff)
        then have "runs_advance v (snd (sbind (save_run now r') (\<lambda>saved. sreturn (saved, x)) v))"
          by (rule runs_order.at_bind) auto
        then show ?thesis using v Inr p adv by (auto intro: runs_order.R_trans)
      qed (use v adv in simp)
    qed
  qed (simp add: runs_advance_def)
  then show ?thesis by (simp add: within_def)
qed

lemma update_run_advance:
  assumes "\<And>r r'. f r = Inr r' \<Longrightarrow> contract r r'"
  shows "within runs_advance (update_run now i f)"
  unfolding update_run_def
proof (intro runs_order.of_bind runs_order.of_prod update_run_with_advance)
  fix r u r' x v
  assume "sbind (slift (f r)) (\<lambda>r'. sreturn (r', ())) u = (Inr (r', x), v)"
  then show "contract r r'" using assms by (auto elim!: sbind_Inr_elim)
qed auto

section \<open>Every operation that writes runs\<close>

lemma set_run_status_advance: "within runs_advance (set_run_status now i st err)"
  unfolding set_run_status_def by (rule update_run_advance) (rule contract_transition)

lemma sync_session_advance: "within runs_advance (sync_session now l ses)"
  unfolding sync_session_def
  by (intro runs_order.of_if update_run_advance) (auto dest: reconcile_contract)

lemma expire_leases_advance: "within runs_advance (expire_leases now)"
  unfolding expire_leases_def
  by (intro runs_order.of_bind runs_order.of_mapM update_run_advance) (auto dest: expire_contract)

lemma reassign_contract: "reassign cid r = Inr r' \<Longrightarrow> contract r r'"
  by (auto simp: reassign_def contract_def run_ok_def run_le_def split: if_splits)

lemma reassign_advance: "within runs_advance (reassign_queued_run now l i cid aid)"
  unfolding reassign_queued_run_def
  by (intro runs_order.of_bind runs_order.of_option runs_order.of_mapM update_run_advance)
    (auto dest: reassign_contract intro: within_same_runs)

lemma apply_recovery_advance: "within runs_advance (apply_recovery now i c a)"
  unfolding apply_recovery_def
proof (intro runs_order.of_bind runs_order.of_prod runs_order.of_if runs_order.of_mapM
    update_run_with_advance)
  fix r u r' x v
  assume "sbind (if comp_id c \<noteq> run_computer_id r
      then sbind (get_task (run_task_id r)) (\<lambda>t. sreturn (task_execution_project t)) else sreturn None)
      (\<lambda>p. sbind (slift (recovery_fence now c a p r)) (\<lambda>r'. sreturn (r', ()))) u = (Inr (r', x), v)"
  then show "contract r r'" by (auto elim!: sbind_Inr_elim dest: recovery_contract)
qed (auto intro: within_same_runs intro!: frame_rules)

lemma recover_run_advance: "within runs_advance (recover_run now i c a)"
  unfolding recover_run_def
  by (intro runs_order.of_bind apply_recovery_advance) auto

lemma claim_commands_advance: "within runs_advance (claim_commands now i c l ep)"
  unfolding claim_commands_def
  by (intro runs_order.of_bind runs_order.of_prod update_run_with_advance)
    (auto elim!: sbind_Inr_elim intro!: frame_rules)

lemma accept_event_advance:
  "within runs_advance (accept_event pystr now ev (applier pystr parse project now ids ev))"
  unfolding accept_event_def
proof (intro runs_order.of_if runs_order.of_bind runs_order.of_prod update_run_with_advance)
  fix r u r' x v
  assume "sbind (slift (accept_begin pystr now ev r)) (\<lambda>(again, r1).
      if again then sreturn (r1, ())
      else sbind (applier pystr parse project now ids ev r1)
        (\<lambda>r2. sreturn (accept_finish ev r2, ()))) u = (Inr (r', x), v)"
  then have "accept_operation pystr now ev r = Inr r'"
    by (auto simp: accept_operation_def applier_def elim!: sbind_Inr_elim split: if_splits)
  then show "contract r r'" by (rule accept_contract)
qed (auto intro!: frame_rules)

lemma claim_contract:
  assumes "run_status r \<in> {Queued, Recovering}"
    and "transition_run now (r\<lparr>run_lease_id := Some l, run_lease_expires_at := Some e\<rparr>) Preparing None = Inr r'"
  shows "contract r r'"
  using assms by (auto simp: transition_run_def contract_def run_ok_def run_le_def split: if_splits)

lemma listed_run:
  assumes "list_runs s = (Inr rs, t)" and "r \<in> set rs" and "runs_ok (runs s)"
  shows "map_of (docs (runs s)) (run_id r) = Some r"
proof -
  obtain i where i: "(i, r) \<in> set (docs (runs s))"
    using assms by (auto simp: list_runs_def zoom_def coll_list_def)
  have "distinct (map fst (docs (runs s)))" using assms(3) by (simp add: runs_ok_def coll_inv_def)
  then have "map_of (docs (runs s)) i = Some r" using i by simp
  then show ?thesis using stored_run_id [OF assms(3)] by metis
qed

lemma claim_run_advance: "within runs_advance (claim_run now cid l e)"
proof -
  have "runs_advance s (snd (claim_run now cid l e s))" for s
  proof (cases "runs_ok (runs s)")
    case ok: True
    show ?thesis unfolding claim_run_def
    proof (rule runs_order.at_read [OF reads_typed(6)])
      fix rs assume rs: "list_runs s = (Inr rs, s)"
      let ?ws = "filter (\<lambda>r. run_computer_id r = cid \<and> run_status r \<in> {Queued, Recovering}) rs"
      show "runs_advance s (snd ((case min_by run_created_at ?ws of None \<Rightarrow> sreturn None
        | Some r \<Rightarrow> sbind (slift (transition_run now
              (r\<lparr>run_lease_id := Some l, run_lease_expires_at := Some e\<rparr>) Preparing None))
            (\<lambda>r'. sbind (save_run now r') (\<lambda>saved. sreturn (Some saved)))) s))"
      proof (cases "min_by run_created_at ?ws")
        case (Some r)
        then have r: "r \<in> set rs" "run_status r \<in> {Queued, Recovering}"
          using min_by_least [OF Some] by auto
        note stored = listed_run [OF rs r(1) ok]
        have "runs_advance s (snd (sbind (slift (transition_run now
              (r\<lparr>run_lease_id := Some l, run_lease_expires_at := Some e\<rparr>) Preparing None))
            (\<lambda>r'. sbind (save_run now r') (\<lambda>saved. sreturn (Some saved))) s))"
        proof (rule runs_order.at_read)
          fix r' assume "slift (transition_run now
              (r\<lparr>run_lease_id := Some l, run_lease_expires_at := Some e\<rparr>) Preparing None) s = (Inr r', s)"
          then have c: "contract r r'" using claim_contract [OF r(2)] by simp
          then have "run_ok r'" "run_moves r r'" "run_id r' = run_id r"
            using stored_run_id [OF ok stored] by (auto simp: contract_def run_moves_def)
          then have "runs_advance s (snd (save_run now r' s))"
            using stored by (intro save_run_advance) (simp_all del: map_of_eq_Some_iff)
          then show "runs_advance s (snd (sbind (save_run now r') (\<lambda>saved. sreturn (Some saved)) s))"
            by (rule runs_order.at_bind) auto
        qed auto
        then show ?thesis using Some by simp
      qed (simp add: runs_order.R_refl)
    qed
  qed (simp add: runs_advance_def)
  then show ?thesis by (simp add: within_def)
qed

lemma acquire_lease_advance: "within runs_advance (acquire_lease now cid l)"
  unfolding acquire_lease_def
  by (intro runs_order.of_bind expire_leases_advance claim_run_advance) auto

section \<open>Creating runs\<close>

lemma new_run_write:
  assumes "run_ok r" and "map_of (docs (runs s)) (run_id r) = None"
  shows "runs_advance s (snd (save_run now r s))"
  using assms by (intro save_run_advance) (simp_all del: map_of_eq_Some_iff)

lemma new_run_coll_write:
  assumes "run_ok r" and "map_of (docs (runs s)) (run_id r) = None"
  shows "runs_advance s (snd (on_runs (coll_save run_model r) s))"
  using new_run_write [OF assms, of "run_updated_at r"] by (simp add: save_run_def)

lemma create_task_run_advance:
  assumes "run_ok r"
  shows "within runs_advance (create_task_run t r wss)"
proof -
  have "runs_advance s (snd (create_task_run t r wss s))" for s
    unfolding create_task_run_def
  proof ((rule runs_order.at_read, (rule reads_pure)[1])+)
    fix x y z
    assume "(check_new ''run'' run_model r (runs s), s) = (Inr y, s)"
    then have "map_of (docs (runs s)) (run_id r) = None"
      by (auto simp: check_new_def run_model_def split: if_splits)
    then have new: "runs_advance u (snd (on_runs (coll_save run_model r) u))" if "same_runs s u" for u
      using assms that by (intro new_run_coll_write) (simp_all add: same_runs_def)
    obtain q u where u: "on_tasks (coll_save task_model t) s = (q, u)"
      by (cases "on_tasks (coll_save task_model t) s")
    have same: "same_runs s u" using within_pair [OF runs_frame_zoom(2) u] .
    have "runs_advance u (snd (sbind (on_runs (coll_save run_model r)) (\<lambda>_.
        sbind (smapM (\<lambda>w. on_workspaces (coll_save workspace_model w)) wss) (\<lambda>_.
        sreturn (t, r, wss))) u))"
      by (rule runs_order.at_bind, rule new [OF same],
          intro runs_order.of_bind runs_order.of_mapM; auto intro: within_same_runs)
    then show "runs_advance s (snd (sbind (on_tasks (coll_save task_model t)) (\<lambda>_.
        sbind (on_runs (coll_save run_model r)) (\<lambda>_.
        sbind (smapM (\<lambda>w. on_workspaces (coll_save workspace_model w)) wss) (\<lambda>_.
        sreturn (t, r, wss)))) s))"
      using u same by (cases q) (auto intro: runs_order.R_trans same_runs_advance)
  qed
  then show ?thesis by (simp add: within_def)
qed

lemma smake_bind_within:
  assumes "\<And>x. valid d \<Longrightarrow> x = d \<Longrightarrow> within runs_advance (f x)"
  shows "within runs_advance (sbind (smake n valid d) f)"
proof (cases "valid d")
  case True
  then have "sbind (smake n valid d) f = f d" by (simp add: fun_eq_iff)
  then show ?thesis using assms True by simp
next
  case False
  then have "sbind (smake n valid d) f = sraise (ValidationError n)" by (simp add: fun_eq_iff)
  then show ?thesis by auto
qed

lemma create_run_advance:
  "within runs_advance (create_run now l tid ti pr p req cid e sa setup rid wid)"
  unfolding create_run_def Let_def
  by (intro runs_order.of_bind smake_bind_within create_task_run_advance runs_order.of_mapM
      runs_order.of_prod)
    (auto intro: within_same_runs)

lemma valid_fresh_run_ok:
  "valid_run ((new_run now i t c)\<lparr>run_status := st, run_epoch := ep, run_resume_mode := m,
     run_recovery_count := n\<rparr>) \<Longrightarrow>
   run_ok ((new_run now i t c)\<lparr>run_status := st, run_epoch := ep, run_resume_mode := m,
     run_recovery_count := n\<rparr>)"
  by (simp add: valid_run_def run_ok_def new_run_def)

lemma valid_migrated_run_ok:
  "valid_run ((new_run now i t c)\<lparr>run_status := st, run_epoch := ep\<rparr>) \<Longrightarrow>
   run_ok ((new_run now i t c)\<lparr>run_status := st, run_epoch := ep\<rparr>)"
  by (simp add: valid_run_def run_ok_def new_run_def)

lemma new_run_id [simp]: "run_id (new_run now i t c) = i"
  by (simp add: new_run_def)

lemma continue_task_advance:
  assumes fresh: "map_of (docs (runs s)) rid = None"
  shows "runs_advance s (snd (continue_task now l tid prev rid wid s))"
  unfolding continue_task_def
proof ((rule runs_order.at_read, (rule reads_typed reads_basic)[1])+)
  fix p u1 c u2 wss r0
  let ?r = "(new_run now rid tid (comp_id c))\<lparr>
      run_status := (if comp_id c = l then Ready else Queued), run_epoch := run_epoch p + 1,
      run_resume_mode := (if restorable wss then Restore else Prepare),
      run_recovery_count := run_recovery_count p\<rparr>"
  assume "smake ''TaskRun'' valid_run ?r s = (Inr r0, s)"
  then have r0: "r0 = ?r" "valid_run ?r" by (auto split: if_splits)
  have "run_ok r0" unfolding r0(1) by (rule valid_fresh_run_ok [OF r0(2)])
  then have "runs_advance s (snd (save_run now r0 s))"
    using fresh by (intro new_run_write) (simp_all add: r0(1))
  then show "runs_advance s (snd (sbind (save_run now r0) (\<lambda>r.
      sbind (smapM (\<lambda>(i, w). sbind
         (if restorable wss then sreturn (w\<lparr>ws_id := wid i, ws_run_id := run_id r\<rparr>)
          else smake ''ExecutionWorkspace'' valid_workspace
                 (new_workspace now (wid i) (run_id r) (ws_resource_id w) (comp_id c)))
         (save_workspace now)) (List.enumerate 0 wss)) (\<lambda>_. sreturn r)) s))"
    by (rule runs_order.at_bind)
      (intro runs_order.of_bind runs_order.of_mapM runs_order.of_prod runs_order.of_if;
        auto intro: within_same_runs)
qed

text \<open>\<open>migrate_session\<close> writes a run only after finding that there is none.\<close>

lemma missing_run:
  assumes "stry_key (get_run i) s = (Inr None, t)"
  shows "t = s \<and> map_of (docs (runs s)) i = None"
  using assms
  by (auto simp: get_run_def zoom_def coll_get_def lookup_doc_def stry_key_def invalid_id_def
      simp del: map_of_eq_Some_iff split: if_splits option.splits)

lemma migrated_run_advance:
  assumes "\<And>r. within runs_advance (g r)"
  shows "within runs_advance (sbind (stry_key (get_run rid)) (\<lambda>found.
    sbind (case found of Some r \<Rightarrow> sreturn r
      | None \<Rightarrow> sbind (smake ''TaskRun'' valid_run
          ((new_run now rid tid cid)\<lparr>run_status := st, run_epoch := ep\<rparr>)) (save_run now)) g))"
proof -
  let ?r = "(new_run now rid tid cid)\<lparr>run_status := st, run_epoch := ep\<rparr>"
  have "runs_advance s (snd (sbind (stry_key (get_run rid)) (\<lambda>found.
    sbind (case found of Some r \<Rightarrow> sreturn r
      | None \<Rightarrow> sbind (smake ''TaskRun'' valid_run ?r) (save_run now)) g) s))" for s
  proof (rule runs_order.at_read)
    fix found assume f: "stry_key (get_run rid) s = (Inr found, s)"
    have "runs_advance s (snd ((case found of Some r \<Rightarrow> sreturn r
      | None \<Rightarrow> sbind (smake ''TaskRun'' valid_run ?r) (save_run now)) s))"
    proof (cases found)
      case None
      then have "map_of (docs (runs s)) rid = None" using missing_run f by blast
      then have "runs_advance s (snd (save_run now ?r s))" if "valid_run ?r"
        using valid_migrated_run_ok [OF that] by (intro new_run_write) simp_all
      then show ?thesis using None runs_order.R_refl by (simp add: sbind_def)
    qed (simp add: runs_order.R_refl)
    then show "runs_advance s (snd (sbind (case found of Some r \<Rightarrow> sreturn r
      | None \<Rightarrow> sbind (smake ''TaskRun'' valid_run ?r) (save_run now)) g s))"
      by (rule runs_order.at_bind) (rule assms)
  qed auto
  then show ?thesis by (simp add: within_def)
qed

lemma migrate_session_advance: "within runs_advance (migrate_session now l ses p wid)"
  unfolding migrate_session_def Let_def migrated_task_def
  by (intro runs_order.of_bind migrated_run_advance runs_order.of_option runs_order.of_if
      runs_order.of_mapM runs_order.of_prod)
    (auto intro: within_same_runs)

end
