(* ===== verification/Grant_Order.thy ===== *)
theory Grant_Order
  imports Run_Order
begin

text \<open>
  How connector grants and audit events move. Outside pruning and task deletion a grant never
  disappears, never widens, is never un-revoked, and its use count only rises and never passes its
  limit; an audit event is never changed. The id of a new grant is drawn from \<open>uuid4\<close> and assumed
  unused.
\<close>

section \<open>Listings return what is stored\<close>

lemma coll_children_stored:
  assumes inv: "coll_inv m c" and ix: "m_indexed m" and ds: "coll_children m p c = (Inr ds, c')"
  shows "c' = c \<and> distinct (map (m_id m) ds) \<and>
    set ds = {d. map_of (docs c) (m_id m d) = Some d \<and> m_parent m d = Some p}"
proof -
  have "m_valid m d" if "map_of (docs c) i = Some d" "m_parent m d = Some p" for i d
    using coll_children_invalid [OF inv ix that] ds by (cases "m_valid m d") auto
  then have "\<forall>i d. map_of (docs c) i = Some d \<longrightarrow> m_parent m d = Some p \<longrightarrow> m_valid m d"
    by blast
  from coll_children_view [OF inv ix this] show ?thesis using ds by auto
qed

section \<open>The order on grants\<close>

definition grant_le :: "connector_grant \<Rightarrow> connector_grant \<Rightarrow> bool" where
  "grant_le g g' \<longleftrightarrow> grant_run_id g' = grant_run_id g \<and> grant_epoch g' = grant_epoch g \<and>
     grant_computer_id g' = grant_computer_id g \<and> grant_actions g' = grant_actions g \<and>
     grant_constraints g' = grant_constraints g \<and> grant_token_hash g' = grant_token_hash g \<and>
     grant_expires_at g' = grant_expires_at g \<and> grant_max_uses g' = grant_max_uses g \<and>
     grant_use_count g \<le> grant_use_count g' \<and>
     (grant_revoked_at g \<noteq> None \<longrightarrow> grant_revoked_at g' \<noteq> None)"

definition grants_ok :: "connector_grant coll \<Rightarrow> bool" where
  "grants_ok c \<longleftrightarrow> coll_inv grant_model c \<and>
     (\<forall>i g. map_of (docs c) i = Some g \<longrightarrow> grant_use_count g \<le> grant_max_uses g)"

definition grants_advance :: "local_store \<Rightarrow> local_store \<Rightarrow> bool" where
  "grants_advance s t \<longleftrightarrow> (grants_ok (grants s) \<longrightarrow> grants_ok (grants t) \<and>
     (\<forall>i g. map_of (docs (grants s)) i = Some g \<longrightarrow>
        (\<exists>g'. map_of (docs (grants t)) i = Some g' \<and> grant_le g g')))"

lemma grant_le_refl [simp]: "grant_le g g"
  by (simp add: grant_le_def)

lemma grant_le_trans: "grant_le g h \<Longrightarrow> grant_le h k \<Longrightarrow> grant_le g k"
  by (auto simp: grant_le_def)

interpretation grants_order: state_order grants_advance
proof
  fix s :: local_store
  show "grants_advance s s" by (auto simp: grants_advance_def)
next
  fix s t u :: local_store
  assume "grants_advance s t" "grants_advance t u"
  then show "grants_advance s u" unfolding grants_advance_def by (meson grant_le_trans)
qed

section \<open>Operations that do not write grants\<close>

definition same_grants :: "local_store \<Rightarrow> local_store \<Rightarrow> bool" where
  "same_grants s t \<longleftrightarrow> grants t = grants s"

interpretation grants_frame: state_order same_grants
  by unfold_locales (simp_all add: same_grants_def)

lemma within_same_grants: "within same_grants m \<Longrightarrow> within grants_advance m"
  by (auto simp: within_def same_grants_def grants_advance_def)

lemma grants_frame_zoom [intro]:
  "within same_grants (on_computers m1)" "within same_grants (on_tasks m2)"
  "within same_grants (on_runs m3)" "within same_grants (on_workspaces m4)"
  "within same_grants (on_commands m6)" "within same_grants (on_runtime_credentials m7)"
  "within same_grants (on_registration_credentials m8)" "within same_grants (on_run_credentials m9)"
  "within same_grants (on_audit m10)"
  by (rule within_zoom_other, simp add: same_grants_def)+

lemma grants_frame_audit [intro]: "within same_grants (record_security_event now aid a b c d e f g)"
  unfolding record_security_event_def save_audit_event_def by (intro grants_frame.of_bind) auto

section \<open>Writing grants\<close>

lemma save_grant_advance:
  assumes "grant_use_count g' \<le> grant_max_uses g'"
    and "\<And>g. map_of (docs (grants s)) (grant_id g') = Some g \<Longrightarrow> grant_le g g'"
  shows "grants_advance s (snd (save_grant g' s))"
proof (cases "path_ok (grant_id g')")
  case True
  let ?t = "snd (save_grant g' s)"
  have view: "map_of (docs (grants ?t)) = (map_of (docs (grants s)))(grant_id g' \<mapsto> g')"
    using True by (simp add: save_grant_def zoom_def coll_save_def grant_model_def)
  have inv: "coll_inv grant_model (grants s) \<Longrightarrow> coll_inv grant_model (grants ?t)"
    using coll_save_inv [of grant_model "grants s" g'] by (simp add: save_grant_def zoom_snd)
  show ?thesis
    using assms inv unfolding grants_advance_def grants_ok_def view
    by (auto simp del: map_of_eq_Some_iff)
next
  case False
  then show ?thesis
    by (simp add: save_grant_def zoom_def coll_save_def grant_model_def grants_order.R_refl)
qed

lemma get_grant_Inr:
  assumes "get_grant i s = (Inr g, t)"
  shows "t = s \<and> map_of (docs (grants s)) i = Some g \<and> valid_grant g"
  using assms
  by (auto simp: get_grant_def zoom_def coll_get_def lookup_doc_def grant_model_def
      simp del: map_of_eq_Some_iff split: if_splits option.splits)

lemma stored_grant_id:
  "grants_ok (grants s) \<Longrightarrow> map_of (docs (grants s)) i = Some g \<Longrightarrow>
     grant_id g = i \<and> grant_use_count g \<le> grant_max_uses g"
  unfolding grants_ok_def coll_inv_def by (auto simp: grant_model_def simp del: map_of_eq_Some_iff)

lemma authorize_grant_Inr:
  assumes "authorize_grant dg now tok act k cid g r = Inr g'"
  shows "validate_grant_use dg now g r tok act k cid = Inr ()"
    and "g' = g\<lparr>grant_use_count := grant_use_count g + 1, grant_last_used_at := Some now\<rparr>"
  using assms by (auto simp: authorize_grant_def split: sum.splits)

lemma validate_grant_use_Inr:
  "validate_grant_use dg now g r tok act k cid = Inr () \<longleftrightarrow>
     grant_revoked_at g = None \<and> now < grant_expires_at g \<and> grant_epoch g = run_epoch r \<and>
     \<not> terminal (run_status r) \<and> grant_computer_id g = run_computer_id r \<and>
     (cid = None \<or> cid = Some (grant_computer_id g)) \<and> grant_token_hash g = dg tok \<and>
     act \<in> set (grant_actions g) \<and> list_all (constraint_met g k) (required_names g act) \<and>
     grant_use_count g < grant_max_uses g"
  by (auto simp: validate_grant_use_def validate_constraints_def)

lemma authorize_grant_le:
  assumes "authorize_grant dg now tok act k cid g r = Inr g'"
  shows "grant_le g g' \<and> grant_use_count g' \<le> grant_max_uses g' \<and> grant_id g' = grant_id g"
  using authorize_grant_Inr [OF assms] by (auto simp: validate_grant_use_Inr grant_le_def)

lemma update_grant_advance:
  assumes op: "\<And>g r g'. f g r = Inr g' \<Longrightarrow>
    grant_le g g' \<and> grant_use_count g' \<le> grant_max_uses g' \<and> grant_id g' = grant_id g"
  shows "within grants_advance (update_grant i f)"
proof -
  have "grants_advance s (snd (update_grant i f s))" for s
  proof (cases "grants_ok (grants s)")
    case ok: True
    show ?thesis unfolding update_grant_def
    proof ((rule grants_order.at_read, (rule reads_typed reads_basic)[1])+)
      fix g r g'
      assume "get_grant i s = (Inr g, s)" and "slift (f g r) s = (Inr g', s)"
      then have g: "map_of (docs (grants s)) i = Some g" and g': "f g r = Inr g'"
        using get_grant_Inr by (blast, simp)
      have "grants_advance s (snd (save_grant g' s))"
        using op [OF g'] g stored_grant_id [OF ok g]
        by (intro save_grant_advance) (simp_all del: map_of_eq_Some_iff)
      then show "grants_advance s (snd (sbind (save_grant g') (\<lambda>saved. sreturn (saved, r)) s))"
        by (rule grants_order.at_bind) auto
    qed
  qed (simp add: grants_advance_def)
  then show ?thesis by (simp add: within_def)
qed

lemma authorize_advance: "within grants_advance (authorize dg now gid tok act k cid aid)"
proof -
  have "within grants_advance (update_grant gid (authorize_grant dg now tok act k cid))"
    by (rule update_grant_advance) (rule authorize_grant_le)
  then show ?thesis unfolding authorize_def
    by (intro grants_order.of_bind grants_order.of_catch grants_order.of_prod)
      (auto split: error.splits intro: within_same_grants intro!: grants_order.of_bind)
qed

lemma issue_advance:
  assumes "map_of (docs (grants s)) gid = None"
  shows "grants_advance s (snd (issue dg now rid p c a k ttl gid tok aid s))"
  unfolding issue_def
proof ((rule grants_order.at_read, (rule reads_typed reads_basic)[1])+)
  fix r g u
  assume "smake ''ConnectorGrant'' valid_grant
       \<lparr>grant_id = gid, grant_run_id = run_id r, grant_computer_id = run_computer_id r,
        grant_epoch = run_epoch r, grant_provider = p, grant_connection_name = c,
        grant_actions = fromkeys a, grant_constraints = k, grant_token_hash = dg tok,
        grant_expires_at = now + ttl, grant_max_uses = 100, grant_use_count = 0,
        grant_last_used_at = None, grant_revoked_at = None, grant_created_at = now\<rparr> s = (Inr g, s)"
  then have "grant_id g = gid" "grant_use_count g \<le> grant_max_uses g" by (auto split: if_splits)
  then have "grants_advance s (snd (save_grant g s))"
    using assms by (intro save_grant_advance) simp_all
  then show "grants_advance s (snd (sbind (save_grant g) (\<lambda>saved.
      sbind (record_security_event now aid ''connector.grant'' Allowed Actor_System (grant_id g)
        (Some (run_id r)) (Some (run_computer_id r)) (p @ '':'' @ join_with '','' a)) (\<lambda>_.
      sreturn (saved, tok))) s))"
    by (rule grants_order.at_bind) (intro grants_order.of_bind; auto intro: within_same_grants)
qed

text \<open>Revoking walks over the listed grants; each is still what the listing returned when it is written,
  because their ids differ.\<close>

lemma grant_loop_advance:
  assumes step: "\<And>i g s. grants_ok (grants s) \<Longrightarrow> map_of (docs (grants s)) (grant_id g) = Some g \<Longrightarrow>
      grants_advance s (snd (f (i, g) s)) \<and>
      (\<forall>k. k \<noteq> grant_id g \<longrightarrow> map_of (docs (grants (snd (f (i, g) s)))) k = map_of (docs (grants s)) k)"
    and "grants_ok (grants s)" and "distinct (map grant_id gs)"
    and "\<forall>g \<in> set gs. map_of (docs (grants s)) (grant_id g) = Some g"
  shows "grants_advance s (snd (smapM f (List.enumerate n gs) s))"
  using assms(2-)
proof (induction gs arbitrary: n s)
  case Nil
  show ?case by (simp add: grants_order.R_refl)
next
  case (Cons g gs)
  obtain q t where t: "f (n, g) s = (q, t)" by (cases "f (n, g) s")
  have g: "map_of (docs (grants s)) (grant_id g) = Some g" using Cons.prems(3) by simp
  have st: "grants_advance s t"
    and other: "\<And>k. k \<noteq> grant_id g \<Longrightarrow> map_of (docs (grants t)) k = map_of (docs (grants s)) k"
    using step [OF Cons.prems(1) g, of n] t by (simp_all del: map_of_eq_Some_iff)
  have ok: "grants_ok (grants t)" using st Cons.prems(1) by (simp add: grants_advance_def)
  have "\<forall>h \<in> set gs. map_of (docs (grants t)) (grant_id h) = Some h"
  proof
    fix h assume h: "h \<in> set gs"
    have "grant_id g \<notin> grant_id ` set gs" using Cons.prems(2) by simp
    moreover have "grant_id h \<in> grant_id ` set gs" using h by (rule imageI)
    ultimately have "grant_id h \<noteq> grant_id g" by metis
    then show "map_of (docs (grants t)) (grant_id h) = Some h"
      using other Cons.prems(3) h by (simp del: map_of_eq_Some_iff)
  qed
  then have rest: "grants_advance t (snd (smapM f (List.enumerate (Suc n) gs) t))"
    using Cons.IH [OF ok] Cons.prems(2) by simp
  show ?case
  proof (cases q)
    case (Inl e)
    then show ?thesis using t st by simp
  next
    case (Inr y)
    have "snd (smapM f (List.enumerate n (g # gs)) s) = snd (smapM f (List.enumerate (Suc n) gs) t)"
      using t Inr by (simp add: sbind_def split: prod.split sum.split)
    then show ?thesis using grants_order.R_trans [OF st rest] by simp
  qed
qed

text \<open>One revocation with its audit record.\<close>

lemma revoke_step:
  assumes ok: "grants_ok (grants s)" and g: "map_of (docs (grants s)) (grant_id g) = Some g"
    and audit: "\<And>x. within same_grants (h x)"
  shows "grants_advance s (snd (sbind (save_grant (g\<lparr>grant_revoked_at := Some now\<rparr>)) h s)) \<and>
    (\<forall>k. k \<noteq> grant_id g \<longrightarrow>
       map_of (docs (grants (snd (sbind (save_grant (g\<lparr>grant_revoked_at := Some now\<rparr>)) h s)))) k =
       map_of (docs (grants s)) k)"
proof -
  let ?g = "g\<lparr>grant_revoked_at := Some now\<rparr>"
  obtain q u where u: "save_grant ?g s = (q, u)" by (cases "save_grant ?g s")
  have "grants_advance s (snd (save_grant ?g s))"
    using g stored_grant_id [OF ok g]
    by (intro save_grant_advance) (simp_all add: grant_le_def del: map_of_eq_Some_iff)
  then have adv: "grants_advance s (snd (sbind (save_grant ?g) h s))"
    by (rule grants_order.at_bind) (rule within_same_grants [OF audit])
  have "grants (snd (sbind (save_grant ?g) h s)) = grants u"
    using u withinD [OF audit, of u] by (cases q) (simp_all add: same_grants_def)
  moreover have "grants u = snd (coll_save grant_model ?g (grants s))"
    using u by (metis (mono_tags, lifting) local_store.select_convs(5) local_store.surjective
        local_store.update_convs(5) save_grant_def snd_conv zoom_snd)
  ultimately show ?thesis using adv by (simp add: coll_save_def grant_model_def)
qed

lemma revoke_for_run_advance: "within grants_advance (revoke_for_run now rid aid)"
proof -
  have "grants_advance s (snd (revoke_for_run now rid aid s))" for s
  proof (cases "grants_ok (grants s)")
    case ok: True
    show ?thesis unfolding revoke_for_run_def
    proof (rule grants_order.at_read [OF reads_typed(9)])
      fix gs assume "list_grants (Some rid) s = (Inr gs, s)"
      then have "\<exists>c. coll_children grant_model rid (grants s) = (Inr gs, c)"
        by (auto simp: list_grants_def zoom_def split: prod.splits)
      then obtain c where c: "coll_children grant_model rid (grants s) = (Inr gs, c)" by blast
      have inv: "coll_inv grant_model (grants s)" using ok by (simp add: grants_ok_def)
      have st: "distinct (map grant_id gs)"
        "\<forall>g \<in> set gs. map_of (docs (grants s)) (grant_id g) = Some g"
        using coll_children_stored [OF inv _ c]
        by (simp_all add: grant_model_def del: map_of_eq_Some_iff)
      show "grants_advance s (snd (sbind (smapM (\<lambda>(i, g).
          sbind (save_grant (g\<lparr>grant_revoked_at := Some now\<rparr>)) (\<lambda>_.
          record_security_event now (aid i) ''connector.revoke'' Done_Outcome Actor_System (grant_id g)
            (Some rid) (Some (grant_computer_id g)) []))
          (List.enumerate 0 (filter (\<lambda>g. grant_revoked_at g = None) gs))) (\<lambda>_. sreturn ()) s))"
      proof (rule grants_order.at_bind, rule grant_loop_advance)
        fix i g and u :: local_store
        assume "grants_ok (grants u)" "map_of (docs (grants u)) (grant_id g) = Some g"
        from revoke_step [OF this, of
            "\<lambda>_. record_security_event now (aid i) ''connector.revoke'' Done_Outcome Actor_System
               (grant_id g) (Some rid) (Some (grant_computer_id g)) []" now]
        show "grants_advance u (snd ((case (i, g) of (i, g) \<Rightarrow>
            sbind (save_grant (g\<lparr>grant_revoked_at := Some now\<rparr>)) (\<lambda>_.
            record_security_event now (aid i) ''connector.revoke'' Done_Outcome Actor_System
              (grant_id g) (Some rid) (Some (grant_computer_id g)) [])) u)) \<and>
          (\<forall>k. k \<noteq> grant_id g \<longrightarrow> map_of (docs (grants (snd ((case (i, g) of (i, g) \<Rightarrow>
            sbind (save_grant (g\<lparr>grant_revoked_at := Some now\<rparr>)) (\<lambda>_.
            record_security_event now (aid i) ''connector.revoke'' Done_Outcome Actor_System
              (grant_id g) (Some rid) (Some (grant_computer_id g)) [])) u)))) k =
            map_of (docs (grants u)) k)"
          by (simp add: grants_frame_audit)
      next
        show "distinct (map grant_id (filter (\<lambda>g. grant_revoked_at g = None) gs))"
          by (rule distinct_map_filter [OF st(1)])
      next
        show "\<forall>g \<in> set (filter (\<lambda>g. grant_revoked_at g = None) gs).
            map_of (docs (grants s)) (grant_id g) = Some g"
          using st(2) by (simp del: map_of_eq_Some_iff)
      qed (auto intro: ok)
    qed
  qed (simp add: grants_advance_def)
  then show ?thesis by (simp add: within_def)
qed

end
