(* ===== verification/Record_Order.thy ===== *)
theory Record_Order
  imports Grant_Order
begin

text \<open>
  The audit log only grows, and every operation of the control plane other than pruning and deleting
  a task moves grants and audit events forward in the orders of \<^verbatim>\<open>Grant_Order\<close> and of this theory.
\<close>

definition audit_advance :: "local_store \<Rightarrow> local_store \<Rightarrow> bool" where
  "audit_advance s t \<longleftrightarrow> (coll_inv audit_model (audit s) \<longrightarrow> coll_inv audit_model (audit t) \<and>
     (\<forall>i a. map_of (docs (audit s)) i = Some a \<longrightarrow> map_of (docs (audit t)) i = Some a))"

definition records_advance :: "local_store \<Rightarrow> local_store \<Rightarrow> bool" where
  "records_advance s t \<longleftrightarrow> grants_advance s t \<and> audit_advance s t"

interpretation audit_order: state_order audit_advance
  by unfold_locales (simp_all add: audit_advance_def)

interpretation records_order: state_order records_advance
proof
  fix s t u :: local_store
  show "records_advance s s"
    by (simp add: records_advance_def grants_order.R_refl audit_order.R_refl)
  assume "records_advance s t" "records_advance t u"
  then show "records_advance s u"
    unfolding records_advance_def using grants_order.R_trans audit_order.R_trans by blast
qed

lemma within_records: "within grants_advance m \<Longrightarrow> within audit_advance m \<Longrightarrow> within records_advance m"
  by (simp add: within_def records_advance_def)

section \<open>Store methods\<close>

lemma records_zoom [intro]:
  "within records_advance (on_computers m1)" "within records_advance (on_tasks m2)"
  "within records_advance (on_runs m3)" "within records_advance (on_workspaces m4)"
  "within records_advance (on_commands m6)" "within records_advance (on_runtime_credentials m7)"
  "within records_advance (on_registration_credentials m8)"
  "within records_advance (on_run_credentials m9)"
  by (rule within_zoom_other,
      auto simp: records_advance_def grants_advance_def audit_advance_def simp del: map_of_eq_Some_iff)+

lemma records_typed [intro]:
  "within records_advance (save_computer now c)" "within records_advance (save_task now t)"
  "within records_advance (save_run now r)" "within records_advance (save_workspace now w)"
  "within records_advance (save_command k)" "within records_advance (save_runtime_credential rc)"
  "within records_advance (save_registration_credential gc)"
  "within records_advance (save_run_credential tc)"
  "within records_advance (consume_registration_credential h now)"
  by (auto simp: op_defs consume_registration_credential_def)

lemma missing_audit:
  assumes "stry_key (coll_get audit_model i) c = (Inr None, c')"
  shows "c' = c \<and> map_of (docs c) i = None"
  using assms
  by (auto simp: coll_get_def lookup_doc_def stry_key_def invalid_id_def
      simp del: map_of_eq_Some_iff split: if_splits option.splits)

lemma save_audit_advance: "within audit_advance (save_audit_event a)"
proof -
  have "audit_advance s (snd (save_audit_event a s))" for s
  proof -
    let ?m = "sbind (stry_key (coll_get audit_model (audit_id a))) (\<lambda>found. case found of
        None \<Rightarrow> coll_save audit_model a
      | Some _ \<Rightarrow> sraise (ValueError ''security audit events are append-only''))"
    have "snd (?m (audit s)) = audit s \<or>
      (map_of (docs (audit s)) (audit_id a) = None \<and> snd (?m (audit s)) = snd (coll_save audit_model a (audit s)))"
    proof (cases "stry_key (coll_get audit_model (audit_id a)) (audit s)")
      case (Pair q c)
      have c: "c = audit s" using Pair reads_state [OF reads_stry_key [OF reads_coll(1)]] by blast
      show ?thesis
      proof (cases q)
        case (Inr found)
        then show ?thesis using Pair c missing_audit by (cases found) (auto simp del: map_of_eq_Some_iff)
      qed (use Pair c in simp)
    qed
    moreover have "coll_inv audit_model (audit s) \<Longrightarrow>
        coll_inv audit_model (snd (coll_save audit_model a (audit s)))"
      by (rule coll_save_inv)
    moreover have "m_id audit_model a = audit_id a" by (simp add: audit_model_def)
    ultimately have "coll_inv audit_model (audit s) \<Longrightarrow> coll_inv audit_model (snd (?m (audit s))) \<and>
        (\<forall>i x. map_of (docs (audit s)) i = Some x \<longrightarrow> map_of (docs (snd (?m (audit s)))) i = Some x)"
      by (elim disjE conjE) (simp_all add: coll_save_view del: map_of_eq_Some_iff)
    then show ?thesis by (simp add: audit_advance_def save_audit_event_def zoom_snd)
  qed
  then show ?thesis by (simp add: within_def)
qed

lemma audit_record [intro]: "within audit_advance (record_security_event now aid a b c d e f g)"
  unfolding record_security_event_def by (intro audit_order.of_bind save_audit_advance) auto

lemma records_audit [intro]: "within records_advance (record_security_event now aid a b c d e f g)"
  by (rule within_records [OF within_same_grants [OF grants_frame_audit] audit_record])

section \<open>Grants\<close>

lemma same_audit_advance:
  "(\<And>s. audit (snd (m s)) = audit s) \<Longrightarrow> within audit_advance m"
  by (simp add: within_def audit_advance_def)

lemma audit_save_grant [intro]: "within audit_advance (save_grant g)"
  by (rule same_audit_advance) (simp add: save_grant_def zoom_snd)

lemma records_authorize [intro]: "within records_advance (authorize dg now gid tok act k cid aid)"
proof (rule within_records [OF authorize_advance])
  show "within audit_advance (authorize dg now gid tok act k cid aid)"
    unfolding authorize_def update_grant_def
    by (intro audit_order.of_bind audit_order.of_catch audit_order.of_prod)
      (auto split: error.splits intro!: audit_order.of_bind)
qed

lemma records_revoke [intro]: "within records_advance (revoke_for_run now rid aids)"
proof (rule within_records [OF revoke_for_run_advance])
  show "within audit_advance (revoke_for_run now rid aids)"
    unfolding revoke_for_run_def
    by (intro audit_order.of_bind audit_order.of_mapM audit_order.of_prod) auto
qed

lemma records_issue:
  assumes "map_of (docs (grants s)) gid = None"
  shows "records_advance s (snd (issue dg now rid p c a k ttl gid tok aid s))"
proof -
  have "within audit_advance (issue dg now rid p c a k ttl gid tok aid)"
    unfolding issue_def by (intro audit_order.of_bind) auto
  then show ?thesis using issue_advance [OF assms] by (simp add: records_advance_def withinD)
qed

section \<open>Every other operation\<close>

lemmas records_rules = records_order.of_bind records_order.of_if records_order.of_option
  records_order.of_prod records_order.of_mapM records_order.of_try records_order.of_catch

lemma records_files [intro]:
  "within records_advance (write_local_computer_name n)"
  by (simp add: within_def write_local_computer_name_def records_advance_def grants_advance_def
      audit_advance_def)

lemma records_update_run_with [intro]:
  "(\<And>r. within records_advance (f r)) \<Longrightarrow> within records_advance (update_run_with now i f)"
  unfolding update_run_with_def by (intro records_rules) auto

lemma records_update_run [intro]: "within records_advance (update_run now i f)"
  unfolding update_run_def by (intro records_rules records_update_run_with) auto

lemma records_computers [intro]:
  "within records_advance (heartbeat now c n)" "within records_advance (rename_computer now c nm)"
  "within records_advance (revoke_computer now c)"
  "within records_advance (expire_stale_computers now l)"
  unfolding heartbeat_def rename_computer_def revoke_computer_def expire_stale_computers_def Let_def
  by (intro records_rules; auto)+

lemma records_list_computers [intro]: "within records_advance (list_computer_page now l)"
  unfolding list_computer_page_def by (intro records_rules) auto

lemma records_eligible [intro]: "within records_advance (eligible_computers now l p sc e)"
  unfolding eligible_computers_def by (intro records_rules) auto

lemma records_tokens [intro]:
  "within records_advance (issue_registration_token dg now t)"
  "within records_advance (register_runtime dg now t n caps i rt aid)"
  "within records_advance (issue_run_token dg now r t)"
  "within records_advance (refresh_task_commands now t p)"
  unfolding issue_registration_token_def register_runtime_def require_protocol_def issue_run_token_def
    refresh_task_commands_def
  by (intro records_rules; auto)+

lemma records_create_task_run [intro]: "within records_advance (create_task_run t r wss)"
  unfolding create_task_run_def by (intro records_rules) auto

lemma records_placement [intro]:
  "within records_advance (create_run now l tid ti pr p req cid e sa setup rid wid)"
  "within records_advance (continue_task now l tid prev rid wid)"
  "within records_advance (reassign_queued_run now l i target aid)"
  unfolding create_run_def continue_task_def reassign_queued_run_def Let_def
  by (intro records_rules; auto)+

lemma records_workspaces [intro]:
  "within records_advance (attach_prepared_workspaces now r p wid)"
  "within records_advance (release_workspaces now r)"
  unfolding attach_prepared_workspaces_def release_workspaces_def
  by (intro records_rules; auto)+

lemma records_sessions [intro]:
  "within records_advance (set_run_status now i st err)"
  "within records_advance (sync_session now l ses)"
  "within records_advance (migrate_session now l ses p wid)"
  unfolding set_run_status_def sync_session_def migrate_session_def migrated_task_def Let_def
  by (intro records_rules records_update_run; auto)+

lemma records_claim_run [intro]: "within records_advance (claim_run now cid l e)"
  unfolding claim_run_def by (intro records_rules) auto

lemma records_expire [intro]: "within records_advance (expire_leases now)"
  unfolding expire_leases_def by (intro records_rules) auto

lemma records_acquire [intro]: "within records_advance (acquire_lease now cid l)"
  unfolding acquire_lease_def by (intro records_rules) auto

lemma records_commands [intro]:
  "within records_advance (queue_command now r k pl key i)"
  "within records_advance (claim_commands now i c l ep)"
  "within records_advance (acknowledge_command now r i c l ep res err)"
  unfolding queue_command_def claim_commands_def acknowledge_command_def command_of_run_def
  by (intro records_rules records_update_run_with; auto)+

lemma records_recover [intro]: "within records_advance (recover_run now i c a)"
  unfolding recover_run_def apply_recovery_def
  by (intro records_rules records_update_run_with) auto

lemma records_applier [intro]:
  "within records_advance (applier pystr parse project now ids ev r)"
proof -
  have "within records_advance (accept_workspace parse project now ids ev r)"
    unfolding accept_workspace_def
    by (auto split: json.splits list.splits intro!: records_rules)
  moreover have "within records_advance (accept_update project now ids r)"
    unfolding accept_update_def by (intro records_rules) auto
  moreover have "within records_advance (accept_turn_completed pystr project ev)"
    unfolding accept_turn_completed_def by (intro records_rules) auto
  ultimately show ?thesis
    unfolding applier_def by (intro records_order.of_bind) (auto split: event_kind.splits)
qed

lemma records_accept [intro]:
  "within records_advance (accept_event pystr now ev (applier pystr parse project now ids ev))"
  unfolding accept_event_def by (intro records_rules records_update_run_with) auto

end
