(* ===== verification/Control_Trace.thy ===== *)
theory Control_Trace
  imports Record_Order
begin

text \<open>
  Histories of the control plane. A \<open>cp_op\<close> is one call of a service method that writes the store, with
  its arguments, its clock reading and the fresh values it draws; \<open>perform\<close> runs it. A \<open>cp_trace\<close> is any
  sequence of such calls, failing ones included, in any order and with any clock readings. Pruning
  and deleting a task are not calls of a trace: they remove records on purpose and have their own
  lemmas.
\<close>

text \<open>What the calls share: the digest, \<open>str()\<close> on a non-string, pydantic's workspace parser and the id of
  the local computer.\<close>

record cp_env =
  env_digest :: "string \<Rightarrow> string"
  env_pystr :: "json \<Rightarrow> string"
  env_parse :: "json \<Rightarrow> task_workspace result"
  env_local :: string

datatype cp_op =
    Heartbeat time string int
  | List_Computers time
  | Rename time string string
  | Revoke_Computer time string
  | Issue_Registration time string
  | Register time string string computer_capabilities string string string
  | Issue_Run_Token time string string
  | Create time string string string "code_project option" "string list option" "string option" string
      "string option" "repository_setup option" string "nat \<Rightarrow> string"
  | Refresh time string code_project
  | Set_Status time string run_status "string option"
  | Continue time string string string "nat \<Rightarrow> string"
  | Attach time string "task_workspace list" "nat \<Rightarrow> string"
  | Release time string
  | Migrate time coding_session "code_project option" "nat \<Rightarrow> string"
  | Sync time coding_session
  | Expire_Leases time
  | Acquire time string string
  | Accept time runtime_event "unit result" "nat \<Rightarrow> string"
  | Queue time string string payload string string
  | Claim time string string string int
  | Acknowledge time string string string string int "payload option" "string option"
  | Recover time string "string option" bool
  | Reassign time string string string
  | Issue_Grant time string string string "string list" "(string \<times> string) list" time string string string
  | Authorize time string string string "(string \<times> string) list" "string option" string
  | Revoke_Grants time string "nat \<Rightarrow> string"

definition discard :: "('s, 'a) comp \<Rightarrow> ('s, unit) comp" where
  "discard m = sbind m (\<lambda>_. sreturn ())"

fun perform :: "cp_env \<Rightarrow> cp_op \<Rightarrow> (local_store, unit) comp" where
  "perform e (Heartbeat now c n) = discard (heartbeat now c n)"
| "perform e (List_Computers now) = discard (list_computer_page now (env_local e))"
| "perform e (Rename now c nm) = discard (rename_computer now c nm)"
| "perform e (Revoke_Computer now c) = revoke_computer now c"
| "perform e (Issue_Registration now t) = discard (issue_registration_token (env_digest e) now t)"
| "perform e (Register now t nm caps i rt aid) =
     discard (register_runtime (env_digest e) now t nm caps i rt aid)"
| "perform e (Issue_Run_Token now rid t) = discard (issue_run_token (env_digest e) now rid t)"
| "perform e (Create now tid ti pr p req cid eng sa setup rid wid) =
     discard (create_run now (env_local e) tid ti pr p req cid eng sa setup rid wid)"
| "perform e (Refresh now tid p) = discard (refresh_task_commands now tid p)"
| "perform e (Set_Status now rid st err) = discard (set_run_status now rid st err)"
| "perform e (Continue now tid prev rid wid) =
     discard (continue_task now (env_local e) tid prev rid wid)"
| "perform e (Attach now rid tws wid) = discard (attach_prepared_workspaces now rid tws wid)"
| "perform e (Release now rid) = discard (release_workspaces now rid)"
| "perform e (Migrate now ses p wid) = discard (migrate_session now (env_local e) ses p wid)"
| "perform e (Sync now ses) = discard (sync_session now (env_local e) ses)"
| "perform e (Expire_Leases now) = expire_leases now"
| "perform e (Acquire now cid l) = discard (acquire_lease now cid l)"
| "perform e (Accept now ev project ids) = discard (accept_event (env_pystr e) now ev
     (applier (env_pystr e) (env_parse e) project now ids ev))"
| "perform e (Queue now rid k pl key i) = discard (queue_command now rid k pl key i)"
| "perform e (Claim now rid cid l ep) = discard (claim_commands now rid cid l ep)"
| "perform e (Acknowledge now rid i cid l ep res err) =
     discard (acknowledge_command now rid i cid l ep res err)"
| "perform e (Recover now rid cid a) = discard (recover_run now rid cid a)"
| "perform e (Reassign now rid cid aid) =
     discard (reassign_queued_run now (env_local e) rid cid aid)"
| "perform e (Issue_Grant now rid p c a k ttl gid t aid) =
     discard (issue (env_digest e) now rid p c a k ttl gid t aid)"
| "perform e (Authorize now gid t act k cid aid) =
     discard (authorize (env_digest e) now gid t act k cid aid)"
| "perform e (Revoke_Grants now rid aids) = revoke_for_run now rid aids"

text \<open>The two places where a write under a \<open>uuid4\<close> id is not preceded by a look at the store.\<close>

fun fresh_op :: "cp_op \<Rightarrow> local_store \<Rightarrow> bool" where
  "fresh_op (Continue now tid prev rid wid) s \<longleftrightarrow> map_of (docs (runs s)) rid = None"
| "fresh_op (Issue_Grant now rid p c a k ttl gid t aid) s \<longleftrightarrow> map_of (docs (grants s)) gid = None"
| "fresh_op _ s \<longleftrightarrow> True"

text \<open>A trace records, for each call, whether it returned.\<close>

inductive cp_trace :: "cp_env \<Rightarrow> local_store \<Rightarrow> (cp_op \<times> bool) list \<Rightarrow> local_store \<Rightarrow> bool" for e where
  trace_nil: "cp_trace e s [] s"
| trace_step: "fresh_op op s \<Longrightarrow> perform e op s = (res, t) \<Longrightarrow> cp_trace e t ops u \<Longrightarrow>
    cp_trace e s ((op, \<not> isl res) # ops) u"

inductive_cases trace_ConsE: "cp_trace e s (x # ops) u"

text \<open>The same as a function, to evaluate a concrete history.\<close>

fun run_ops :: "cp_env \<Rightarrow> cp_op list \<Rightarrow> local_store \<Rightarrow> (cp_op \<times> bool) list \<times> local_store" where
  "run_ops e [] s = ([], s)"
| "run_ops e (op # ops) s =
     (case perform e op s of (res, t) \<Rightarrow>
        case run_ops e ops t of (hist, u) \<Rightarrow> ((op, \<not> isl res) # hist, u))"

fun fresh_ops :: "cp_env \<Rightarrow> cp_op list \<Rightarrow> local_store \<Rightarrow> bool" where
  "fresh_ops e [] s \<longleftrightarrow> True"
| "fresh_ops e (op # ops) s \<longleftrightarrow> fresh_op op s \<and> fresh_ops e ops (snd (perform e op s))"

lemma run_ops_trace: "fresh_ops e ops s \<Longrightarrow> run_ops e ops s = (hist, t) \<Longrightarrow> cp_trace e s hist t"
  by (induction ops arbitrary: s hist)
    (auto intro: cp_trace.intros split: prod.splits)

section \<open>Every call moves forward\<close>

lemma snd_discard [simp]: "snd (discard m s) = snd (m s)"
  by (auto simp: discard_def sbind_def split: prod.splits sum.splits)

lemma isl_discard: "isl (fst (discard m s)) = isl (fst (m s))"
  by (auto simp: discard_def sbind_def split: prod.splits sum.splits)

lemma perform_runs: "fresh_op op s \<Longrightarrow> runs_advance s (snd (perform e op s))"
  by (cases op)
    (auto intro: withinD [OF within_same_runs] withinD [OF set_run_status_advance]
      withinD [OF sync_session_advance] withinD [OF expire_leases_advance]
      withinD [OF reassign_advance] withinD [OF recover_run_advance]
      withinD [OF claim_commands_advance] withinD [OF accept_event_advance]
      withinD [OF acquire_lease_advance] withinD [OF create_run_advance]
      withinD [OF migrate_session_advance] continue_task_advance)

lemma perform_records: "fresh_op op s \<Longrightarrow> records_advance s (snd (perform e op s))"
  by (cases op) (auto intro: withinD records_issue)

lemma trace_runs: "cp_trace e s ops t \<Longrightarrow> runs_advance s t"
proof (induction rule: cp_trace.induct)
  case (trace_step op s res t ops u)
  then show ?case using perform_runs [of op s e] by (auto intro: runs_order.R_trans)
qed (rule runs_order.R_refl)

lemma trace_records: "cp_trace e s ops t \<Longrightarrow> records_advance s t"
proof (induction rule: cp_trace.induct)
  case (trace_step op s res t ops u)
  then show ?case using perform_records [of op s e] by (auto intro: records_order.R_trans)
qed (rule records_order.R_refl)

end
