(* ===== verification/Trace_Properties.thy ===== *)
theory Trace_Properties
  imports Control_Trace
begin

text \<open>
  What holds between two moments of a history: a runtime event is applied at most once, a superseded
  execution stays fenced, a grant is never used more often than it allows or after it was revoked.
\<close>

section \<open>Taking a successful call apart\<close>

lemma sbind_read_elim:
  assumes "sbind m f s = (Inr y, t)" and "reads m"
  obtains x where "m s = (Inr x, s)" and "f x s = (Inr y, t)"
  using assms(1)
proof (rule sbind_Inr_elim)
  fix x u assume "m s = (Inr x, u)" "f x u = (Inr y, t)"
  moreover from this have "u = s" using reads_state [OF assms(2)] by blast
  ultimately show thesis using that by simp
qed

lemma scatch_Inr_reraise:
  assumes "scatch m h s = (Inr x, t)" and "\<And>e u. isl (fst (h e u))"
  shows "m s = (Inr x, t)"
proof (cases "m s")
  case (Pair r u)
  show ?thesis
  proof (cases r)
    case (Inl e)
    then have "h e u = (Inr x, t)" using assms(1) Pair by simp
    then show ?thesis using assms(2) [of e u] by simp
  qed (use assms(1) Pair in simp)
qed

lemma isl_sbind_sraise: "isl (fst (sbind m (\<lambda>_. sraise e) s))"
  by (simp add: sbind_def split: prod.split sum.split)

lemma discard_Inr:
  assumes "discard m s = (Inr u, t)"
  obtains x where "m s = (Inr x, t)"
  using assms unfolding discard_def by (rule sbind_Inr_elim) (simp add: that)

section \<open>Runs along a trace\<close>

lemma trace_run:
  assumes "cp_trace e s ops u" and "runs_ok (runs s)" and "map_of (docs (runs s)) i = Some r"
  obtains r' where "map_of (docs (runs u)) i = Some r'" "run_task_id r' = run_task_id r" "run_le r r'"
    "runs_ok (runs u)"
  using trace_runs [OF assms(1)] assms(2,3) unfolding runs_advance_def run_moves_def by blast

lemma get_run_stored:
  assumes "map_of (docs (runs u)) i = Some r" and "runs_ok (runs u)"
  shows "get_run i u = (if valid_run r then Inr r else Inl (ValidationError ''TaskRun''), u)"
proof -
  have "path_ok i" using assms unfolding runs_ok_def coll_inv_def by blast
  then show ?thesis
    using assms(1) by (simp add: get_run_def zoom_def coll_get_def lookup_doc_def run_model_def)
qed

section \<open>Accepting an event\<close>

lemma accept_operation_position:
  assumes "accept_operation pystr now ev r = Inr r'"
  shows "run_epoch r' = ev_epoch ev \<and> run_last_event_seq r' = ev_seq ev"
  using assms
proof (cases rule: accept_operation_cases)
  case again
  then show ?thesis by (simp add: redelivered_def)
next
  case (fresh r2)
  have "run_epoch r = ev_epoch ev" using fresh(3) by (simp add: require_fence_Inr)
  then show ?thesis using apply_event_frame [OF fresh(4)] fresh(5) by (simp add: accept_finish_def)
qed

lemma save_run_view:
  "map_of (docs (runs (snd (save_run now r s)))) =
     (if path_ok (run_id r) then (map_of (docs (runs s)))(run_id r \<mapsto> r\<lparr>run_updated_at := now\<rparr>)
      else map_of (docs (runs s)))"
  by (simp add: save_run_def zoom_snd coll_save_view) (simp add: run_model_def)

lemma update_run_with_result:
  assumes "update_run_with now i f s = (Inr (saved, x), t)" and ok: "runs_ok (runs s)"
    and frame: "\<And>r. within same_runs (f r)"
    and con: "\<And>r u r' x v. f r u = (Inr (r', x), v) \<Longrightarrow> run_id r' = run_id r"
  obtains r r' v where "map_of (docs (runs s)) i = Some r" "f r s = (Inr (r', x), v)"
    "map_of (docs (runs t)) i = Some r' \<or>
     map_of (docs (runs t)) i = Some (r'\<lparr>run_updated_at := now\<rparr>)"
proof -
  obtain r where r: "get_run i s = (Inr r, s)" and rest: "sbind (f r) (\<lambda>(r', x).
      if r' = r then sreturn (r, x) else sbind (save_run now r') (\<lambda>saved. sreturn (saved, x))) s
      = (Inr (saved, x), t)"
    using assms(1) unfolding update_run_with_def by (rule sbind_read_elim) (rule reads_typed(5))
  have st: "map_of (docs (runs s)) i = Some r" using get_run_Inr [OF r] by blast
  have pi: "path_ok i" using st ok unfolding runs_ok_def coll_inv_def by blast
  obtain p v where v: "f r s = (Inr p, v)" and cont: "(case p of (r', x) \<Rightarrow>
      if r' = r then sreturn (r, x) else sbind (save_run now r') (\<lambda>saved. sreturn (saved, x))) v
      = (Inr (saved, x), t)"
    using rest by (rule sbind_Inr_elim)
  obtain r' y where p: "p = (r', y)" by (cases p)
  have id: "run_id r' = i" using con v p stored_run_id [OF ok st] by metis
  have same: "runs v = runs s" using within_pair [OF frame v] by (simp add: same_runs_def)
  show thesis
  proof (cases "r' = r")
    case True
    then have "t = v" "y = x" using cont p by auto
    then show thesis using that [OF st] v p True st same by (simp del: map_of_eq_Some_iff)
  next
    case False
    then have eq: "sbind (save_run now r') (\<lambda>saved. sreturn (saved, y)) v = (Inr (saved, x), t)"
      using cont p by simp
    then have "y = x" "t = snd (save_run now r' v)" by (auto elim!: sbind_Inr_elim)
    then show thesis using that [OF st] v p id pi save_run_view [of now r' v] by simp
  qed
qed

lemma accept_event_position:
  assumes "accept_event pystr now ev (applier pystr parse project now ids ev) s = (Inr r, t)"
    and ok: "runs_ok (runs s)"
  obtains r' where "map_of (docs (runs t)) (ev_run_id ev) = Some r'" "run_epoch r' = ev_epoch ev"
    "run_last_event_seq r' = ev_seq ev"
proof -
  let ?f = "\<lambda>r. sbind (slift (accept_begin pystr now ev r)) (\<lambda>(again, r1).
      if again then sreturn (r1, ())
      else sbind (applier pystr parse project now ids ev r1)
        (\<lambda>r2. sreturn (accept_finish ev r2, ())))"
  have op: "accept_operation pystr now ev r0 = Inr r'" if "?f r0 u = (Inr (r', x), v)" for r0 u r' x v
    using that by (auto simp: accept_operation_def applier_def elim!: sbind_Inr_elim split: if_splits)
  from assms(1) obtain saved x where up: "update_run_with now (ev_run_id ev) ?f s = (Inr (saved, x), t)"
    unfolding accept_event_def by (auto elim!: sbind_Inr_elim split: if_splits)
  from up ok obtain r0 r' v where f: "?f r0 s = (Inr (r', x), v)"
    and st: "map_of (docs (runs t)) (ev_run_id ev) = Some r' \<or>
       map_of (docs (runs t)) (ev_run_id ev) = Some (r'\<lparr>run_updated_at := now\<rparr>)"
  proof (rule update_run_with_result)
    show "within same_runs (?f r)" for r by (auto intro!: frame_rules)
    show "run_id r' = run_id r" if "?f r u = (Inr (r', x), v)" for r u r' x v
      using accept_contract [OF op [OF that]] by (simp add: contract_def)
  qed (rule that)
  have pos: "run_epoch r' = ev_epoch ev \<and> run_last_event_seq r' = ev_seq ev"
    by (rule accept_operation_position [OF op [OF f]])
  from st show thesis
  proof
    assume "map_of (docs (runs t)) (ev_run_id ev) = Some r'"
    then show thesis by (rule that) (simp_all add: pos)
  next
    assume "map_of (docs (runs t)) (ev_run_id ev) = Some (r'\<lparr>run_updated_at := now\<rparr>)"
    then show thesis by (rule that) (simp_all add: pos)
  qed
qed

section \<open>Stale and superseded callers\<close>

text \<open>An event at or before the run's position, or of an older epoch, leaves the whole store alone, no
  matter which side effects come with it.\<close>

lemma old_event_no_effect:
  assumes st: "map_of (docs (runs u)) (ev_run_id ev) = Some r" and ok: "runs_ok (runs u)"
    and old: "ev_epoch ev < run_epoch r \<or> (ev_epoch ev = run_epoch r \<and> ev_seq ev \<le> run_last_event_seq r)"
  shows "snd (accept_event pystr now ev ap u) = u"
proof -
  have "(\<exists>e. accept_begin pystr now ev r = Inl e) \<or> accept_begin pystr now ev r = Inr (True, r)"
    using old
    by (auto simp: accept_begin_def Let_def require_fence_def require_event_owner_def
        split: sum.splits option.splits)
  then show ?thesis
    using get_run_stored [OF st ok]
    by (auto simp: accept_event_def update_run_with_def sbind_def)
qed

lemma superseded_fence:
  assumes "ep < run_epoch r"
  shows "require_fence now r c l ep = Inl (StaleRuntimeEvent ''Task Run ownership changed'')"
  using assms by (simp add: require_fence_def require_event_owner_def)

lemma superseded_calls:
  assumes st: "map_of (docs (runs u)) i = Some r" and ok: "runs_ok (runs u)" and old: "ep < run_epoch r"
  shows "\<exists>x. claim_commands now i c l ep u = (Inl x, u)"
    and "\<exists>x. acknowledge_command now i k c l ep res err u = (Inl x, u)"
  using get_run_stored [OF st ok] superseded_fence [OF old]
  by (auto simp: claim_commands_def acknowledge_command_def update_run_with_def sbind_def)

lemma superseded_event:
  assumes st: "map_of (docs (runs u)) (ev_run_id ev) = Some r" and ok: "runs_ok (runs u)"
    and old: "ev_epoch ev < run_epoch r"
  shows "\<exists>x. accept_event pystr now ev ap u = (Inl x, u)"
proof -
  have "\<exists>x. accept_begin pystr now ev r = Inl x"
    using old superseded_fence [OF old]
    by (auto simp: accept_begin_def require_event_owner_def)
  then show ?thesis
    using get_run_stored [OF st ok] by (auto simp: accept_event_def update_run_with_def sbind_def)
qed

section \<open>Grants along a trace\<close>

lemma trace_grant:
  assumes "cp_trace e s ops u" and "grants_ok (grants s)" and "map_of (docs (grants s)) i = Some g"
  obtains g' where "map_of (docs (grants u)) i = Some g'" "grant_le g g'" "grants_ok (grants u)"
  using trace_records [OF assms(1)] assms(2,3) unfolding records_advance_def grants_advance_def by blast

lemma update_grant_result:
  assumes "update_grant gid f s = (Inr (g', r), t)" and ok: "grants_ok (grants s)"
    and id: "\<And>g r g'. f g r = Inr g' \<Longrightarrow> grant_id g' = grant_id g"
  obtains g where "map_of (docs (grants s)) gid = Some g"
    "map_of (docs (runs s)) (grant_run_id g) = Some r" "f g r = Inr g'"
    "map_of (docs (grants t)) gid = Some g'"
proof -
  obtain g where g: "get_grant gid s = (Inr g, s)" and rest: "sbind (get_run (grant_run_id g)) (\<lambda>r.
      sbind (slift (f g r)) (\<lambda>g'. sbind (save_grant g') (\<lambda>saved. sreturn (saved, r)))) s = (Inr (g', r), t)"
    using assms(1) unfolding update_grant_def by (rule sbind_read_elim) (rule reads_typed(8))
  obtain r0 where r: "get_run (grant_run_id g) s = (Inr r0, s)" and rest2: "sbind (slift (f g r0))
      (\<lambda>g'. sbind (save_grant g') (\<lambda>saved. sreturn (saved, r0))) s = (Inr (g', r), t)"
    using rest by (rule sbind_read_elim) (rule reads_typed(5))
  obtain h where h: "f g r0 = Inr h" and w: "sbind (save_grant h) (\<lambda>saved. sreturn (saved, r0)) s = (Inr (g', r), t)"
    using rest2 by (auto elim!: sbind_Inr_elim)
  have st: "map_of (docs (grants s)) gid = Some g" using get_grant_Inr [OF g] by blast
  have hid: "grant_id h = gid" using id [OF h] stored_grant_id [OF ok st] by simp
  have p: "path_ok gid" using st ok unfolding grants_ok_def coll_inv_def by blast
  have sv: "save_grant h s = (Inr h, snd (save_grant h s))"
    using hid p by (simp add: save_grant_def zoom_def coll_save_def grant_model_def)
  then have "r = r0" "g' = h" "t = snd (save_grant h s)" using w by (auto elim!: sbind_Inr_elim)
  moreover have "map_of (docs (grants (snd (save_grant h s)))) gid = Some h"
    using hid p by (simp add: save_grant_def zoom_snd coll_save_view) (simp add: grant_model_def)
  ultimately show thesis using that [OF st] get_run_Inr [OF r] h by blast
qed

text \<open>A successful authorization passed every check and used the grant once.\<close>

lemma authorize_Inr:
  assumes "authorize dg now gid tok act k cid aid s = (Inr g', t)" and ok: "grants_ok (grants s)"
  obtains g r where "map_of (docs (grants s)) gid = Some g"
    "map_of (docs (runs s)) (grant_run_id g) = Some r"
    "validate_grant_use dg now g r tok act k cid = Inr ()"
    "g' = g\<lparr>grant_use_count := grant_use_count g + 1, grant_last_used_at := Some now\<rparr>"
    "map_of (docs (grants t)) gid = Some g'"
proof -
  let ?m = "sbind (update_grant gid (authorize_grant dg now tok act k cid)) (\<lambda>(g, r).
        sbind (record_security_event now aid ''connector.invoke'' Allowed Actor_Agent (grant_id g)
                (Some (run_id r)) (Some (or_else cid (run_computer_id r)))
                (grant_provider g @ '':'' @ act)) (\<lambda>_. sreturn g))"
  obtain h where "get_grant gid s = (Inr h, s)" and run: "scatch ?m (\<lambda>e. case e of
          RuntimeAuthenticationError msg \<Rightarrow>
            sbind (record_security_event now aid ''connector.invoke'' Denied Actor_Agent gid
                    (Some (grant_run_id h)) cid msg) (\<lambda>_. sraise e)
        | _ \<Rightarrow> sraise e) s = (Inr g', t)"
    using assms(1) unfolding authorize_def by (rule sbind_read_elim) (rule reads_typed(8))
  from run have "?m s = (Inr g', t)"
    by (rule scatch_Inr_reraise) (simp add: isl_sbind_sraise split: error.split)
  then obtain p v where up: "update_grant gid (authorize_grant dg now tok act k cid) s = (Inr p, v)"
    and rec: "(case p of (g, r) \<Rightarrow>
        sbind (record_security_event now aid ''connector.invoke'' Allowed Actor_Agent (grant_id g)
                (Some (run_id r)) (Some (or_else cid (run_computer_id r)))
                (grant_provider g @ '':'' @ act)) (\<lambda>_. sreturn g)) v = (Inr g', t)"
    by (rule sbind_Inr_elim)
  obtain g1 r where p: "p = (g1, r)" by (cases p)
  let ?rec = "record_security_event now aid ''connector.invoke'' Allowed Actor_Agent (grant_id g1)
      (Some (run_id r)) (Some (or_else cid (run_computer_id r))) (grant_provider g1 @ '':'' @ act)"
  have "sbind ?rec (\<lambda>_. sreturn g1) v = (Inr g', t)" using rec unfolding p prod.case .
  then obtain y w where aud: "?rec v = (Inr y, w)" and ret: "sreturn g1 w = (Inr g', t)"
    by (rule sbind_Inr_elim)
  have g1: "g1 = g'" and w: "w = t" using ret by simp_all
  have same: "grants t = grants v"
    using within_pair [OF grants_frame_audit aud] w by (simp add: same_grants_def)
  have up': "update_grant gid (authorize_grant dg now tok act k cid) s = (Inr (g', r), v)"
    using up p g1 by simp
  show thesis
  proof (rule update_grant_result [OF up' ok])
    fix g r g' assume "authorize_grant dg now tok act k cid g r = Inr g'"
    then show "grant_id g' = grant_id g" using authorize_grant_le by blast
  next
    fix g assume g: "map_of (docs (grants s)) gid = Some g"
      "map_of (docs (runs s)) (grant_run_id g) = Some r"
      "authorize_grant dg now tok act k cid g r = Inr g'" "map_of (docs (grants v)) gid = Some g'"
    have "map_of (docs (grants t)) gid = Some g'" using g(4) unfolding same .
    then show thesis by (rule that [OF g(1,2) authorize_grant_Inr [OF g(3)]])
  qed
qed

text \<open>The calls of a history that used a grant.\<close>

fun uses_grant :: "string \<Rightarrow> cp_op \<times> bool \<Rightarrow> bool" where
  "uses_grant gid (Authorize now g t act k cid aid, returned) \<longleftrightarrow> returned \<and> g = gid"
| "uses_grant gid _ \<longleftrightarrow> False"

lemma perform_use:
  assumes "fresh_op op s" and p: "perform e op s = (res, t)" and ok: "grants_ok (grants s)"
    and g: "map_of (docs (grants s)) gid = Some g"
  obtains g' where "map_of (docs (grants t)) gid = Some g'" "grant_le g g'" "grants_ok (grants t)"
    "grant_use_count g + (if uses_grant gid (op, \<not> isl res) then 1 else 0) \<le> grant_use_count g'"
proof -
  have "records_advance s t" using perform_records [OF assms(1), of e] p by simp
  then obtain g' where g': "map_of (docs (grants t)) gid = Some g'" "grant_le g g'" "grants_ok (grants t)"
    using ok g unfolding records_advance_def grants_advance_def by blast
  show thesis
  proof (cases "uses_grant gid (op, \<not> isl res)")
    case True
    then obtain now tok act k cid aid where op: "op = Authorize now gid tok act k cid aid" and "\<not> isl res"
      by (cases "(gid, op, \<not> isl res)" rule: uses_grant.cases) auto
    then obtain h where "authorize (env_digest e) now gid tok act k cid aid s = (Inr h, t)"
      using p discard_Inr [of "authorize (env_digest e) now gid tok act k cid aid" s _ t]
      by (cases res) auto
    then obtain g0 where "map_of (docs (grants s)) gid = Some g0"
      "h = g0\<lparr>grant_use_count := grant_use_count g0 + 1, grant_last_used_at := Some now\<rparr>"
      "map_of (docs (grants t)) gid = Some h"
      using ok by (rule authorize_Inr)
    then have "grant_use_count g' = grant_use_count g + 1" using g g'(1) by simp
    then show thesis using that [OF g'] True by simp
  next
    case False
    then show thesis using that [OF g'] g'(2) by (simp add: grant_le_def)
  qed
qed

lemma trace_uses:
  assumes "cp_trace e s ops u" and "grants_ok (grants s)" and "map_of (docs (grants s)) gid = Some g"
  shows "grant_use_count g + int (length (filter (uses_grant gid) ops)) \<le> grant_max_uses g"
  using assms
proof (induction arbitrary: g rule: cp_trace.induct)
  case (trace_nil s)
  then show ?case using stored_grant_id [OF trace_nil.prems] by simp
next
  case (trace_step op s res t ops u)
  obtain g' where g': "map_of (docs (grants t)) gid = Some g'" "grant_le g g'" "grants_ok (grants t)"
    "grant_use_count g + (if uses_grant gid (op, \<not> isl res) then 1 else 0) \<le> grant_use_count g'"
    using perform_use [OF trace_step.hyps(1,2) trace_step.prems] by blast
  have "grant_use_count g' + int (length (filter (uses_grant gid) ops)) \<le> grant_max_uses g'"
    by (rule trace_step.IH [OF g'(3,1)])
  then show ?case using g'(2,4) by (auto simp: grant_le_def)
qed

section \<open>Recovery starts a new epoch\<close>

lemma recovery_fence_epoch:
  assumes "recovery_fence now target allow project r = Inr r'"
  shows "run_epoch r' = run_epoch r + 1 \<and> run_lease_id r' = None"
  using transition_run_frame(4) [OF recovery_fence_transition [OF assms]]
    transition_run_lease(1) [OF recovery_fence_transition [OF assms]]
  by simp

lemma apply_recovery_position:
  assumes run: "apply_recovery now i target allow s = (Inr r, t)" and ok: "runs_ok (runs s)"
    and r0: "map_of (docs (runs s)) i = Some r0"
  obtains r' where "map_of (docs (runs t)) i = Some r'" "run_epoch r' = run_epoch r0 + 1"
proof -
  let ?f = "\<lambda>r. sbind (if comp_id target \<noteq> run_computer_id r
      then sbind (get_task (run_task_id r)) (\<lambda>t. sreturn (task_execution_project t)) else sreturn None)
      (\<lambda>p. sbind (slift (recovery_fence now target allow p r)) (\<lambda>r'. sreturn (r', ())))"
  have op: "\<exists>p. recovery_fence now target allow p q = Inr r'" if "?f q u = (Inr (r', x), v)" for q u r' x v
    using that by (auto elim!: sbind_Inr_elim)
  from run obtain saved x u where up: "update_run_with now i ?f s = (Inr (saved, x), u)"
    and rest: "runs t = runs u"
    unfolding apply_recovery_def
  proof (elim sbind_Inr_elim)
    fix g1 u1 p u2
    assume "sguard (comp_status target = Online)
        (NoEligibleComputer ''Choose an online computer to resume this task'') s = (Inr g1, u1)"
      and up: "update_run_with now i ?f u1 = (Inr p, u2)"
      and tail: "(case p of (saved, _) \<Rightarrow> if run_resume_mode saved = Recreate
         then sbind (list_workspaces (Some (run_id saved))) (\<lambda>wss.
              sbind (smapM (\<lambda>w. save_workspace now (recreate_workspace (comp_id target) w)) wss) (\<lambda>_.
              sreturn saved))
         else sreturn saved) u2 = (Inr r, t)"
    then have "u1 = s" by simp
    moreover have fr: "within same_runs (case p of (saved, _) \<Rightarrow> if run_resume_mode saved = Recreate
         then sbind (list_workspaces (Some (run_id saved))) (\<lambda>wss.
              sbind (smapM (\<lambda>w. save_workspace now (recreate_workspace (comp_id target) w)) wss) (\<lambda>_.
              sreturn saved))
         else sreturn saved)"
      by (intro frame_rules) auto
    have "same_runs u2 t" using withinD [OF fr, of u2] unfolding tail by simp
    ultimately show thesis using that up by (cases p) (simp add: same_runs_def)
  qed
  from up ok show thesis
  proof (rule update_run_with_result)
    show "within same_runs (?f r)" for r by (auto intro!: frame_rules)
    show "run_id r' = run_id q" if "?f q u = (Inr (r', x), v)" for q u r' x v
      using op [OF that] recovery_contract by (auto simp: contract_def)
  next
    fix q r' v
    assume q: "map_of (docs (runs s)) i = Some q" and f: "?f q s = (Inr (r', x), v)"
      and st: "map_of (docs (runs u)) i = Some r' \<or>
        map_of (docs (runs u)) i = Some (r'\<lparr>run_updated_at := now\<rparr>)"
    have "run_epoch r' = run_epoch r0 + 1" using op [OF f] recovery_fence_epoch q r0 by auto
    then show thesis using st that unfolding rest by (elim disjE) simp_all
  qed
qed

lemma recover_run_position:
  assumes "recover_run now i cid allow s = (Inr r, t)" and ok: "runs_ok (runs s)"
    and r0: "map_of (docs (runs s)) i = Some r0"
  obtains r' where "map_of (docs (runs t)) i = Some r'" "run_epoch r' = run_epoch r0 + 1"
proof -
  have g: "get_run i s = (Inr r0, s)"
    using assms(1) get_run_stored [OF r0 ok] by (auto simp: recover_run_def split: if_splits)
  have id: "run_id r0 = i" using stored_run_id [OF ok r0] by simp
  have "\<exists>c. apply_recovery now i c allow s = (Inr r, t)"
    using assms(1) g id unfolding recover_run_def
    by (auto elim!: sbind_read_elim simp del: sguard_apply intro: reads_typed)
  then show thesis using apply_recovery_position [OF _ ok r0] that by blast
qed

section \<open>Revocation reaches every grant of the run\<close>

lemma revoke_loop_result:
  assumes "smapM f (List.enumerate n gs) s = (Inr ys, t)"
    and one: "\<And>i g s y v. f (i, g) s = (Inr y, v) \<Longrightarrow> path_ok (grant_id g) \<Longrightarrow>
      \<exists>g'. map_of (docs (grants v)) (grant_id g) = Some g' \<and> grant_revoked_at g' \<noteq> None"
    and adv: "\<And>i g s. grants_ok (grants s) \<Longrightarrow> map_of (docs (grants s)) (grant_id g) = Some g \<Longrightarrow>
      grants_advance s (snd (f (i, g) s)) \<and>
      (\<forall>k. k \<noteq> grant_id g \<longrightarrow> map_of (docs (grants (snd (f (i, g) s)))) k = map_of (docs (grants s)) k)"
    and "grants_ok (grants s)" and "distinct (map grant_id gs)"
    and "\<forall>g \<in> set gs. map_of (docs (grants s)) (grant_id g) = Some g"
  shows "\<forall>g \<in> set gs. \<exists>g'. map_of (docs (grants t)) (grant_id g) = Some g' \<and> grant_revoked_at g' \<noteq> None"
  using assms(1,4-)
proof (induction gs arbitrary: n s ys)
  case (Cons g gs)
  from Cons.prems(1) obtain y v ys' where y: "f (n, g) s = (Inr y, v)"
    and rest: "smapM f (List.enumerate (Suc n) gs) v = (Inr ys', t)"
    by (auto elim!: sbind_Inr_elim)
  have g: "map_of (docs (grants s)) (grant_id g) = Some g" using Cons.prems(4) by simp
  have p: "path_ok (grant_id g)" using g Cons.prems(2) unfolding grants_ok_def coll_inv_def by blast
  have a: "grants_advance s v"
    and o: "\<And>k. k \<noteq> grant_id g \<Longrightarrow> map_of (docs (grants v)) k = map_of (docs (grants s)) k"
    using adv [OF Cons.prems(2) g, of n] y by (simp_all del: map_of_eq_Some_iff)
  have ok: "grants_ok (grants v)" using a Cons.prems(2) by (simp add: grants_advance_def)
  have notin: "grant_id g \<notin> grant_id ` set gs" using Cons.prems(3) by simp
  have st: "\<forall>h \<in> set gs. map_of (docs (grants v)) (grant_id h) = Some h"
  proof
    fix h assume h: "h \<in> set gs"
    then have "grant_id h \<noteq> grant_id g" using notin by (metis imageI)
    then show "map_of (docs (grants v)) (grant_id h) = Some h"
      using o Cons.prems(4) h by (simp del: map_of_eq_Some_iff)
  qed
  have d: "distinct (map grant_id gs)" using Cons.prems(3) by simp
  have later: "grants_advance v t" using grant_loop_advance [OF adv ok d st, of "Suc n"] rest by simp
  obtain g1 where g1: "map_of (docs (grants v)) (grant_id g) = Some g1" "grant_revoked_at g1 \<noteq> None"
    using one [OF y p] by blast
  obtain g2 where g2: "map_of (docs (grants t)) (grant_id g) = Some g2" "grant_le g1 g2"
    using later ok g1(1) unfolding grants_advance_def by blast
  have "grant_revoked_at g2 \<noteq> None" using g2(2) g1(2) by (simp add: grant_le_def)
  then show ?case using g2(1) Cons.IH [OF rest ok d st] by (simp del: map_of_eq_Some_iff)
qed simp

lemma save_grant_view:
  "map_of (docs (grants (snd (save_grant g s)))) =
     (if path_ok (grant_id g) then (map_of (docs (grants s)))(grant_id g \<mapsto> g)
      else map_of (docs (grants s)))"
  by (simp add: save_grant_def zoom_snd coll_save_view) (simp add: grant_model_def)

lemma revoke_one:
  assumes "sbind (save_grant (g\<lparr>grant_revoked_at := Some now\<rparr>)) h s = (Inr y, v)"
    and "path_ok (grant_id g)" and audit: "\<And>x. within same_grants (h x)"
  shows "\<exists>g'. map_of (docs (grants v)) (grant_id g) = Some g' \<and> grant_revoked_at g' \<noteq> None"
  using assms(1)
proof (rule sbind_Inr_elim)
  fix x u assume x: "save_grant (g\<lparr>grant_revoked_at := Some now\<rparr>) s = (Inr x, u)" and h: "h x u = (Inr y, v)"
  have "grants v = grants u" using within_pair [OF audit h] by (simp add: same_grants_def)
  moreover have "map_of (docs (grants u)) (grant_id g) = Some (g\<lparr>grant_revoked_at := Some now\<rparr>)"
    using save_grant_view [of "g\<lparr>grant_revoked_at := Some now\<rparr>" s] x assms(2) by simp
  ultimately show ?thesis by simp
qed

lemma revoke_for_run_result:
  assumes run: "revoke_for_run now rid aid s = (Inr x, t)" and ok: "grants_ok (grants s)"
    and g: "map_of (docs (grants s)) gid = Some g" and rid: "grant_run_id g = rid" "rid \<noteq> []"
  shows "\<exists>g'. map_of (docs (grants t)) gid = Some g' \<and> grant_revoked_at g' \<noteq> None"
proof (cases "grant_revoked_at g")
  case None
  let ?f = "\<lambda>(i, g). sbind (save_grant (g\<lparr>grant_revoked_at := Some now\<rparr>)) (\<lambda>_.
       record_security_event now (aid i) ''connector.revoke'' Done_Outcome Actor_System (grant_id g)
         (Some rid) (Some (grant_computer_id g)) [])"
  from run obtain gs where gs: "list_grants (Some rid) s = (Inr gs, s)" and loop:
      "sbind (smapM ?f (List.enumerate 0 (filter (\<lambda>g. grant_revoked_at g = None) gs)))
         (\<lambda>_. sreturn ()) s = (Inr x, t)"
    unfolding revoke_for_run_def by (rule sbind_read_elim) (rule reads_typed(9))
  from loop obtain ys where ys:
      "smapM ?f (List.enumerate 0 (filter (\<lambda>g. grant_revoked_at g = None) gs)) s = (Inr ys, t)"
    by (rule sbind_Inr_elim) simp
  obtain c where c: "coll_children grant_model rid (grants s) = (Inr gs, c)"
    using gs by (auto simp: list_grants_def zoom_def split: prod.splits)
  have inv: "coll_inv grant_model (grants s)" using ok by (simp add: grants_ok_def)
  have st: "distinct (map grant_id gs)"
    "set gs = {d. map_of (docs (grants s)) (grant_id d) = Some d \<and> m_parent grant_model d = Some rid}"
    using coll_children_stored [OF inv _ c] by (simp_all add: grant_model_def del: map_of_eq_Some_iff)
  have id: "grant_id g = gid" using stored_grant_id [OF ok g] by simp
  have "g \<in> set (filter (\<lambda>g. grant_revoked_at g = None) gs)"
    using g id rid None st(2) by (simp add: grant_model_def parent_of_def del: map_of_eq_Some_iff)
  moreover have "\<forall>g \<in> set (filter (\<lambda>g. grant_revoked_at g = None) gs).
      \<exists>g'. map_of (docs (grants t)) (grant_id g) = Some g' \<and> grant_revoked_at g' \<noteq> None"
    by (rule revoke_loop_result [OF ys])
      (use st ok in \<open>auto simp del: map_of_eq_Some_iff intro!: distinct_map_filter
         dest!: revoke_one [OF _ _ grants_frame_audit] revoke_step [OF _ _ grants_frame_audit]\<close>)
  ultimately show ?thesis using id by blast
next
  case (Some z)
  have "grants_advance s t" using within_pair [OF revoke_for_run_advance run] .
  then obtain g' where "map_of (docs (grants t)) gid = Some g'" "grant_le g g'"
    using ok g unfolding grants_advance_def by blast
  then show ?thesis using Some by (auto simp: grant_le_def simp del: map_of_eq_Some_iff)
qed

end
