(* ===== verification/Store_Order.thy ===== *)
theory Store_Order
  imports Control_Trace
begin

text \<open>
  Every call of the control plane, and starting the service, keeps the store invariant: file names are
  document ids and the parent index lists exactly the documents of each parent, also when the call
  raises half way.
\<close>

lemmas keeps_rules = keeps_sbind keeps_if keeps_case_option keeps_case_prod keeps_smapM
  keeps_stry_key keeps_scatch

lemma keeps_audit [intro]: "keeps store_inv (record_security_event now aid a b c d e f g)"
  unfolding record_security_event_def by (intro keeps_rules) auto

lemma keeps_files [intro]:
  "keeps store_inv (write_local_computer_name n)" "keeps store_inv read_local_computer_name"
  "keeps store_inv (local_computer_id i)"
  by (auto simp: keeps_def store_inv_def write_local_computer_name_def read_local_computer_name_def
      local_computer_id_def split: option.splits)

lemma keeps_active_count [intro]: "keeps store_inv (active_count c)"
  unfolding active_count_def by (intro keeps_rules) auto

lemma keeps_computers [intro]:
  "keeps store_inv (heartbeat now c n)" "keeps store_inv (rename_computer now c nm)"
  "keeps store_inv (revoke_computer now c)" "keeps store_inv (expire_stale_computers now l)"
  "keeps store_inv (register_local now f nd caps)"
  unfolding heartbeat_def rename_computer_def revoke_computer_def expire_stale_computers_def
    register_local_def Let_def
  by (intro keeps_rules; auto)+

lemma keeps_list_computers [intro]: "keeps store_inv (list_computer_page now l)"
  unfolding list_computer_page_def by (intro keeps_rules) auto

lemma keeps_eligible [intro]: "keeps store_inv (eligible_computers now l p sc e)"
  unfolding eligible_computers_def by (intro keeps_rules) auto

lemma keeps_tokens [intro]:
  "keeps store_inv (issue_registration_token dg now t)"
  "keeps store_inv (register_runtime dg now t n caps i rt aid)"
  "keeps store_inv (issue_run_token dg now r t)" "keeps store_inv (refresh_task_commands now t p)"
  unfolding issue_registration_token_def register_runtime_def require_protocol_def issue_run_token_def
    refresh_task_commands_def
  by (intro keeps_rules; auto)+

lemma keeps_placement [intro]:
  "keeps store_inv (create_run now l tid ti pr p req cid e sa setup rid wid)"
  "keeps store_inv (continue_task now l tid prev rid wid)"
  "keeps store_inv (reassign_queued_run now l i target aid)"
  unfolding create_run_def continue_task_def reassign_queued_run_def Let_def
  by (intro keeps_rules; auto)+

lemma keeps_workspaces [intro]:
  "keeps store_inv (attach_prepared_workspaces now r p wid)"
  "keeps store_inv (release_workspaces now r)"
  unfolding attach_prepared_workspaces_def release_workspaces_def
  by (intro keeps_rules; auto)+

lemma keeps_sessions [intro]:
  "keeps store_inv (set_run_status now i st err)" "keeps store_inv (sync_session now l ses)"
  "keeps store_inv (migrate_session now l ses p wid)"
  unfolding set_run_status_def sync_session_def migrate_session_def migrated_task_def Let_def
  by (intro keeps_rules keeps_update_run; auto)+

lemma keeps_expire [intro]: "keeps store_inv (expire_leases now)"
  unfolding expire_leases_def by (intro keeps_rules) auto

lemma keeps_acquire [intro]: "keeps store_inv (acquire_lease now cid l)"
  unfolding acquire_lease_def by (intro keeps_rules) auto

lemma keeps_commands [intro]:
  "keeps store_inv (queue_command now r k pl key i)" "keeps store_inv (claim_commands now i c l ep)"
  "keeps store_inv (acknowledge_command now r i c l ep res err)"
  unfolding queue_command_def claim_commands_def acknowledge_command_def command_of_run_def
  by (intro keeps_rules keeps_update_run_with; auto)+

lemma keeps_recover [intro]: "keeps store_inv (recover_run now i c a)"
  unfolding recover_run_def apply_recovery_def
  by (intro keeps_rules keeps_update_run_with) auto

lemma keeps_grants [intro]:
  "keeps store_inv (issue dg now rid p c a k ttl gid tok aid)"
  "keeps store_inv (authorize dg now gid tok act k' cid aid)"
  "keeps store_inv (revoke_for_run now rid aids)"
  unfolding issue_def authorize_def revoke_for_run_def
  by (intro keeps_rules; auto split: error.splits)+

lemma keeps_applier [intro]: "keeps store_inv (applier pystr parse project now ids ev r)"
proof -
  have "keeps store_inv (accept_workspace parse project now ids ev r)"
    unfolding accept_workspace_def by (auto split: json.splits list.splits intro!: keeps_rules)
  moreover have "keeps store_inv (accept_update project now ids r)"
    unfolding accept_update_def by (intro keeps_rules) auto
  moreover have "keeps store_inv (accept_turn_completed pystr project ev)"
    unfolding accept_turn_completed_def by (intro keeps_rules) auto
  ultimately show ?thesis
    unfolding applier_def by (intro keeps_sbind) (auto split: event_kind.splits)
qed

lemma keeps_accept [intro]:
  "keeps store_inv (accept_event pystr now ev (applier pystr parse project now ids ev))"
  unfolding accept_event_def by (intro keeps_rules keeps_update_run_with) auto

lemma keeps_start: "keeps store_inv (start_service now f nd caps)"
  unfolding start_service_def by (intro keeps_rules) auto

lemma keeps_perform: "keeps store_inv (perform e op)"
  by (cases op) (auto simp: discard_def intro!: keeps_sbind)

lemma trace_store_inv: "cp_trace e s ops t \<Longrightarrow> store_inv s \<Longrightarrow> store_inv t"
proof (induction rule: cp_trace.induct)
  case (trace_step op s res t ops u)
  then show ?case using keeps_pair [OF keeps_perform] by blast
qed

end
