(* ===== verification/Control_Examples.thy ===== *)
theory Control_Examples
  imports Trace_Properties Store_Order
begin

text \<open>
  Concrete histories of the control plane, run from an empty store by the operations themselves: a
  computer starts, a task is created and leased, a connector grant is issued, an event arrives, the
  run is recovered. The properties are applied to them where they have hypotheses. The digest of the
  examples pads a short token to 64 characters.
\<close>

definition ex_digest :: "string \<Rightarrow> string" where
  "ex_digest t = take 64 (t @ replicate 64 CHR ''0'')"

definition ex_pystr :: "json \<Rightarrow> string" where
  "ex_pystr v = []"

definition ex_parse :: "json \<Rightarrow> task_workspace result" where
  "ex_parse v = Inl (ValidationError ''TaskWorkspace'')"

definition ex_env :: cp_env where
  "ex_env = \<lparr>env_digest = ex_digest, env_pystr = ex_pystr, env_parse = ex_parse, env_local = ''c''\<rparr>"

definition ex_caps :: computer_capabilities where
  "ex_caps = \<lparr>cap_platform = ''linux'', cap_architecture = ''arm'', cap_runtime_version = ''1'',
     cap_protocol_versions = [RUNTIME_PROTOCOL_VERSION], cap_agent_engines = [''e''], cap_shells = [],
     cap_has_git = True, cap_has_terminal = True, cap_supports_local_folders = True,
     cap_task_capabilities = [], cap_max_concurrent_runs = 2\<rparr>"

definition ex_project :: code_project where
  "ex_project = \<lparr>cp_id = ''p'', cp_name = ''P'', cp_resources = [Local_Folder
       \<lparr>lf_id = ''f'', lf_name = ''F'', lf_path = ''x'', lf_computer_id = ''c'', lf_commands = []\<rparr>],
     cp_folders = [], cp_connections = [], cp_skill_sources = [], cp_extras = []\<rparr>"

definition ex_id :: "nat \<Rightarrow> string" where
  "ex_id n = ''w''"

definition ex_start :: local_store where
  "ex_start = snd (start_service 0 ''c'' ''n'' ex_caps empty_store)"

definition ex_leasing :: "cp_op list" where
  "ex_leasing = [Create 1 ''t'' ''T'' [] (Some ex_project) None None ''e'' None None ''r'' ex_id,
     Acquire 2 ''c'' ''L'',
     Issue_Grant 3 ''r'' ''github'' ''h'' [''a''] [] 1000 ''g'' ''k'' ''a1'']"

definition ex_leased :: local_store where
  "ex_leased = snd (run_ops ex_env ex_leasing ex_start)"

definition ex_event :: runtime_event where
  "ex_event = \<lparr>ev_protocol_version = RUNTIME_PROTOCOL_VERSION, ev_id = ''e1'', ev_run_id = ''r'',
     ev_computer_id = ''c'', ev_lease_id = ''L'', ev_epoch = 1, ev_seq = 1, ev_kind = Ev_Status,
     ev_payload = [(''status'', JStr ''ready'')]\<rparr>"

abbreviation ex_accept :: "(local_store, task_run) comp" where
  "ex_accept \<equiv> accept_event ex_pystr 4 ex_event (applier ex_pystr ex_parse (Inr ()) 4 ex_id ex_event)"

definition ex_ready :: local_store where
  "ex_ready = snd (ex_accept ex_leased)"

definition ex_use :: "cp_op list" where
  "ex_use = [Authorize 5 ''g'' ''k'' ''a'' [] None ''a2'', Authorize 6 ''g'' ''k'' ''b'' [] None ''a3'']"

definition ex_used :: local_store where
  "ex_used = snd (run_ops ex_env ex_use ex_ready)"

definition ex_recovered :: local_store where
  "ex_recovered = snd (recover_run 7 ''r'' None False ex_used)"

lemma ex_start_facts:
  "runs ex_start = empty_coll" "grants ex_start = empty_coll" "audit ex_start = empty_coll"
  by code_simp+

lemma ex_start_ok: "runs_ok (runs ex_start)" "grants_ok (grants ex_start)"
  by (simp_all add: ex_start_facts runs_ok_def grants_ok_def) (simp_all add: empty_coll_def)

lemma run_ops_end: "fresh_ops e ops s \<Longrightarrow> cp_trace e s (fst (run_ops e ops s)) (snd (run_ops e ops s))"
  by (rule run_ops_trace) simp_all

lemma ex_leased_trace:
  "cp_trace ex_env ex_start (fst (run_ops ex_env ex_leasing ex_start)) ex_leased"
proof -
  have "fresh_ops ex_env ex_leasing ex_start" by code_simp
  then show ?thesis unfolding ex_leased_def by (rule run_ops_end)
qed

lemma ex_leased_ok: "runs_ok (runs ex_leased)" "grants_ok (grants ex_leased)"
  using trace_runs [OF ex_leased_trace] trace_records [OF ex_leased_trace] ex_start_ok
  by (simp_all add: runs_advance_def records_advance_def grants_advance_def)

lemma Inr_pair: "\<not> isl (fst p) \<Longrightarrow> \<exists>x. p = (Inr x, snd p)"
  by (cases p, cases "fst p") auto

lemma ex_accepted: "\<exists>r. ex_accept ex_leased = (Inr r, ex_ready)"
proof -
  have "\<not> isl (fst (ex_accept ex_leased))" by code_simp
  then show ?thesis unfolding ex_ready_def by (rule Inr_pair)
qed

lemma ex_ready_ok: "runs_ok (runs ex_ready)" "grants_ok (grants ex_ready)"
  using withinD [OF accept_event_advance, of ex_leased ex_pystr 4 ex_event ex_parse "Inr ()" ex_id]
    withinD [OF records_accept, of ex_leased ex_pystr 4 ex_event ex_parse "Inr ()" ex_id] ex_leased_ok
  by (simp_all add: ex_ready_def runs_advance_def records_advance_def grants_advance_def)

lemma ex_used_trace: "cp_trace ex_env ex_ready (fst (run_ops ex_env ex_use ex_ready)) ex_used"
proof -
  have "fresh_ops ex_env ex_use ex_ready" by code_simp
  then show ?thesis unfolding ex_used_def by (rule run_ops_end)
qed

lemma ex_used_ok: "runs_ok (runs ex_used)" "grants_ok (grants ex_used)"
  using trace_runs [OF ex_used_trace] trace_records [OF ex_used_trace] ex_ready_ok
  by (simp_all add: runs_advance_def records_advance_def grants_advance_def)

lemma ex_recovers: "\<exists>r. recover_run 7 ''r'' None False ex_used = (Inr r, ex_recovered)"
proof -
  have "\<not> isl (fst (recover_run 7 ''r'' None False ex_used))" by code_simp
  then show ?thesis unfolding ex_recovered_def by (rule Inr_pair)
qed

lemma ex_run: "\<exists>r. map_of (docs (runs ex_used)) ''r'' = Some r \<and> run_epoch r = 1"
proof -
  have "map_option run_epoch (map_of (docs (runs ex_used)) ''r'') = Some 1" by code_simp
  then show ?thesis by (auto simp del: map_of_eq_Some_iff)
qed

lemma ex_grant: "\<exists>g. map_of (docs (grants ex_ready)) ''g'' = Some g \<and> grant_run_id g = ''r'' \<and>
  grant_max_uses g = 100 \<and> grant_use_count g = 0"
proof -
  have "map_option (\<lambda>g. (grant_run_id g, grant_max_uses g, grant_use_count g))
      (map_of (docs (grants ex_ready)) ''g'') = Some (''r'', 100, 0)" by code_simp
  then show ?thesis by (auto simp del: map_of_eq_Some_iff)
qed

lemma ex_leased_inv: "store_inv ex_leased"
  by (rule trace_store_inv [OF ex_leased_trace])
    (unfold ex_start_def, rule keepsD [OF keeps_start store_inv_empty])

lemma valid_docs_all: "list_all (\<lambda>(i, d). m_valid m d) (docs c) \<Longrightarrow> valid_docs m c"
  by (auto simp: valid_docs_def list_all_iff simp del: map_of_eq_Some_iff dest!: map_of_SomeD)

lemma ex_leased_valid: "owned_valid ex_leased"
  unfolding owned_valid_def
  by (intro conjI valid_docs_all; code_simp)

end
