(* ===== verification/Spec2Isabelle.thy ===== *)
theory Spec2Isabelle
  imports Broker_Claims Sql_Claims Stream_Claims Redis_Claims Registry_Claims Liveness_Claims Index_Claims Journal_Claims
    Lease_Claims Answer_Broker Redaction_Properties Control_Examples
begin

text \<open>
  A verification library for cowork-server, the server behind Cowork: conversations whose turns stream their
  answers to clients, and coding tasks that run on local and remote computers under a control plane.

  \<^bold>\<open>Parts and theories.\<close> Every theory names the source file it follows; a definition has the name of the function it
  translates, with a prefix where two files share one. A record stands for a class, a datatype for an enum or a
  closed set of alternatives, an association list for a dict or a directory (\<open>al_put\<close>, \<open>al_del\<close>), \<open>int\<close> for Python's
  integers and for times. Stateful code is a computation \<open>'s \<Rightarrow> 'a result \<times> 's\<close> with \<open>Inl\<close> an exception
  (\<^verbatim>\<open>Cowork_Prelude\<close>). Concurrency is an explicit list of steps: a step is what runs between two points where others
  may run (a critical section, the code between two awaits, one command to a shared server), so a statement
  about all lists is one about all interleavings; the locales \<open>machine\<close> and \<open>guarded_machine\<close> (\<^verbatim>\<open>Interleavings\<close>) carry
  what every step keeps to every list, and each component interprets them on its own steps.

  \<^item> The control plane, \<^verbatim>\<open>src/cowork/coding\<close>. \<^verbatim>\<open>Control_Models\<close> has the records with their field constraints,
    \<^verbatim>\<open>Run_State\<close> the transition table, \<^verbatim>\<open>Document_Store\<close> and \<^verbatim>\<open>Control_Store\<close> the local store, \<^verbatim>\<open>Store_Journal\<close> its
    transaction journal down to file operations, \<^verbatim>\<open>Fencing\<close>, \<^verbatim>\<open>Control_Service\<close>, \<^verbatim>\<open>Connector_Delegation\<close> and
    \<^verbatim>\<open>Remote_Execution\<close> the service with leases, events, commands, recovery and connector grants, \<^verbatim>\<open>Redaction\<close> the
    removal of secrets. \<^verbatim>\<open>Sql_Store\<close> and \<^verbatim>\<open>Sql_Calls\<close> are the store of the hosted service, one SQL table for all
    tenants. \<^verbatim>\<open>Approval_Broker\<close> and \<^verbatim>\<open>Question_Broker\<close> are where a coding engine waits for its user.
  \<^item> The streaming of turns, \<^verbatim>\<open>src/cowork/streaming\<close>. \<^verbatim>\<open>Json_Codec\<close> is the JSON text format, \<^verbatim>\<open>Stream_Records\<close> the
    records of a turn and their lines, \<^verbatim>\<open>File_Buffer\<close> and \<^verbatim>\<open>Redis_Buffer\<close> the two buffers with their readers,
    \<^verbatim>\<open>Stream_Recovery\<close> what is done at boot, \<^verbatim>\<open>Answer_Text\<close> the text of an answer, \<^verbatim>\<open>Turn_Index\<close> the shared index of
    running turns, \<^verbatim>\<open>Run_Registry\<close> the turns of one server with cancellation and shutdown, \<^verbatim>\<open>Turn_Liveness\<close> the idle
    bound and the ticker against it, \<^verbatim>\<open>Answer_Broker\<close> where a turn waits for an answer.
  \<^item> Channels, \<^verbatim>\<open>src/cowork/channels\<close>. \<^verbatim>\<open>Ingress_Lease\<close> is the lease that lets one replica read a channel.

  \<^bold>\<open>What is shown.\<close> The properties are numbered C1 to C40; those of the control plane stand below, the others in the
  theories named here.

  \<^item> C1 to C7 and C11 hold along every history of calls of the control plane (\<^verbatim>\<open>Control_Trace\<close>): events are applied at
    most once, a recovered run's old execution stays fenced, the uses of a grant are bounded, a revoked grant never
    authorizes, an authorization passed every check, the audit log only grows, deleting a task deletes what it owns
    and nothing else, a transition follows the table. The orders of \<^verbatim>\<open>Run_Order\<close>, \<^verbatim>\<open>Grant_Order\<close> and \<^verbatim>\<open>Record_Order\<close>
    say how a stored record may change; \<^verbatim>\<open>Store_Order\<close> carries the store's invariant along. C8 to C10 are the redaction.
  \<^item> C12 to C20, \<^verbatim>\<open>Stream_Claims\<close>: a file-backed reader gets every record once and is never left waiting, recovery reads
    back the text that was streamed, two defects of the boot sweep, merging deltas keeps the answer.
  \<^item> C21 to C23, \<^verbatim>\<open>Index_Claims\<close>: recorded turns stay listed, a run is removed only by its own call, and a race that
    hides a running turn.
  \<^item> C24 to C27, \<^verbatim>\<open>Sql_Claims\<close>: the shared table refines one local store per tenant, tenants do not see each other, rows
    stay consistent, a claim takes the oldest waiting run. The locale \<open>document_store\<close> is the contract of a collection; the
    local collections and the rows of the table both interpret it.
  \<^item> C28 to C31, \<^verbatim>\<open>Broker_Claims\<close>: an engine acts only on recorded approvals, with the one race in which it does not;
    one open card; recorded answers only.
  \<^item> C32 to C34, \<^verbatim>\<open>Redis_Claims\<close>: the same exactness for the shared stream on several replicas, readers return, and the
    race that ends a turn twice.
  \<^item> C35 and C36, \<^verbatim>\<open>Registry_Claims\<close>: one turn of a conversation can write, and the shutdown misses none.
  \<^item> C37, \<^verbatim>\<open>Lease_Claims\<close>: the ingress lease is exclusive.
  \<^item> C38 and C40, \<^verbatim>\<open>Liveness_Claims\<close>: a waiting model call is not taken for a hung turn, a hung turn is reaped in time.
  \<^item> C39, \<^verbatim>\<open>Journal_Claims\<close>: saving several documents is all or nothing under crashes.

  \<^bold>\<open>Bounds and fuel.\<close> The JSON parser and the splitting of lines recurse on fuel of at least the length of the text;
  \<^verbatim>\<open>Json_Roundtrip\<close> shows that it is enough for every text the encoder writes. The loop of
  \<open>wait_for_command\<close> runs on the list of the polls made before its deadline. C33 bounds the steps of a reader of the
  shared stream by three for each entry and 72 more, sixty of which are the time-outs of five seconds that make up
  its five minutes.

  \<^bold>\<open>Parameters.\<close> Identifiers, times, digests, the text of a float and \<open>str\<close> of other values are arguments. Whether a
  file operation, a command or a callback fails is an argument of the step that makes it.

  \<^bold>\<open>Not modelled.\<close> The HTTP endpoints, the response handlers and the agent harnesses, the coding engines, sessions and
  workspaces (subprocesses, git and file trees), the services on files and object stores, the message exchange with the
  sandbox controller, settings and logging. Of the modelled parts: the display texts of cards and recovery options, the
  parsing of shell commands into remembered rules (its result is an argument), the expiry of a Redis stream an hour after
  its last write, the Redis writes of a cancellation flag (the reader takes any flag), and the order in which a disk
  makes writes durable.
\<close>

section \<open>Runs, leases and runtime events\<close>

text \<open>
  C1. A runtime event is applied at most once. After an event was accepted, and after any further calls
  of the control plane, delivering it again, or delivering any event of the same run at or before its
  position, leaves the whole store as it is, whatever side effects come with the delivery.
\<close>

theorem event_applied_at_most_once:
  assumes ok: "runs_ok (runs s)"
    and acc: "accept_event pystr now ev (applier pystr parse project now ids ev) s = (Inr r, t)"
    and tr: "cp_trace e t ops u"
    and run: "ev_run_id late = ev_run_id ev"
    and pos: "ev_epoch late < ev_epoch ev \<or> ev_epoch late = ev_epoch ev \<and> ev_seq late \<le> ev_seq ev"
  shows "snd (accept_event pystr' now' late effects u) = u"
proof -
  have okt: "runs_ok (runs t)"
    using within_pair [OF accept_event_advance acc] ok by (simp add: runs_advance_def)
  obtain r1 where r1: "map_of (docs (runs t)) (ev_run_id ev) = Some r1" "run_epoch r1 = ev_epoch ev"
    "run_last_event_seq r1 = ev_seq ev"
    using acc ok by (rule accept_event_position)
  obtain r2 where r2: "map_of (docs (runs u)) (ev_run_id ev) = Some r2" "run_le r1 r2"
    "runs_ok (runs u)"
    using tr okt r1(1) by (rule trace_run)
  show ?thesis
  proof (rule old_event_no_effect)
    show "map_of (docs (runs u)) (ev_run_id late) = Some r2" using r2(1) run by simp
    show "ev_epoch late < run_epoch r2 \<or>
        ev_epoch late = run_epoch r2 \<and> ev_seq late \<le> run_last_event_seq r2"
      using pos r1 r2(2) by (auto simp: run_le_def)
  qed (rule r2(3))
qed

theorem event_applied_at_most_once_witness:
  "snd (accept_event ex_pystr 6 ex_event (\<lambda>r. sreturn r) ex_used) = ex_used"
proof -
  obtain r where "ex_accept ex_leased = (Inr r, ex_ready)" using ex_accepted by blast
  from event_applied_at_most_once [OF ex_leased_ok(1) this ex_used_trace, of ex_event]
  show ?thesis by simp
qed

text \<open>
  C2. A superseded execution stays fenced. Once a run was recovered, no event, command claim or command
  acknowledgement carrying the epoch it had before, or an older one, succeeds at any later moment or
  changes the store.
\<close>

theorem superseded_execution_fenced:
  assumes ok: "runs_ok (runs s)" and old: "map_of (docs (runs s)) i = Some r0"
    and rec: "recover_run now i cid allow s = (Inr r, t)" and tr: "cp_trace e t ops u"
    and ep: "ep \<le> run_epoch r0"
  shows "(\<exists>x. claim_commands now' i c l ep u = (Inl x, u)) \<and>
    (\<exists>x. acknowledge_command now' i k c l ep res err u = (Inl x, u)) \<and>
    (ev_run_id ev = i \<and> ev_epoch ev = ep \<longrightarrow> (\<exists>x. accept_event pystr now' ev effects u = (Inl x, u)))"
proof -
  have okt: "runs_ok (runs t)"
    using within_pair [OF recover_run_advance rec] ok by (simp add: runs_advance_def)
  obtain r1 where r1: "map_of (docs (runs t)) i = Some r1" "run_epoch r1 = run_epoch r0 + 1"
    using rec ok old by (rule recover_run_position)
  obtain r2 where r2: "map_of (docs (runs u)) i = Some r2" "run_le r1 r2" "runs_ok (runs u)"
    using tr okt r1(1) by (rule trace_run)
  have "ep < run_epoch r2" using ep r1(2) r2(2) by (auto simp: run_le_def)
  then show ?thesis using superseded_calls [OF r2(1,3)] superseded_event [of u ev r2] r2 by blast
qed

theorem superseded_execution_fenced_witness:
  "\<exists>x. accept_event ex_pystr 8 ex_event (\<lambda>r. sreturn r) ex_recovered = (Inl x, ex_recovered)"
proof -
  obtain r where rec: "recover_run 7 ''r'' None False ex_used = (Inr r, ex_recovered)"
    using ex_recovers by blast
  obtain r0 where r0: "map_of (docs (runs ex_used)) ''r'' = Some r0" "run_epoch r0 = 1"
    using ex_run by blast
  from superseded_execution_fenced [OF ex_used_ok(1) r0(1) rec trace_nil [of ex_env], of 1 8 _ _ _ _ _ ex_event]
  show ?thesis using r0(2) by (simp add: ex_event_def)
qed

section \<open>Connector grants and the audit log\<close>

text \<open>
  C3. Over any history, the calls that authorized with a grant, together with the uses it already had,
  never exceed its limit.
\<close>

theorem grant_uses_bounded:
  assumes "grants_ok (grants s)" and "map_of (docs (grants s)) gid = Some g" and "cp_trace e s ops u"
  shows "grant_use_count g + int (length (filter (uses_grant gid) ops)) \<le> grant_max_uses g"
  by (rule trace_uses [OF assms(3,1,2)])

theorem grant_uses_bounded_witness:
  "int (length (filter (uses_grant ''g'') (fst (run_ops ex_env ex_use ex_ready)))) \<le> 100"
proof -
  obtain g where g: "map_of (docs (grants ex_ready)) ''g'' = Some g" "grant_max_uses g = 100"
      "grant_use_count g = 0" using ex_grant by blast
  from grant_uses_bounded [OF ex_ready_ok(2) g(1) ex_used_trace] show ?thesis using g by simp
qed

text \<open>
  C4. Revocation is final. Once the grants of a run were revoked, no later call authorizes with any grant
  the run had, whatever happened in between.
\<close>

theorem revoked_grant_never_authorizes:
  assumes ok: "grants_ok (grants s)" and g: "map_of (docs (grants s)) gid = Some g"
    and run: "grant_run_id g = rid" "rid \<noteq> []"
    and rev: "revoke_for_run now rid aids s = (Inr x, t)" and tr: "cp_trace e t ops u"
  shows "isl (fst (authorize digest now' gid token action constraints cid aid u))"
proof (rule ccontr)
  have okt: "grants_ok (grants t)"
    using within_pair [OF revoke_for_run_advance rev] ok by (simp add: grants_advance_def)
  obtain g1 where g1: "map_of (docs (grants t)) gid = Some g1" "grant_revoked_at g1 \<noteq> None"
    using revoke_for_run_result [OF rev ok g run] by blast
  obtain g2 where g2: "map_of (docs (grants u)) gid = Some g2" "grant_le g1 g2" "grants_ok (grants u)"
    using tr okt g1(1) by (rule trace_grant)
  assume "\<not> isl (fst (authorize digest now' gid token action constraints cid aid u))"
  then obtain g' v where "authorize digest now' gid token action constraints cid aid u = (Inr g', v)"
    using Inr_pair by blast
  then obtain g3 q where "map_of (docs (grants u)) gid = Some g3"
    "validate_grant_use digest now' g3 q token action constraints cid = Inr ()"
    using g2(3) by (rule authorize_Inr)
  then show False using g1(2) g2 by (simp add: validate_grant_use_Inr grant_le_def)
qed

theorem revoked_grant_never_authorizes_witness:
  "isl (fst (authorize ex_digest 9 ''g'' ''k'' ''a'' [] None ''a4''
     (snd (revoke_for_run 8 ''r'' (\<lambda>_. ''a9'') ex_ready))))"
proof -
  obtain g where g: "map_of (docs (grants ex_ready)) ''g'' = Some g" "grant_run_id g = ''r''"
    using ex_grant by blast
  have "\<not> isl (fst (revoke_for_run 8 ''r'' (\<lambda>_. ''a9'') ex_ready))" by code_simp
  then obtain x where rev: "revoke_for_run 8 ''r'' (\<lambda>_. ''a9'') ex_ready =
      (Inr x, snd (revoke_for_run 8 ''r'' (\<lambda>_. ''a9'') ex_ready))" using Inr_pair by blast
  show ?thesis
    by (rule revoked_grant_never_authorizes [OF ex_ready_ok(2) g _ rev trace_nil [of ex_env]]) simp
qed





section \<open>Deleting a task\<close>

text \<open>
  C7. Deleting a task whose records still validate returns, and removes exactly the task, its runs, and the
  workspaces, grants, commands, run credentials and audit events those runs own. Every other record
  of every collection stays.
\<close>

theorem delete_task_cascades:
  assumes "store_inv s" and "owned_valid s" and "path_ok tid"
  shows "\<exists>t. delete_task tid s = (Inr (), t) \<and> store_inv t \<and>
    map_of (docs (tasks t)) = (map_of (docs (tasks s)))(tid := None) \<and>
    erased (runs_of s tid) s (t\<lparr>tasks := tasks s\<rparr>)"
  by (rule delete_task_erased [OF assms])

theorem delete_task_cascades_witness:
  "\<exists>t. delete_task ''t'' ex_leased = (Inr (), t) \<and> map_of (docs (tasks t)) ''t'' = None \<and>
     map_of (docs (runs t)) ''r'' = None \<and> map_of (docs (grants t)) ''g'' = None"
proof -
  have p: "path_ok ''t''" by code_simp
  from delete_task_cascades [OF ex_leased_inv ex_leased_valid p] obtain t where
    t: "delete_task ''t'' ex_leased = (Inr (), t)"
      "map_of (docs (tasks t)) = (map_of (docs (tasks ex_leased)))(''t'' := None)"
      "erased (runs_of ex_leased ''t'') ex_leased (t\<lparr>tasks := tasks ex_leased\<rparr>)" by blast
  have "map_option run_task_id (map_of (docs (runs ex_leased)) ''r'') = Some ''t''" by code_simp
  then have r: "''r'' \<in> runs_of ex_leased ''t''"
    by (auto simp: runs_of_def simp del: map_of_eq_Some_iff)
  have "map_option grant_run_id (map_of (docs (grants ex_leased)) ''g'') = Some ''r''" by code_simp
  then obtain g where "map_of (docs (grants ex_leased)) ''g'' = Some g" "grant_run_id g = ''r''"
    by (auto simp del: map_of_eq_Some_iff)
  then have "map_of (docs (grants t)) ''g'' = None"
    using t(3) r by (simp add: erased_def drop_owned_def grant_model_def parent_of_def
        del: map_of_eq_Some_iff)
  then show ?thesis using t r by (auto simp: erased_def)
qed

section \<open>Redaction\<close>

text \<open>
  C8. Whatever a runtime sends, no value survives under a sensitive key at any depth of a sanitized payload:
  it is the redaction marker.
\<close>

theorem sanitize_hides_sensitive_keys: "safe_json (sanitize v)"
  unfolding sanitize_def by (rule sanitize_safe(1))

text \<open>
  C9. A sanitized payload is at most six levels deep, with at most one hundred entries in every object and
  array and at most 256 characters in every key.
\<close>

theorem sanitize_shape_bounded: "shape_ok 6 (sanitize v)"
  unfolding sanitize_def using sanitize_shape(1) [of 0] by simp

text \<open>
  C10. The character budget is not a bound on the result: there is a payload whose sanitized form holds more
  than twice \<open>_MAX_SANITIZED_CHARS\<close> characters of text. With one to fifteen characters left, charging
  sixteen for the node makes the remaining budget negative, and the slice up to a negative index keeps
  the string almost whole.
\<close>

theorem sanitize_budget_exceeded: "2 * MAX_SANITIZED_CHARS < int (text_size (sanitize over_budget))"
  unfolding over_budget_kept MAX_SANITIZED_CHARS_def by (simp add: letters_def sum_list_replicate)

section \<open>The run state machine\<close>

text \<open>
  C11. A status change is applied exactly when the table allows it or it changes nothing; then the run has the
  new status, keeps its identity, epoch and event position, keeps the lease discipline, and a run that
  has just ended holds no lease.
\<close>

theorem transition_run_correct:
  "(\<not> isl (transition_run now r target err) \<longleftrightarrow>
      target = run_status r \<or> target \<in> set (ALLOWED_TRANSITIONS (run_status r))) \<and>
   (\<forall>r'. transition_run now r target err = Inr r' \<longrightarrow>
      run_status r' = target \<and> run_id r' = run_id r \<and> run_epoch r' = run_epoch r \<and>
      run_last_event_seq r' = run_last_event_seq r \<and> (run_ok r \<longrightarrow> run_ok r') \<and>
      (target \<noteq> run_status r \<and> terminal target \<longrightarrow>
         run_lease_id r' = None \<and> run_lease_expires_at r' = None))"
proof (intro conjI allI impI)
  show "\<not> isl (transition_run now r target err) \<longleftrightarrow>
      target = run_status r \<or> target \<in> set (ALLOWED_TRANSITIONS (run_status r))"
    unfolding transition_run_allowed [symmetric, of target r now err]
    by (cases "transition_run now r target err") auto
  fix r' assume t: "transition_run now r target err = Inr r'"
  note frame = transition_run_frame [OF t]
  show "run_status r' = target" by (rule transition_run_status [OF t])
  show "run_id r' = run_id r" "run_epoch r' = run_epoch r"
    "run_last_event_seq r' = run_last_event_seq r" using frame by simp_all
  show "run_ok r'" if "run_ok r" by (rule transition_run_ok [OF t that])
  show "run_lease_id r' = None" "run_lease_expires_at r' = None"
    if "target \<noteq> run_status r \<and> terminal target"
    using transition_run_lease [OF t] that by simp_all
qed

theorem transition_run_correct_witness:
  "\<exists>r'. transition_run 5 (new_run 0 ''r'' ''t'' ''c'') Cancelled None = Inr r' \<and> run_lease_id r' = None"
proof -
  let ?r = "new_run 0 ''r'' ''t'' ''c''"
  note c = transition_run_correct [of 5 ?r Cancelled None]
  have st: "run_status ?r = Queued" by (simp add: new_run_def)
  then obtain r' where r': "transition_run 5 ?r Cancelled None = Inr r'"
    using c by (cases "transition_run 5 ?r Cancelled None") auto
  then show ?thesis using c st by simp
qed

end
